(* ===== verification/Prelude.thy ===== *)
theory Prelude
  imports Main "HOL-Library.Word"
begin

text \<open>
  Shared vocabulary of the development: the widths of the C integer types, the faults that end
  an execution of kernel code (a dereference of a null or dangling pointer, an access outside an
  object, a division by zero, a kernel panic, a loop that is still running when its fuel is used
  up), the sequencing of computations that may fault, checked accesses to arrays, and the
  generic facts on words and lists that the component theories use.
\<close>

unbundle bit_operations_syntax

section \<open>C integer types\<close>

type_synonym u8 = "8 word"
type_synonym u16 = "16 word"
type_synonym u32 = "32 word"
type_synonym u64 = "64 word"

text \<open>
  A conversion to \<^verbatim>\<open>int\<close> keeps the low 32 bits and reads them in two's complement.
\<close>

definition to_int :: "u64 \<Rightarrow> int" where
  "to_int w = sint (ucast w :: u32)"

text \<open>The error numbers of \<^verbatim>\<open>errno.h\<close> that the modelled functions return, negated.\<close>

definition EPERM :: int where "EPERM = 1"
definition ENOENT :: int where "ENOENT = 2"
definition EIO :: int where "EIO = 5"
definition ENOMEM :: int where "ENOMEM = 12"
definition EFAULT :: int where "EFAULT = 14"
definition EBUSY :: int where "EBUSY = 16"
definition EEXIST :: int where "EEXIST = 17"
definition ENODEV :: int where "ENODEV = 19"
definition ENOTDIR :: int where "ENOTDIR = 20"
definition EISDIR :: int where "EISDIR = 21"
definition EINVAL :: int where "EINVAL = 22"
definition ENOTTY :: int where "ENOTTY = 25"
definition ENOSYS :: int where "ENOSYS = 38"

section \<open>Faults and their propagation\<close>

datatype fault =
    NullDeref
  | WildDeref
  | OutOfBounds
  | DivByZero
  | Panic string
  | OutOfFuel

type_synonym 'a res = "fault + 'a"

definition bindE :: "'a res \<Rightarrow> ('a \<Rightarrow> 'b res) \<Rightarrow> 'b res" where
  "bindE m f = (case m of Inl e \<Rightarrow> Inl e | Inr x \<Rightarrow> f x)"

named_theorems bindE_simps

lemma bindE_Inl [simp, bindE_simps]: "bindE (Inl e) f = Inl e"
  by (simp add: bindE_def)

lemma bindE_Inr [simp, bindE_simps]: "bindE (Inr x) f = f x"
  by (simp add: bindE_def)

lemma bindE_assoc: "bindE (bindE m f) g = bindE m (\<lambda>x. bindE (f x) g)"
  by (cases m) simp_all

lemma bindE_eq_Inr: "bindE m f = Inr y \<longleftrightarrow> (\<exists>x. m = Inr x \<and> f x = Inr y)"
  by (cases m) simp_all

lemma bindE_cong [fundef_cong]:
  "m = m' \<Longrightarrow> (\<And>x. m' = Inr x \<Longrightarrow> f x = f' x) \<Longrightarrow> bindE m f = bindE m' f'"
  by (cases m') simp_all

lemma bindE_if: "bindE (if b then m else n) f = (if b then bindE m f else bindE n f)"
  by simp

section \<open>Checked array accesses\<close>

definition arr_get :: "'a list \<Rightarrow> u64 \<Rightarrow> 'a res" where
  "arr_get xs i = (if unat i < length xs then Inr (xs ! unat i) else Inl OutOfBounds)"

definition arr_set :: "'a list \<Rightarrow> u64 \<Rightarrow> 'a \<Rightarrow> 'a list res" where
  "arr_set xs i v = (if unat i < length xs then Inr (xs[unat i := v]) else Inl OutOfBounds)"

lemma arr_get_ok [simp]: "unat i < length xs \<Longrightarrow> arr_get xs i = Inr (xs ! unat i)"
  by (simp add: arr_get_def)

lemma arr_set_ok [simp]: "unat i < length xs \<Longrightarrow> arr_set xs i v = Inr (xs[unat i := v])"
  by (simp add: arr_set_def)

lemma arr_get_oob [simp]: "\<not> unat i < length xs \<Longrightarrow> arr_get xs i = Inl OutOfBounds"
  by (simp add: arr_get_def)

lemma arr_set_oob [simp]: "\<not> unat i < length xs \<Longrightarrow> arr_set xs i v = Inl OutOfBounds"
  by (simp add: arr_set_def)

section \<open>Facts on words\<close>

lemma unat_less_2p64 [simp]: "unat (x :: u64) < 18446744073709551616"
proof -
  have "unat x < 2 ^ LENGTH(64)"
    by (rule unsigned_less)
  then show ?thesis by simp
qed

lemma unat_Suc_less:
  "(x :: u64) < y \<Longrightarrow> unat (x + 1) = Suc (unat x)"
  by unat_arith

lemma unat_pred:
  "(x :: u64) \<noteq> 0 \<Longrightarrow> unat (x - 1) = unat x - 1"
  by unat_arith

lemma unat_add_small:
  "unat (x :: u64) + unat y < 2 ^ 64 \<Longrightarrow> unat (x + y) = unat x + unat y"
  by (simp add: unat_word_ariths)

lemma unat_mult_small:
  "unat (x :: u64) * unat y < 2 ^ 64 \<Longrightarrow> unat (x * y) = unat x * unat y"
  by (simp add: unat_word_ariths)

lemma unat_of_nat_small [simp]: "n < 2 ^ 64 \<Longrightarrow> unat (of_nat n :: u64) = n"
  by (simp add: unat_of_nat take_bit_nat_eq_self)

lemma bit_u8_ge: "8 \<le> n \<Longrightarrow> bit (v :: u8) n \<longleftrightarrow> False"
  using bit_imp_le_length [of v n] by auto

lemma bit_u64_ge: "64 \<le> n \<Longrightarrow> bit (v :: u64) n \<longleftrightarrow> False"
  using bit_imp_le_length [of v n] by auto

lemma and_mask_mod: "(x :: 'a::len word) AND mask n = x mod 2 ^ n"
  by (simp add: take_bit_eq_mask [symmetric] take_bit_eq_mod)

lemma and_low_bits:
  "(x :: u64) AND 0x1 = x mod 2" "x AND 0x7 = x mod 8" "x AND 0xF = x mod 16"
  "x AND 0x1FF = x mod 512" "x AND 0xFFF = x mod 4096"
  using and_mask_mod [of x 1] and_mask_mod [of x 3] and_mask_mod [of x 4]
    and_mask_mod [of x 9] and_mask_mod [of x 12]
  by (simp_all add: mask_eq_exp_minus_1)

lemma len64: "LENGTH(64) = 64"
  by simp

lemma ucast_word_of_int_u32: "(ucast (word_of_int k :: u64) :: u32) = word_of_int k"
  by (rule bit_word_eqI) (simp add: bit_simps del: of_int_diff of_int_add)

lemma to_int_of_int:
  assumes "- (2 ^ 31) \<le> k" and "k < 2 ^ 31"
  shows "to_int (word_of_int k) = k"
proof -
  have "to_int (word_of_int k) = sint (word_of_int k :: u32)"
    unfolding to_int_def by (simp only: ucast_word_of_int_u32)
  then show ?thesis
    using assms by (simp add: signed_of_int signed_take_bit_int_eq_self)
qed

lemma to_int_of_nat: "k < 2 ^ 31 \<Longrightarrow> to_int (of_nat k) = int k"
  using to_int_of_int [of "int k"] by simp

lemma to_int_minus_1: "to_int (- 1) = - 1"
  using to_int_of_int [of "- 1"] by simp

lemma to_int_diff: "k < 2 ^ 31 \<Longrightarrow> l < 2 ^ 31 \<Longrightarrow> to_int (of_nat k - of_nat l) = int k - int l"
  using to_int_of_int [of "int k - int l"] by simp

lemma unat_ucast_u64:
  "unat (ucast (b :: u8) :: u64) = unat b" "unat (ucast (w :: u16) :: u64) = unat w" "unat (ucast (d :: u32) :: u64) = unat d"
  by (simp_all add: unsigned_ucast_eq take_bit_nat_eq_self order_less_trans [OF unsigned_less])

lemma u64_unat_eq_iff [simp]: "unat (x :: u64) = unat y \<longleftrightarrow> x = y"
  by (auto intro: unsigned_word_eqI)

lemma u64_zero_iff: "(x :: u64) = 0 \<longleftrightarrow> unat x = 0"
  by (simp add: unat_eq_zero)

end
