(* ===== verification/Stdstr.thy ===== *)
theory Stdstr
  imports Prelude
begin

text \<open>
  The string and memory routines of \<^verbatim>\<open>common/stdstr.c\<close>. A character buffer is the list of the
  bytes of the object the pointer designates, \<^verbatim>\<open>NULL\<close> is \<^term>\<open>None\<close>, and an index outside the
  object is the fault \<^term>\<open>OutOfBounds\<close>. The raw memory routines work on a memory that maps every
  64-bit address to a byte. The lemmas relate the conversions to positional digit lists, the
  in-place reversal to \<^term>\<open>rev\<close>, the comparisons to equality of strings, and the word-at-a-time
  memory routines to their byte-wise specifications.
\<close>

section \<open>Definitions\<close>

datatype str_status_t = STR_SUCCESS | STR_ERR_INVALID_ARG | STR_ERR_BUFFER_TOO_SMALL

function str_reverse_loop :: "u8 list \<Rightarrow> u64 \<Rightarrow> u64 \<Rightarrow> u8 list res" where
  "str_reverse_loop str left_ptr right_ptr =
     (if left_ptr \<le> right_ptr then
        (if left_ptr = right_ptr then Inr str
         else
           bindE (arr_get str left_ptr) (\<lambda>temp.
           bindE (arr_get str right_ptr) (\<lambda>c.
           bindE (arr_set str left_ptr c) (\<lambda>str1.
           bindE (arr_set str1 right_ptr temp) (\<lambda>str2.
             str_reverse_loop str2 (left_ptr + 1) (right_ptr - 1))))))
      else Inr str)"
  by pat_completeness auto
termination
proof (relation "measure (\<lambda>(str, l, r). unat r - unat l)", goal_cases)
  case 1
  then show ?case by simp
next
  case (2 str l r temp c str1 str2)
  then have "l < r" by simp
  then have "unat (r - 1) < unat r" and "unat l < unat (l + 1)" and "unat l < unat r"
    by unat_arith+
  then show ?case by simp
qed

definition str_reverse :: "u8 list option \<Rightarrow> u64 \<Rightarrow> u64 \<Rightarrow> (str_status_t \<times> u8 list option) res" where
  "str_reverse str start_index end_index =
     (case str of
        None \<Rightarrow> Inr (STR_ERR_INVALID_ARG, None)
      | Some s \<Rightarrow>
          bindE (str_reverse_loop s start_index (end_index - 1)) (\<lambda>s'.
            Inr (STR_SUCCESS, Some s')))"

fun str_len_loop :: "u8 list \<Rightarrow> u64 \<Rightarrow> u64 res" where
  "str_len_loop [] len = Inl OutOfBounds"
| "str_len_loop (c # cs) len = (if c \<noteq> 0 then str_len_loop cs (len + 1) else Inr (len + 1))"

definition str_len :: "u8 list \<Rightarrow> u64 res" where
  "str_len str = bindE (str_len_loop str 0) (\<lambda>len. Inr (len - 1))"

function ultoa_loop :: "u64 \<Rightarrow> u64 \<Rightarrow> u64 \<Rightarrow> u8 list \<Rightarrow> (u64 \<times> u64 \<times> u8 list) res" where
  "ultoa_loop sz i number buffer =
     (if i < sz - 1 \<and> number > 0 then
        bindE (arr_set buffer i (ucast (0x30 + number mod 10))) (\<lambda>buffer'.
          ultoa_loop sz (i + 1) (number div 10) buffer')
      else Inr (i, number, buffer))"
  by pat_completeness auto
termination
  by (relation "measure (\<lambda>(sz, i, number, buffer). unat number)")
     (auto simp: unat_div word_less_nat_alt)

definition ultoa :: "u64 \<Rightarrow> u8 list option \<Rightarrow> u64 \<Rightarrow> (str_status_t \<times> u8 list option) res" where
  "ultoa number buffer sz =
     (case buffer of
        None \<Rightarrow> Inr (STR_ERR_INVALID_ARG, None)
      | Some buf \<Rightarrow>
          if sz < 2 then Inr (STR_ERR_BUFFER_TOO_SMALL, Some buf)
          else if number = 0 then
            bindE (arr_set buf 0 0x30) (\<lambda>buf1.
            bindE (arr_set buf1 1 0) (\<lambda>buf2.
              Inr (STR_SUCCESS, Some buf2)))
          else
            bindE (ultoa_loop sz 0 number buf) (\<lambda>(i, number', buf1).
            bindE (arr_set buf1 i 0) (\<lambda>buf2.
              if number' > 0 then Inr (STR_ERR_BUFFER_TOO_SMALL, Some buf2)
              else
                bindE (str_len buf2) (\<lambda>len.
                bindE (str_reverse (Some buf2) 0 len) (\<lambda>(_, buf3).
                  Inr (STR_SUCCESS, buf3))))))"

definition hex_chars :: "u8 list" where
  "hex_chars = [0x30, 0x31, 0x32, 0x33, 0x34, 0x35, 0x36, 0x37, 0x38, 0x39,
                0x41, 0x42, 0x43, 0x44, 0x45, 0x46]"

function ultox_loop :: "u64 \<Rightarrow> u64 \<Rightarrow> u64 \<Rightarrow> u8 list \<Rightarrow> (u64 \<times> u64 \<times> u8 list) res" where
  "ultox_loop sz i number buffer =
     (if i < sz - 1 \<and> number > 0 then
        bindE (arr_get hex_chars (number AND 0xF)) (\<lambda>c.
        bindE (arr_set buffer i c) (\<lambda>buffer'.
          ultox_loop sz (i + 1) (drop_bit 4 number) buffer'))
      else Inr (i, number, buffer))"
  by pat_completeness auto
termination
  by (relation "measure (\<lambda>(sz, i, number, buffer). unat number)")
     (auto simp: drop_bit_eq_div unat_div word_less_nat_alt)

definition ultox :: "u64 \<Rightarrow> u8 list option \<Rightarrow> u64 \<Rightarrow> (str_status_t \<times> u8 list option) res" where
  "ultox number buffer sz =
     (case buffer of
        None \<Rightarrow> Inr (STR_ERR_INVALID_ARG, None)
      | Some buf \<Rightarrow>
          if sz < 4 then Inr (STR_ERR_BUFFER_TOO_SMALL, Some buf)
          else
            bindE (arr_set buf 0 0x30) (\<lambda>buf1.
            bindE (arr_set buf1 1 0x78) (\<lambda>buf2.
              if number = 0 then
                bindE (arr_set buf2 2 0x30) (\<lambda>buf3.
                bindE (arr_set buf3 3 0) (\<lambda>buf4.
                  Inr (STR_SUCCESS, Some buf4)))
              else
                bindE (ultox_loop sz 2 number buf2) (\<lambda>(i, number', buf3).
                bindE (arr_set buf3 i 0) (\<lambda>buf4.
                  if number' > 0 then Inr (STR_ERR_BUFFER_TOO_SMALL, Some buf4)
                  else
                    bindE (str_len buf4) (\<lambda>len.
                    bindE (str_reverse (Some buf4) 2 len) (\<lambda>(_, buf5).
                      Inr (STR_SUCCESS, buf5))))))))"

text \<open>
  \<^verbatim>\<open>char\<close> is signed on this target, so both operands of the subtractions below are read by
  \<^term>\<open>sint\<close>; the difference of two characters goes through \<^verbatim>\<open>uint64_t\<close> and back to
  \<^verbatim>\<open>int\<close>.
\<close>

definition char_diff :: "u8 \<Rightarrow> u8 \<Rightarrow> u64" where
  "char_diff a b = word_of_int (sint a - sint b)"

fun str_cmp :: "u8 list \<Rightarrow> u8 list \<Rightarrow> int res" where
  "str_cmp [] bs = Inl OutOfBounds"
| "str_cmp (a # as) [] = Inl OutOfBounds"
| "str_cmp (a # as) (b # bs) =
     (if a \<noteq> 0 \<and> b \<noteq> 0 then
        (let comp = char_diff a b
         in if comp \<noteq> 0 then Inr (to_int comp) else str_cmp as bs)
      else Inr (sint a - sint b))"

function str_ncmp_loop :: "u8 list \<Rightarrow> u8 list \<Rightarrow> u64 \<Rightarrow> u64 \<Rightarrow> u64 \<Rightarrow> int res" where
  "str_ncmp_loop str_a str_b len_a len_b index =
     (if index < len_a \<and> index < len_b then
        bindE (arr_get str_a index) (\<lambda>a.
        bindE (arr_get str_b index) (\<lambda>b.
          let comp = char_diff a b
          in if comp \<noteq> 0 then Inr (to_int comp)
             else str_ncmp_loop str_a str_b len_a len_b (index + 1)))
      else if len_a = len_b then Inr 0
      else if index = len_a then bindE (arr_get str_b index) (\<lambda>b. Inr (- sint b))
      else bindE (arr_get str_a index) (\<lambda>a. Inr (sint a)))"
  by pat_completeness auto
termination
proof (relation "measure (\<lambda>(a, b, len_a, len_b, index). unat len_a - unat index)", goal_cases)
  case 1
  then show ?case by simp
next
  case (2 str_a str_b len_a len_b index)
  then have "unat (index + 1) = Suc (unat index)" and "unat index < unat len_a"
    by (auto simp: unat_Suc_less word_less_nat_alt)
  then show ?case by simp
qed

definition str_ncmp :: "u8 list \<Rightarrow> u8 list \<Rightarrow> u64 \<Rightarrow> u64 \<Rightarrow> int res" where
  "str_ncmp str_a str_b len_a len_b = str_ncmp_loop str_a str_b len_a len_b 0"

function str_ncpy_loop :: "u8 list \<Rightarrow> u8 list \<Rightarrow> u64 \<Rightarrow> u64 \<Rightarrow> u8 list res" where
  "str_ncpy_loop src dest n index =
     (if index < n then
        bindE (arr_get src index) (\<lambda>c.
        bindE (arr_set dest index c) (\<lambda>dest'.
          str_ncpy_loop src dest' n (index + 1)))
      else Inr dest)"
  by pat_completeness auto
termination
proof (relation "measure (\<lambda>(src, dest, n, index). unat n - unat index)", goal_cases)
  case 1
  then show ?case by simp
next
  case (2 src dest n index)
  then have "unat (index + 1) = Suc (unat index)" and "unat index < unat n"
    by (auto simp: unat_Suc_less word_less_nat_alt)
  then show ?case by simp
qed

definition str_ncpy :: "u8 list \<Rightarrow> u8 list \<Rightarrow> u64 \<Rightarrow> (int \<times> u8 list) res" where
  "str_ncpy src dest n = bindE (str_ncpy_loop src dest n 0) (\<lambda>dest'. Inr (to_int n, dest'))"

text \<open>
  Raw memory: a byte for every 64-bit address. A 64-bit store through a pointer writes the eight
  bytes of the value at consecutive addresses, least significant byte first, and a 64-bit load
  reads them back.
\<close>

type_synonym memory = "u64 \<Rightarrow> u8"

definition byte_of :: "u64 \<Rightarrow> nat \<Rightarrow> u8" where
  "byte_of v k = ucast (drop_bit (8 * k) v)"

definition store64 :: "memory \<Rightarrow> u64 \<Rightarrow> u64 \<Rightarrow> memory" where
  "store64 m p v = (\<lambda>a. if a - p < 8 then byte_of v (unat (a - p)) else m a)"

definition load64 :: "memory \<Rightarrow> u64 \<Rightarrow> u64" where
  "load64 m p =
     ucast (m p) OR push_bit 8 (ucast (m (p + 1))) OR push_bit 16 (ucast (m (p + 2)))
     OR push_bit 24 (ucast (m (p + 3))) OR push_bit 32 (ucast (m (p + 4)))
     OR push_bit 40 (ucast (m (p + 5))) OR push_bit 48 (ucast (m (p + 6)))
     OR push_bit 56 (ucast (m (p + 7)))"

function memset_head :: "memory \<Rightarrow> u8 \<Rightarrow> u64 \<Rightarrow> u64 \<Rightarrow> memory \<times> u64 \<times> u64" where
  "memset_head m pattern ptr8 sz =
     (if ptr8 AND 0x7 \<noteq> 0 \<and> 0 < sz then memset_head (m(ptr8 := pattern)) pattern (ptr8 + 1) (sz - 1)
      else (m, ptr8, sz))"
  by pat_completeness auto
termination
  by (relation "measure (\<lambda>(m, pattern, ptr8, sz). unat sz)") (auto simp: unat_pred u64_zero_iff word_less_nat_alt)

definition pattern64 :: "u8 \<Rightarrow> u64" where
  "pattern64 pattern =
     (let p0 = ucast pattern;
          p1 = p0 OR push_bit 8 p0;
          p2 = p1 OR push_bit 16 p1
      in p2 OR push_bit 32 p2)"

function memset_words :: "memory \<Rightarrow> u64 \<Rightarrow> u64 \<Rightarrow> u64 \<Rightarrow> memory \<times> u64 \<times> u64" where
  "memset_words m v ptr64 sz =
     (if sz \<ge> 8 then memset_words (store64 m ptr64 v) v (ptr64 + 8) (sz - 8)
      else (m, ptr64, sz))"
  by pat_completeness auto
termination
proof (relation "measure (\<lambda>(m, v, ptr64, sz). unat sz)", goal_cases)
  case 1
  then show ?case by simp
next
  case (2 m v ptr64 sz)
  then have "unat (sz - 8) < unat sz" by unat_arith
  then show ?case by simp
qed

function memset_tail :: "memory \<Rightarrow> u8 \<Rightarrow> u64 \<Rightarrow> u64 \<Rightarrow> memory" where
  "memset_tail m pattern ptr8 sz =
     (if sz > 0 then memset_tail (m(ptr8 := pattern)) pattern (ptr8 + 1) (sz - 1) else m)"
  by pat_completeness auto
termination
  by (relation "measure (\<lambda>(m, pattern, ptr8, sz). unat sz)") (auto simp: unat_pred u64_zero_iff word_less_nat_alt)

definition memset :: "memory \<Rightarrow> u64 \<Rightarrow> u8 \<Rightarrow> u64 \<Rightarrow> u64 \<times> memory" where
  "memset m start pattern sz =
     (let (m1, ptr8, sz1) = memset_head m pattern start sz;
          (m2, ptr64, sz2) = memset_words m1 (pattern64 pattern) ptr8 sz1
      in (start, memset_tail m2 pattern ptr64 sz2))"

text \<open>
  The \<^verbatim>\<open>volatile\<close> variant has the same three loops; the qualifier forbids the compiler to
  merge or drop the accesses, which does not change the memory they leave.
\<close>

definition volatile_memset :: "memory \<Rightarrow> u64 \<Rightarrow> u8 \<Rightarrow> u64 \<Rightarrow> u64 \<times> memory" where
  "volatile_memset m start pattern sz =
     (let (m1, ptr8, sz1) = memset_head m pattern start sz;
          (m2, ptr64, sz2) = memset_words m1 (pattern64 pattern) ptr8 sz1
      in (start, memset_tail m2 pattern ptr64 sz2))"

text \<open>
  \<^verbatim>\<open>memcpy\<close> initialises its source cursor from itself (line 279), so the cursor starts at an
  indeterminate value. The model takes that value as the argument \<open>src8\<close>; the parameter
  \<open>src\<close> of the C function is kept and, as in the code, never read.
\<close>

function memcpy_head :: "memory \<Rightarrow> u64 \<Rightarrow> u64 \<Rightarrow> u64 \<Rightarrow> memory \<times> u64 \<times> u64 \<times> u64" where
  "memcpy_head m dest8 src8 sz =
     (if dest8 AND 0x7 \<noteq> 0 \<and> 0 < sz
      then memcpy_head (m(dest8 := m src8)) (dest8 + 1) (src8 + 1) (sz - 1)
      else (m, dest8, src8, sz))"
  by pat_completeness auto
termination
  by (relation "measure (\<lambda>(m, dest8, src8, sz). unat sz)") (auto simp: unat_pred u64_zero_iff word_less_nat_alt)

function memcpy_words :: "memory \<Rightarrow> u64 \<Rightarrow> u64 \<Rightarrow> u64 \<Rightarrow> memory \<times> u64 \<times> u64 \<times> u64" where
  "memcpy_words m dest64 src64 sz =
     (if sz \<ge> 8
      then memcpy_words (store64 m dest64 (load64 m src64)) (dest64 + 8) (src64 + 8) (sz - 8)
      else (m, dest64, src64, sz))"
  by pat_completeness auto
termination
proof (relation "measure (\<lambda>(m, dest64, src64, sz). unat sz)", goal_cases)
  case 1
  then show ?case by simp
next
  case (2 m dest64 src64 sz)
  then have "unat (sz - 8) < unat sz" by unat_arith
  then show ?case by simp
qed

function memcpy_tail :: "memory \<Rightarrow> u64 \<Rightarrow> u64 \<Rightarrow> u64 \<Rightarrow> memory" where
  "memcpy_tail m dest8 src8 sz =
     (if sz > 0 then memcpy_tail (m(dest8 := m src8)) (dest8 + 1) (src8 + 1) (sz - 1) else m)"
  by pat_completeness auto
termination
  by (relation "measure (\<lambda>(m, dest8, src8, sz). unat sz)") (auto simp: unat_pred u64_zero_iff word_less_nat_alt)

definition memcpy :: "u64 \<Rightarrow> memory \<Rightarrow> u64 \<Rightarrow> u64 \<Rightarrow> u64 \<Rightarrow> u64 \<times> memory" where
  "memcpy src8 m dest src sz =
     (let (m1, dest1, src1, sz1) = memcpy_head m dest src8 sz;
          (m2, dest2, src2, sz2) = memcpy_words m1 dest1 src1 sz1
      in (dest, memcpy_tail m2 dest2 src2 sz2))"

declare memset_head.simps [simp del] memset_words.simps [simp del] memset_tail.simps [simp del]
  memcpy_head.simps [simp del] memcpy_words.simps [simp del] memcpy_tail.simps [simp del]
declare str_reverse_loop.simps [simp del] ultoa_loop.simps [simp del] ultox_loop.simps [simp del]
  str_ncmp_loop.simps [simp del] str_ncpy_loop.simps [simp del]

section \<open>Memory routines\<close>

definition fill :: "memory \<Rightarrow> u64 \<Rightarrow> u64 \<Rightarrow> u8 \<Rightarrow> memory" where
  "fill m p n v = (\<lambda>a. if a - p < n then v else m a)"

lemma region_split:
  "(k :: u64) \<le> n \<Longrightarrow> a - p < n \<longleftrightarrow> a - p < k \<or> a - (p + k) < n - k"
proof -
  assume k: "k \<le> n"
  define x where "x = a - p"
  have "a - (p + k) = x - k" by (simp add: x_def diff_diff_eq)
  moreover have "x < n \<longleftrightarrow> x < k \<or> x - k < n - k"
    using k by unat_arith
  ultimately show ?thesis by (simp only: x_def)
qed

lemma fill_fill: "k \<le> n \<Longrightarrow> fill (fill m p k v) (p + k) (n - k) v = fill m p n v"
  by (auto simp: fill_def fun_eq_iff region_split [of k n])

lemma fill_0 [simp]: "fill m p 0 v = m"
  by (simp add: fill_def)

lemma fill_1: "m(p := v) = fill m p 1 v"
  by (auto simp: fill_def fun_eq_iff word_less_1)

lemma byte_of_pattern64: "k < 8 \<Longrightarrow> byte_of (pattern64 v) k = v"
proof -
  assume "k < 8"
  then have "k \<in> {0, 1, 2, 3, 4, 5, 6, 7}" by auto
  then show ?thesis
    by (auto simp: byte_of_def pattern64_def Let_def bit_simps bit_u8_ge intro!: bit_word_eqI)
qed

lemma store64_pattern64: "store64 m p (pattern64 v) = fill m p 8 v"
  by (auto simp: store64_def fill_def fun_eq_iff word_less_nat_alt intro!: byte_of_pattern64)

lemma memset_head_fill:
  "memset_head m v p n = (m', p', n') \<Longrightarrow> \<exists>k\<le>n. p' = p + k \<and> n' = n - k \<and> m' = fill m p k v"
proof (induction m v p n rule: memset_head.induct)
  case (1 m v p n)
  show ?case
  proof (cases "p AND 7 \<noteq> 0 \<and> 0 < n")
    case True
    with "1.prems" have "memset_head (m(p := v)) v (p + 1) (n - 1) = (m', p', n')"
      by (simp add: memset_head.simps [of m v p n])
    with True "1.IH" obtain k where k: "k \<le> n - 1" "p' = p + 1 + k" "n' = n - 1 - k"
      and m': "m' = fill (m(p := v)) (p + 1) k v"
      by blast
    have le: "1 + k \<le> n" "1 \<le> 1 + k"
      using k(1) True by unat_arith+
    have "m' = fill m p (1 + k) v"
      using fill_fill [OF le(2), of m p v] m' by (simp add: fill_1)
    with k le(1) show ?thesis by (intro exI [of _ "1 + k"]) (simp add: algebra_simps)
  next
    case False
    with "1.prems" show ?thesis
      by (intro exI [of _ 0]) (auto simp: memset_head.simps [of m v p n])
  qed
qed

lemma memset_words_fill:
  "memset_words m (pattern64 v) p n = (m', p', n') \<Longrightarrow>
     \<exists>k\<le>n. p' = p + k \<and> n' = n - k \<and> m' = fill m p k v"
proof (induction m "pattern64 v" p n rule: memset_words.induct)
  case (1 m p n)
  show ?case
  proof (cases "8 \<le> n")
    case True
    with "1.prems" have "memset_words (fill m p 8 v) (pattern64 v) (p + 8) (n - 8) = (m', p', n')"
      by (simp add: memset_words.simps [of m "pattern64 v" p n] store64_pattern64)
    with True "1.hyps" obtain k where k: "k \<le> n - 8" "p' = p + 8 + k" "n' = n - 8 - k"
      and m': "m' = fill (fill m p 8 v) (p + 8) k v"
      by (auto simp: store64_pattern64)
    have le: "8 + k \<le> n" "8 \<le> 8 + k"
      using k(1) True by unat_arith+
    have "m' = fill m p (8 + k) v"
      using fill_fill [OF le(2), of m p v] m' by simp
    with k le(1) show ?thesis by (intro exI [of _ "8 + k"]) (simp add: algebra_simps)
  next
    case False
    with "1.prems" show ?thesis
      by (intro exI [of _ 0]) (auto simp: memset_words.simps [of m "pattern64 v" p n])
  qed
qed

lemma memset_tail_fill: "memset_tail m v p n = fill m p n v"
proof (induction m v p n rule: memset_tail.induct)
  case (1 m v p n)
  show ?case
  proof (cases "0 < n")
    case True
    then have le: "1 \<le> n" by unat_arith
    from True "1.IH" show ?thesis
      using fill_fill [OF le, of m p v]
      by (simp add: memset_tail.simps [of m v p n] fill_1)
  next
    case False
    then have "n = 0" by unat_arith
    then show ?thesis by (simp add: memset_tail.simps [of m v p 0])
  qed
qed

lemma memset_eq_fill: "memset m start v n = (start, fill m start n v)"
proof -
  obtain m1 p1 n1 where h: "memset_head m v start n = (m1, p1, n1)"
    by (cases "memset_head m v start n")
  then obtain k where k: "k \<le> n" "p1 = start + k" "n1 = n - k" "m1 = fill m start k v"
    using memset_head_fill by blast
  obtain m2 p2 n2 where w: "memset_words m1 (pattern64 v) p1 n1 = (m2, p2, n2)"
    by (cases "memset_words m1 (pattern64 v) p1 n1")
  then obtain j where j: "j \<le> n1" "p2 = p1 + j" "n2 = n1 - j" "m2 = fill m1 p1 j v"
    using memset_words_fill by blast
  have "fill m2 p2 n2 v = fill m1 p1 n1 v"
    using fill_fill [OF j(1), of m1 p1 v] j by simp
  also have "\<dots> = fill m start n v"
    using fill_fill [OF k(1), of m start v] k by simp
  finally show ?thesis
    by (simp add: memset_def h w memset_tail_fill)
qed

lemma volatile_memset_eq_fill: "volatile_memset m start v n = (start, fill m start n v)"
  using memset_eq_fill by (simp add: memset_def volatile_memset_def)

definition copied :: "memory \<Rightarrow> u64 \<Rightarrow> u64 \<Rightarrow> u64 \<Rightarrow> memory" where
  "copied m p q n = (\<lambda>a. if a - p < n then m (q + (a - p)) else m a)"

definition disjoint_regions :: "u64 \<Rightarrow> u64 \<Rightarrow> u64 \<Rightarrow> bool" where
  "disjoint_regions p q n \<longleftrightarrow> (\<forall>i<n. \<not> q + i - p < n)"

lemma disjoint_regions_mono:
  "disjoint_regions p q n \<Longrightarrow> k \<le> n \<Longrightarrow> disjoint_regions p q k"
  by (meson disjoint_regions_def order_less_le_trans)

lemma disjoint_regions_shift:
  assumes "disjoint_regions p q n" and "k \<le> n"
  shows "disjoint_regions (p + k) (q + k) (n - k)"
  unfolding disjoint_regions_def
proof (intro allI impI notI)
  fix i assume i: "i < n - k" and c: "q + k + i - (p + k) < n - k"
  have "q + i - p < n - k" using c by (simp add: algebra_simps)
  moreover have "i < n" "n - k \<le> n" using i assms(2) by unat_arith+
  ultimately show False
    using assms(1) by (auto simp: disjoint_regions_def)
qed

lemma copied_copied:
  assumes "disjoint_regions p q n" and "k \<le> n"
  shows "copied (copied m p q k) (p + k) (q + k) (n - k) = copied m p q n"
proof
  fix a
  show "copied (copied m p q k) (p + k) (q + k) (n - k) a = copied m p q n a"
  proof (cases "a - (p + k) < n - k")
    case True
    define i where "i = a - (p + k)"
    have i: "i < n - k" using True by (simp add: i_def)
    have "k + i < n" using i assms(2) by unat_arith
    note i = i this
    have "\<not> q + (k + i) - p < k"
      using assms i by (auto simp: disjoint_regions_def dest: order_less_le_trans)
    moreover have "q + k + i - p = q + (k + i) - p" "q + (a - p) = q + k + i"
      by (simp_all add: i_def algebra_simps)
    ultimately show ?thesis
      using True region_split [OF assms(2), of a p]
      by (simp add: copied_def i_def [symmetric] add.assoc)
  next
    case False
    then show ?thesis
      using region_split [OF assms(2), of a p] by (simp add: copied_def)
  qed
qed

lemma copied_0 [simp]: "copied m p q 0 = m"
  by (simp add: copied_def)

lemma copied_1: "m(p := m q) = copied m p q 1"
  by (auto simp: copied_def fun_eq_iff word_less_1)

lemma byte_of_load64: "k < 8 \<Longrightarrow> byte_of (load64 m p) k = m (p + of_nat k)"
proof -
  assume "k < 8"
  then have "k \<in> {0, 1, 2, 3, 4, 5, 6, 7}" by auto
  then show ?thesis
    by (auto simp: byte_of_def load64_def bit_simps bit_u8_ge intro!: bit_word_eqI)
qed

lemma store64_load64: "store64 m p (load64 m q) = copied m p q 8"
  by (auto simp: store64_def copied_def fun_eq_iff word_less_nat_alt byte_of_load64)

lemma memcpy_head_copied:
  "memcpy_head m p q n = (m', p', q', n') \<Longrightarrow> disjoint_regions p q n \<Longrightarrow>
     \<exists>k\<le>n. p' = p + k \<and> q' = q + k \<and> n' = n - k \<and> m' = copied m p q k"
proof (induction m p q n rule: memcpy_head.induct)
  case (1 m p q n)
  show ?case
  proof (cases "p AND 7 \<noteq> 0 \<and> 0 < n")
    case True
    then have le1: "1 \<le> n" by unat_arith
    note dis = disjoint_regions_shift [OF "1.prems"(2) le1]
    from True "1.prems" have "memcpy_head (m(p := m q)) (p + 1) (q + 1) (n - 1) = (m', p', q', n')"
      by (simp add: memcpy_head.simps [of m p q n])
    with True "1.IH" dis obtain k where k: "k \<le> n - 1" "p' = p + 1 + k" "q' = q + 1 + k"
      "n' = n - 1 - k" and m': "m' = copied (m(p := m q)) (p + 1) (q + 1) k"
      by blast
    have le: "1 + k \<le> n" "1 \<le> 1 + k"
      using k(1) le1 by unat_arith+
    have "disjoint_regions p q (1 + k)"
      using "1.prems"(2) le(1) by (rule disjoint_regions_mono)
    from copied_copied [OF this le(2), of m] have "m' = copied m p q (1 + k)"
      using m' by (simp add: copied_1)
    with k le(1) show ?thesis by (intro exI [of _ "1 + k"]) (simp add: algebra_simps)
  next
    case False
    with "1.prems" show ?thesis
      by (intro exI [of _ 0]) (auto simp: memcpy_head.simps [of m p q n])
  qed
qed

lemma memcpy_words_copied:
  "memcpy_words m p q n = (m', p', q', n') \<Longrightarrow> disjoint_regions p q n \<Longrightarrow>
     \<exists>k\<le>n. p' = p + k \<and> q' = q + k \<and> n' = n - k \<and> m' = copied m p q k"
proof (induction m p q n rule: memcpy_words.induct)
  case (1 m p q n)
  show ?case
  proof (cases "8 \<le> n")
    case True
    note dis = disjoint_regions_shift [OF "1.prems"(2) True]
    from True "1.prems"
    have "memcpy_words (copied m p q 8) (p + 8) (q + 8) (n - 8) = (m', p', q', n')"
      by (simp add: memcpy_words.simps [of m p q n] store64_load64)
    with True "1.IH" dis obtain k where k: "k \<le> n - 8" "p' = p + 8 + k" "q' = q + 8 + k"
      "n' = n - 8 - k" and m': "m' = copied (copied m p q 8) (p + 8) (q + 8) k"
      by (auto simp: store64_load64)
    have le: "8 + k \<le> n" "8 \<le> 8 + k"
      using k(1) True by unat_arith+
    have "disjoint_regions p q (8 + k)"
      using "1.prems"(2) le(1) by (rule disjoint_regions_mono)
    from copied_copied [OF this le(2), of m] have "m' = copied m p q (8 + k)"
      using m' by simp
    with k le(1) show ?thesis by (intro exI [of _ "8 + k"]) (simp add: algebra_simps)
  next
    case False
    with "1.prems" show ?thesis
      by (intro exI [of _ 0]) (auto simp: memcpy_words.simps [of m p q n])
  qed
qed

lemma memcpy_tail_copied:
  "disjoint_regions p q n \<Longrightarrow> memcpy_tail m p q n = copied m p q n"
proof (induction m p q n rule: memcpy_tail.induct)
  case (1 m p q n)
  show ?case
  proof (cases "0 < n")
    case True
    then have le: "1 \<le> n" by unat_arith
    from True "1.IH" disjoint_regions_shift [OF "1.prems" le] show ?thesis
      using copied_copied [OF "1.prems" le, of m]
      by (simp add: memcpy_tail.simps [of m p q n] copied_1)
  next
    case False
    then have "n = 0" by unat_arith
    then show ?thesis by (simp add: memcpy_tail.simps [of m p q 0])
  qed
qed

lemma memcpy_eq_copied:
  assumes "disjoint_regions dest src8 n"
  shows "memcpy src8 m dest src n = (dest, copied m dest src8 n)"
proof -
  obtain m1 p1 q1 n1 where h: "memcpy_head m dest src8 n = (m1, p1, q1, n1)"
    by (cases "memcpy_head m dest src8 n")
  then obtain k where k: "k \<le> n" "p1 = dest + k" "q1 = src8 + k" "n1 = n - k"
    "m1 = copied m dest src8 k"
    using memcpy_head_copied [OF _ assms] by blast
  have dis1: "disjoint_regions p1 q1 n1"
    using disjoint_regions_shift [OF assms k(1)] k by simp
  obtain m2 p2 q2 n2 where w: "memcpy_words m1 p1 q1 n1 = (m2, p2, q2, n2)"
    by (cases "memcpy_words m1 p1 q1 n1")
  then obtain j where j: "j \<le> n1" "p2 = p1 + j" "q2 = q1 + j" "n2 = n1 - j"
    "m2 = copied m1 p1 q1 j"
    using memcpy_words_copied [OF _ dis1] by blast
  have "memcpy_tail m2 p2 q2 n2 = copied m2 p2 q2 n2"
    using disjoint_regions_shift [OF dis1 j(1)] j by (simp add: memcpy_tail_copied)
  also have "\<dots> = copied m1 p1 q1 n1"
    using copied_copied [OF dis1 j(1), of m1] j by simp
  also have "\<dots> = copied m dest src8 n"
    using copied_copied [OF assms k(1), of m] k by simp
  finally show ?thesis
    by (simp add: memcpy_def h w)
qed

section \<open>Strings in buffers\<close>

text \<open>The string a buffer holds: its bytes up to the first null byte.\<close>

definition c_str :: "u8 list \<Rightarrow> u8 list" where
  "c_str buf = takeWhile (\<lambda>c. c \<noteq> 0) buf"

lemma c_str_append [simp]: "0 \<notin> set xs \<Longrightarrow> c_str (xs @ 0 # ys) = xs"
  by (induction xs) (auto simp: c_str_def)

lemma str_len_loop_append:
  "0 \<notin> set xs \<Longrightarrow> str_len_loop (xs @ 0 # ys) n = Inr (n + of_nat (length xs) + 1)"
  by (induction xs arbitrary: n) (auto simp: algebra_simps)

lemma str_len_append: "0 \<notin> set xs \<Longrightarrow> str_len (xs @ 0 # ys) = Inr (of_nat (length xs))"
  by (simp add: str_len_def str_len_loop_append)

lemma c_str_decomp:
  assumes "0 \<in> set buf"
  obtains ys where "buf = c_str buf @ 0 # ys" and "0 \<notin> set (c_str buf)"
proof -
  from assms obtain xs ys where "buf = xs @ 0 # ys" and "0 \<notin> set xs"
    by (meson split_list_first)
  then show thesis using that by simp
qed

lemma str_len_c_str: "0 \<in> set buf \<Longrightarrow> str_len buf = Inr (of_nat (length (c_str buf)))"
  by (metis c_str_decomp str_len_append)

lemma str_reverse_loop_nth:
  assumes "unat r < length xs"
  shows "\<exists>ys. str_reverse_loop xs l r = Inr ys \<and> length ys = length xs \<and>
           (\<forall>k<length xs. ys ! k = (if unat l \<le> k \<and> k \<le> unat r then xs ! (unat l + unat r - k) else xs ! k))"
  using assms
proof (induction xs l r rule: str_reverse_loop.induct)
  case (1 xs l r)
  consider (lt) "l < r" | (eq) "l = r" | (gt) "r < l" by fastforce
  then show ?case
  proof cases
    case lt
    then have u: "unat l < unat r" "unat (l + 1) = Suc (unat l)" "unat (r - 1) = unat r - 1"
      by unat_arith+
    let ?xs2 = "xs[unat l := xs ! unat r, unat r := xs ! unat l]"
    have step: "str_reverse_loop xs l r = str_reverse_loop ?xs2 (l + 1) (r - 1)"
      using lt u "1.prems" by (subst str_reverse_loop.simps) auto
    have "unat (r - 1) < length ?xs2" using u "1.prems" by simp
    then have "\<exists>ys. str_reverse_loop ?xs2 (l + 1) (r - 1) = Inr ys \<and> length ys = length ?xs2 \<and>
      (\<forall>k<length ?xs2. ys ! k = (if unat (l + 1) \<le> k \<and> k \<le> unat (r - 1)
          then ?xs2 ! (unat (l + 1) + unat (r - 1) - k) else ?xs2 ! k))"
      using lt u "1.prems"
      by (intro "1.IH" [of "xs ! unat l" "xs ! unat r" "xs[unat l := xs ! unat r]"]) auto
    then obtain ys where ys: "str_reverse_loop ?xs2 (l + 1) (r - 1) = Inr ys"
      "length ys = length xs"
      "\<And>k. k < length xs \<Longrightarrow> ys ! k = (if Suc (unat l) \<le> k \<and> k \<le> unat r - 1
          then ?xs2 ! (Suc (unat l) + (unat r - 1) - k) else ?xs2 ! k)"
      unfolding u by auto
    have "ys ! k = (if unat l \<le> k \<and> k \<le> unat r then xs ! (unat l + unat r - k) else xs ! k)"
      if "k < length xs" for k
      using that u "1.prems" by (auto simp: ys(3) nth_list_update)
    with ys step show ?thesis by auto
  next
    case eq
    then show ?thesis by (subst str_reverse_loop.simps) auto
  next
    case gt
    then have "\<not> l \<le> r" "unat r < unat l" by unat_arith+
    then show ?thesis by (subst str_reverse_loop.simps) auto
  qed
qed

lemma str_reverse_loop_segment:
  assumes "ys \<noteq> []" and "length xs + length ys < 2 ^ 64"
  shows "str_reverse_loop (xs @ ys @ zs) (of_nat (length xs)) (of_nat (length xs + length ys) - 1)
           = Inr (xs @ rev ys @ zs)"
proof -
  let ?l = "of_nat (length xs) :: u64"
  let ?r = "of_nat (length xs + length ys) - 1 :: u64"
  have ne: "(of_nat (length xs + length ys) :: u64) \<noteq> 0"
    using assms by (metis add_is_0 length_0_conv unat_0 unat_of_nat_small)
  have l: "unat ?l = length xs" using assms by simp
  have r: "unat ?r = length xs + length ys - 1"
    using assms unat_pred [OF ne] by (simp del: of_nat_add)
  have pos: "0 < length ys" using assms(1) by simp
  have "unat ?r < length (xs @ ys @ zs)"
    unfolding r length_append using pos by arith
  from str_reverse_loop_nth [OF this, of ?l] obtain out where
    out: "str_reverse_loop (xs @ ys @ zs) ?l ?r = Inr out"
      "length out = length (xs @ ys @ zs)"
      "\<forall>k<length (xs @ ys @ zs). out ! k =
         (if unat ?l \<le> k \<and> k \<le> unat ?r then (xs @ ys @ zs) ! (unat ?l + unat ?r - k)
          else (xs @ ys @ zs) ! k)"
    by blast
  have "out = xs @ rev ys @ zs"
  proof (rule nth_equalityI)
    show "length out = length (xs @ rev ys @ zs)" using out(2) by simp
  next
    fix k assume "k < length out"
    moreover obtain m where m: "length ys = Suc m" using pos by (cases ys) auto
    ultimately show "out ! k = (xs @ rev ys @ zs) ! k"
      using out(2,3) unfolding l r by (auto simp: nth_append rev_nth m add.commute)
  qed
  with out(1) show ?thesis by simp
qed

section \<open>Number conversions\<close>

text \<open>The digits of a number, least significant first and most significant first.\<close>

fun rdigits :: "nat \<Rightarrow> nat \<Rightarrow> nat list" where
  "rdigits b n = (if n = 0 \<or> b < 2 then [] else n mod b # rdigits b (n div b))"

declare rdigits.simps [simp del]

definition digits :: "nat \<Rightarrow> nat \<Rightarrow> nat list" where
  "digits b n = (if n = 0 then [0] else rev (rdigits b n))"

definition dec_char :: "nat \<Rightarrow> u8" where
  "dec_char d = of_nat (0x30 + d)"

definition hex_char :: "nat \<Rightarrow> u8" where
  "hex_char d = hex_chars ! d"

lemma rdigits_less: "2 \<le> b \<Longrightarrow> d \<in> set (rdigits b n) \<Longrightarrow> d < b"
proof (induction b n rule: rdigits.induct)
  case (1 b n)
  then show ?case
    by (subst (asm) (2) rdigits.simps) (auto split: if_splits)
qed

lemma rdigits_0 [simp]: "rdigits b 0 = []"
  by (simp add: rdigits.simps)

lemma rdigits_pos: "2 \<le> b \<Longrightarrow> 0 < n \<Longrightarrow> rdigits b n = n mod b # rdigits b (n div b)"
  by (subst rdigits.simps) simp

lemma rdigits_eq_Nil [simp]: "2 \<le> b \<Longrightarrow> rdigits b n = [] \<longleftrightarrow> n = 0"
  by (subst rdigits.simps) simp

lemma length_rdigits_le:
  assumes "2 \<le> b"
  shows "length (rdigits b n) \<le> k \<longleftrightarrow> n < b ^ k"
proof (induction k arbitrary: n)
  case 0
  then show ?case using assms by simp
next
  case (Suc k)
  show ?case
  proof (cases "n = 0")
    case True
    then show ?thesis using assms by simp
  next
    case False
    then have "length (rdigits b n) \<le> Suc k \<longleftrightarrow> n div b < b ^ k"
      using assms Suc by (simp add: rdigits_pos)
    also have "\<dots> \<longleftrightarrow> n < b ^ Suc k"
      using assms by (simp add: div_less_iff_less_mult mult.commute)
    finally show ?thesis .
  qed
qed

lemma foldr_rdigits: "2 \<le> b \<Longrightarrow> foldr (\<lambda>d v. b * v + d) (rdigits b n) 0 = n"
proof (induction b n rule: rdigits.induct)
  case (1 b n)
  show ?case
  proof (cases "n = 0")
    case False
    with "1.prems" have "rdigits b n = n mod b # rdigits b (n div b)"
      by (simp add: rdigits_pos)
    with False 1 show ?thesis by simp
  qed simp
qed

lemma foldl_digits: "2 \<le> b \<Longrightarrow> foldl (\<lambda>v d. b * v + d) 0 (digits b n) = n"
  by (simp add: digits_def foldl_conv_foldr foldr_rdigits)

lemma digits_less: "2 \<le> b \<Longrightarrow> d \<in> set (digits b n) \<Longrightarrow> d < b"
  by (auto simp: digits_def rdigits_less split: if_splits)

lemma length_digits_le: "2 \<le> b \<Longrightarrow> 0 < k \<Longrightarrow> length (digits b n) \<le> k \<longleftrightarrow> n < b ^ k"
  by (auto simp: digits_def length_rdigits_le)

text \<open>
  Both conversion loops write the digits of the number in the buffer from index \<open>i\<close> on until the
  number is used up or the limit is reached.
\<close>

fun digit_loop :: "nat \<Rightarrow> (nat \<Rightarrow> u8) \<Rightarrow> nat \<Rightarrow> nat \<Rightarrow> nat \<Rightarrow> u8 list \<Rightarrow> nat \<times> nat \<times> u8 list" where
  "digit_loop b enc lim i n buf =
     (if i < lim \<and> 0 < n \<and> 2 \<le> b
      then digit_loop b enc lim (Suc i) (n div b) (buf[i := enc (n mod b)])
      else (i, n, buf))"

declare digit_loop.simps [simp del]

lemma digit_loop_eq:
  assumes "2 \<le> b" and "length pre = i" and "i \<le> lim" and "lim \<le> i + length buf"
    and "k = min (length (rdigits b n)) (lim - i)"
  shows "digit_loop b enc lim i n (pre @ buf) =
           (i + k, n div b ^ k, pre @ map enc (take k (rdigits b n)) @ drop k buf)"
  using assms
proof (induction "lim - i" arbitrary: pre i n buf k)
  case 0
  then show ?case by (subst digit_loop.simps) auto
next
  case (Suc d)
  show ?case
  proof (cases "n = 0")
    case True
    then show ?thesis using Suc.prems by (subst digit_loop.simps) auto
  next
    case False
    from Suc obtain c cs where buf: "buf = c # cs" by (cases buf) auto
    let ?k = "min (length (rdigits b (n div b))) (lim - Suc i)"
    have k: "k = Suc ?k"
      using Suc False by (auto simp: rdigits_pos)
    have "digit_loop b enc lim i n (pre @ buf) =
        digit_loop b enc lim (Suc i) (n div b) ((pre @ [enc (n mod b)]) @ cs)"
      using Suc False buf by (subst digit_loop.simps) (auto simp: list_update_append)
    also have "\<dots> = (Suc i + ?k, n div b div b ^ ?k,
        (pre @ [enc (n mod b)]) @ map enc (take ?k (rdigits b (n div b))) @ drop ?k cs)"
      using Suc.prems Suc.hyps(2) buf by (intro Suc.hyps(1)) auto
    finally show ?thesis
      using k False Suc.prems buf by (simp add: rdigits_pos div_mult2_eq)
  qed
qed

lemma ultoa_loop_eq:
  assumes "unat sz \<le> length buf" and "sz \<noteq> 0"
  shows "ultoa_loop sz i n buf =
           (case digit_loop 10 dec_char (unat sz - 1) (unat i) (unat n) buf of
              (i', n', buf') \<Rightarrow> Inr (of_nat i', of_nat n', buf'))"
  using assms
proof (induction sz i n buf rule: ultoa_loop.induct)
  case (1 sz i n buf)
  have szm: "unat (sz - 1) = unat sz - 1" using 1 by (simp add: unat_pred)
  show ?case
  proof (cases "i < sz - 1 \<and> n > 0")
    case True
    then have i: "unat i < unat sz - 1" "unat (i + 1) = Suc (unat i)" "0 < unat n"
      using szm unat_Suc_less [of i "sz - 1"] by (auto simp: word_less_nat_alt)
    have enc: "ucast (0x30 + n mod 10) = dec_char (unat n mod 10)"
    proof -
      have "unat (0x30 + n mod 10) = 0x30 + unat n mod 10"
        by (subst unat_add_small) (simp_all add: unat_mod)
      then show ?thesis
        unfolding dec_char_def by (metis of_nat_unat)
    qed
    let ?buf = "buf[unat i := dec_char (unat n mod 10)]"
    have set: "arr_set buf i (ucast (0x30 + n mod 10)) = Inr ?buf"
      using i "1.prems" enc by simp
    have "ultoa_loop sz i n buf = ultoa_loop sz (i + 1) (n div 10) ?buf"
      using True by (subst ultoa_loop.simps) (simp add: set)
    also have "\<dots> = (case digit_loop 10 dec_char (unat sz - 1) (unat (i + 1)) (unat (n div 10)) ?buf of
              (i', n', buf') \<Rightarrow> Inr (of_nat i', of_nat n', buf'))"
      using True "1.prems" by (intro "1.IH" [OF _ set]) simp_all
    also have "digit_loop 10 dec_char (unat sz - 1) (unat (i + 1)) (unat (n div 10)) ?buf =
        digit_loop 10 dec_char (unat sz - 1) (unat i) (unat n) buf"
      using i by (subst (2) digit_loop.simps) (simp add: unat_div)
    finally show ?thesis .
  next
    case False
    then have "\<not> (unat i < unat sz - 1 \<and> 0 < unat n)"
      using szm by (auto simp: word_less_nat_alt)
    with False show ?thesis
      by (subst ultoa_loop.simps, subst digit_loop.simps) auto
  qed
qed

lemma ultox_loop_eq:
  assumes "unat sz \<le> length buf" and "sz \<noteq> 0"
  shows "ultox_loop sz i n buf =
           (case digit_loop 16 hex_char (unat sz - 1) (unat i) (unat n) buf of
              (i', n', buf') \<Rightarrow> Inr (of_nat i', of_nat n', buf'))"
  using assms
proof (induction sz i n buf rule: ultox_loop.induct)
  case (1 sz i n buf)
  have szm: "unat (sz - 1) = unat sz - 1" using 1 by (simp add: unat_pred)
  show ?case
  proof (cases "i < sz - 1 \<and> n > 0")
    case True
    then have i: "unat i < unat sz - 1" "unat (i + 1) = Suc (unat i)" "0 < unat n"
      using szm unat_Suc_less [of i "sz - 1"] by (auto simp: word_less_nat_alt)
    let ?buf = "buf[unat i := hex_char (unat n mod 16)]"
    have "unat (n AND 0xF) = unat n mod 16" by (simp add: and_low_bits unat_mod)
    then have get: "arr_get hex_chars (n AND 0xF) = Inr (hex_char (unat n mod 16))"
      by (simp add: arr_get_def hex_chars_def hex_char_def)
    have set: "arr_set buf i (hex_char (unat n mod 16)) = Inr ?buf"
      using i "1.prems" by simp
    have "ultox_loop sz i n buf = ultox_loop sz (i + 1) (drop_bit 4 n) ?buf"
      using True by (subst ultox_loop.simps) (simp add: get set)
    also have "\<dots> = (case digit_loop 16 hex_char (unat sz - 1) (unat (i + 1)) (unat (drop_bit 4 n)) ?buf of
              (i', n', buf') \<Rightarrow> Inr (of_nat i', of_nat n', buf'))"
      using True "1.prems" by (intro "1.IH" [OF _ get set]) simp_all
    also have "digit_loop 16 hex_char (unat sz - 1) (unat (i + 1)) (unat (drop_bit 4 n)) ?buf =
        digit_loop 16 hex_char (unat sz - 1) (unat i) (unat n) buf"
      using i by (subst (2) digit_loop.simps) (simp add: drop_bit_eq_div unat_div)
    finally show ?thesis .
  next
    case False
    then have "\<not> (unat i < unat sz - 1 \<and> 0 < unat n)"
      using szm by (auto simp: word_less_nat_alt)
    with False show ?thesis
      by (subst ultox_loop.simps, subst digit_loop.simps) auto
  qed
qed

lemma unat_dec_char: "d < 10 \<Longrightarrow> unat (dec_char d) = 0x30 + d"
  by (simp add: dec_char_def unat_of_nat take_bit_nat_eq_self del: of_nat_add)

lemma dec_char_nonzero: "d < 10 \<Longrightarrow> dec_char d \<noteq> 0"
  using unat_dec_char [of d] by auto

lemma hex_char_nonzero: "d < 16 \<Longrightarrow> hex_char d \<noteq> 0"
proof -
  assume "d < 16"
  then have "hex_char d \<in> set hex_chars"
    by (simp add: hex_char_def hex_chars_def del: set_simps)
  moreover have "0 \<notin> set hex_chars" by (simp add: hex_chars_def)
  ultimately show ?thesis by metis
qed

text \<open>
  What follows the loop in both conversions: the terminator, the length, the reversal of the
  part written by the loop.
\<close>

lemma reverse_written:
  assumes "0 \<notin> set pre" and "0 \<notin> set ds" and "ds \<noteq> []" and "length pre + length ds < 2 ^ 64"
  shows "bindE (str_len (pre @ ds @ 0 # rest)) (\<lambda>len.
         bindE (str_reverse (Some (pre @ ds @ 0 # rest)) (of_nat (length pre)) len) (\<lambda>(_, buf3).
           Inr (STR_SUCCESS, buf3))) = Inr (STR_SUCCESS, Some (pre @ rev ds @ 0 # rest))"
proof -
  have "str_len ((pre @ ds) @ 0 # rest) = Inr (of_nat (length (pre @ ds)))"
    using assms(1,2) by (intro str_len_append) simp
  then have "str_len (pre @ ds @ 0 # rest) = Inr (of_nat (length pre + length ds))"
    by simp
  then show ?thesis
    using str_reverse_loop_segment [OF assms(3,4), of "0 # rest"]
    by (simp add: str_reverse_def)
qed

lemma write_after:
  "length xs < length buf \<Longrightarrow>
     (xs @ drop (length xs) buf)[length xs := v] = xs @ v # drop (Suc (length xs)) buf"
  by (simp add: list_update_append Cons_nth_drop_Suc [symmetric])

lemma ultoa_ok:
  assumes "2 \<le> unat sz" and "unat sz \<le> length buf"
    and "length (digits 10 (unat n)) < unat sz"
  shows "ultoa n (Some buf) sz =
           Inr (STR_SUCCESS, Some (map dec_char (digits 10 (unat n)) @ 0 #
                  drop (Suc (length (digits 10 (unat n)))) buf))"
proof (cases "n = 0")
  case True
  obtain a b cs where "buf = a # b # cs"
    using assms(1,2) by (cases buf; cases "tl buf") auto
  then show ?thesis
    using True assms by (simp add: ultoa_def digits_def dec_char_def word_less_nat_alt)
next
  case False
  let ?ds = "rdigits 10 (unat n)"
  let ?k = "length ?ds"
  have n: "0 < unat n" using False by (simp add: unat_gt_0)
  have lt: "?k < unat sz" using assms(3) n by (simp add: digits_def)
  have "?k = min ?k (unat sz - Suc 0 - 0)" using lt by simp
  from digit_loop_eq [OF _ _ _ _ this, of "[]" buf dec_char]
  have loop: "digit_loop 10 dec_char (unat sz - Suc 0) 0 (unat n) buf =
      (?k, unat n div 10 ^ ?k, map dec_char ?ds @ drop ?k buf)"
    using assms(2) by simp
  have zero: "unat n div 10 ^ ?k = 0"
    using length_rdigits_le [of 10 "unat n" ?k] by simp
  have k64: "?k < 2 ^ 64"
    using lt less_trans [OF lt unat_less_2p64] by simp
  then have k: "unat (of_nat ?k :: u64) = ?k" by (rule unat_of_nat_small)
  have "sz \<noteq> 0" "\<not> sz < 2" using assms(1) by (auto simp: word_less_nat_alt)
  have upd: "(map dec_char ?ds @ drop ?k buf)[?k := 0] = map dec_char ?ds @ 0 # drop (Suc ?k) buf"
    using write_after [of "map dec_char ?ds" buf 0] lt assms(2) by simp
  have nz: "0 \<notin> set (map dec_char ?ds)"
    using rdigits_less [of 10] dec_char_nonzero by force
  have fin: "bindE (str_len (map dec_char ?ds @ 0 # drop (Suc ?k) buf)) (\<lambda>len.
      bindE (str_reverse (Some (map dec_char ?ds @ 0 # drop (Suc ?k) buf)) 0 len) (\<lambda>(_, buf3).
        Inr (STR_SUCCESS, buf3))) =
      Inr (STR_SUCCESS, Some (rev (map dec_char ?ds) @ 0 # drop (Suc ?k) buf))"
    using reverse_written [of "[]" "map dec_char ?ds" "drop (Suc ?k) buf"] nz n k64
    by simp
  show ?thesis
    using \<open>sz \<noteq> 0\<close> \<open>\<not> sz < 2\<close> False n lt assms(2) zero
    by (simp add: ultoa_def ultoa_loop_eq loop k upd fin digits_def rev_map)
qed

lemma ultoa_small:
  assumes "2 \<le> unat sz" and "unat sz \<le> length buf"
    and "unat sz \<le> length (digits 10 (unat n))"
  shows "ultoa n (Some buf) sz =
           Inr (STR_ERR_BUFFER_TOO_SMALL,
                Some (map dec_char (take (unat sz - 1) (rdigits 10 (unat n))) @ 0 # drop (unat sz) buf))"
proof -
  let ?ds = "rdigits 10 (unat n)"
  let ?k = "unat sz - Suc 0"
  have n: "0 < unat n" and le: "unat sz \<le> length ?ds"
    using assms by (auto simp: digits_def split: if_splits)
  have "?k = min (length ?ds) (unat sz - Suc 0 - 0)" using le by simp
  from digit_loop_eq [OF _ _ _ _ this, of "[]" buf dec_char]
  have loop: "digit_loop 10 dec_char (unat sz - Suc 0) 0 (unat n) buf =
      (?k, unat n div 10 ^ ?k, map dec_char (take ?k ?ds) @ drop ?k buf)"
    using assms(2) by simp
  have "\<not> length ?ds \<le> ?k" using le assms(1) by linarith
  then have "10 ^ ?k \<le> unat n"
    using length_rdigits_le [of 10 "unat n" ?k] by simp
  then have pos: "0 < unat n div 10 ^ ?k" by (simp add: div_greater_zero_iff)
  have "unat n div 10 ^ ?k < 2 ^ 64"
    using le_less_trans [OF div_le_dividend unat_less_2p64] by simp
  with pos have rest: "(of_nat (unat n div 10 ^ ?k) :: u64) \<noteq> 0"
    by (metis unat_0 unat_of_nat_small less_irrefl)
  have k: "unat (of_nat ?k :: u64) = ?k"
    using le_less_trans [OF diff_le_self unat_less_2p64] by (intro unat_of_nat_small) simp
  have "sz \<noteq> 0" "\<not> sz < 2" "n \<noteq> 0" using assms(1) n by (auto simp: word_less_nat_alt)
  have upd: "(map dec_char (take ?k ?ds) @ drop ?k buf)[?k := 0] =
      map dec_char (take ?k ?ds) @ 0 # drop (unat sz) buf"
    using write_after [of "map dec_char (take ?k ?ds)" buf 0] le assms(1,2) by simp
  show ?thesis
    using \<open>sz \<noteq> 0\<close> \<open>\<not> sz < 2\<close> \<open>n \<noteq> 0\<close> le assms(1,2) rest
      unat_pred [OF \<open>sz \<noteq> 0\<close>]
    by (simp add: ultoa_def ultoa_loop_eq loop k upd word_neq_0_conv)
qed

lemma ultox_ok:
  assumes "4 \<le> unat sz" and "unat sz \<le> length buf"
    and "length (digits 16 (unat n)) + 2 < unat sz"
  shows "ultox n (Some buf) sz =
           Inr (STR_SUCCESS, Some ([0x30, 0x78] @ map hex_char (digits 16 (unat n)) @ 0 #
                  drop (Suc (Suc (Suc (length (digits 16 (unat n)))))) buf))"
proof -
  obtain a b c d cs where buf: "buf = a # b # c # d # cs"
    using assms(1,2) by (cases buf; cases "tl buf"; cases "tl (tl buf)"; cases "tl (tl (tl buf))") auto
  have sz: "sz \<noteq> 0" "\<not> sz < 4" using assms(1) by (auto simp: word_less_nat_alt)
  show ?thesis
  proof (cases "n = 0")
    case True
    with buf sz show ?thesis
      by (simp add: ultox_def digits_def hex_char_def hex_chars_def)
  next
    case False
    let ?ds = "rdigits 16 (unat n)"
    let ?k = "length ?ds"
    let ?pre = "[0x30, 0x78] :: u8 list"
    have n: "0 < unat n" using False by (simp add: unat_gt_0)
    have lt: "?k + 2 < unat sz" using assms(3) n by (simp add: digits_def)
    have "?k = min ?k (unat sz - Suc 0 - 2)" using lt by simp
    from digit_loop_eq [OF _ _ _ _ this, of ?pre "c # d # cs" hex_char]
    have loop: "digit_loop 16 hex_char (unat sz - Suc 0) 2 (unat n) (?pre @ c # d # cs) =
        (2 + ?k, unat n div 16 ^ ?k, ?pre @ map hex_char ?ds @ drop ?k (c # d # cs))"
      using assms(1,2) buf by simp
    have zero: "unat n div 16 ^ ?k = 0"
      using length_rdigits_le [of 16 "unat n" ?k] by simp
    have k64: "2 + ?k < 2 ^ 64"
      using less_trans [OF lt unat_less_2p64] by simp
    then have k: "unat (of_nat (2 + ?k) :: u64) = 2 + ?k" by (rule unat_of_nat_small)
    have upd: "(?pre @ map hex_char ?ds @ drop ?k (c # d # cs))[2 + ?k := 0] =
        ?pre @ map hex_char ?ds @ 0 # drop (Suc (Suc (Suc ?k))) buf"
      using write_after [of "map hex_char ?ds" "c # d # cs" 0] lt assms(2) buf by simp
    have nz: "0 \<notin> set (map hex_char ?ds)"
      using rdigits_less [of 16] hex_char_nonzero by force
    have fin: "bindE (str_len (?pre @ map hex_char ?ds @ 0 # drop (Suc (Suc (Suc ?k))) buf)) (\<lambda>len.
        bindE (str_reverse (Some (?pre @ map hex_char ?ds @ 0 # drop (Suc (Suc (Suc ?k))) buf)) 2 len) (\<lambda>(_, buf3).
          Inr (STR_SUCCESS, buf3))) =
        Inr (STR_SUCCESS, Some (?pre @ rev (map hex_char ?ds) @ 0 # drop (Suc (Suc (Suc ?k))) buf))"
      using reverse_written [of ?pre "map hex_char ?ds" "drop (Suc (Suc (Suc ?k))) buf"] nz n k64 by simp
    show ?thesis
      using sz False n lt assms(2) zero buf k upd fin loop
      by (simp add: ultox_def ultox_loop_eq digits_def rev_map)
  qed
qed

definition parse_dec :: "u8 list \<Rightarrow> nat" where
  "parse_dec cs = foldl (\<lambda>v c. 10 * v + (unat c - 0x30)) 0 cs"

definition hex_value :: "u8 \<Rightarrow> nat" where
  "hex_value c = (if unat c \<le> 0x39 then unat c - 0x30 else unat c - 0x37)"

definition parse_hex :: "u8 list \<Rightarrow> nat" where
  "parse_hex cs = foldl (\<lambda>v c. 16 * v + hex_value c) 0 cs"

lemma foldl_map_cong:
  "(\<And>v d. d \<in> set ds \<Longrightarrow> f v (g d) = h v d) \<Longrightarrow> foldl f a (map g ds) = foldl h a ds"
  by (induction ds arbitrary: a) auto

lemma parse_dec_digits: "parse_dec (map dec_char (digits 10 n)) = n"
proof -
  have "parse_dec (map dec_char (digits 10 n)) = foldl (\<lambda>v d. 10 * v + d) 0 (digits 10 n)"
    unfolding parse_dec_def
    by (rule foldl_map_cong) (use digits_less [of 10] in \<open>force simp: unat_dec_char\<close>)
  then show ?thesis by (simp add: foldl_digits)
qed

lemma hex_value_hex_char: "d < 16 \<Longrightarrow> hex_value (hex_char d) = d"
proof -
  assume "d < 16"
  then have "d \<in> set [0..<16]" by simp
  moreover have "\<forall>d \<in> set [0..<16]. hex_value (hex_char d) = d" by code_simp
  ultimately show ?thesis by blast
qed

lemma parse_hex_digits: "parse_hex (map hex_char (digits 16 n)) = n"
proof -
  have "parse_hex (map hex_char (digits 16 n)) = foldl (\<lambda>v d. 16 * v + d) 0 (digits 16 n)"
    unfolding parse_hex_def
    by (rule foldl_map_cong) (use digits_less [of 16] in \<open>force simp: hex_value_hex_char\<close>)
  then show ?thesis by (simp add: foldl_digits)
qed

lemma dec_char_digits_nonzero: "0 \<notin> set (map dec_char (digits 10 n))"
  using digits_less [of 10] dec_char_nonzero by force

lemma hex_char_digits_nonzero: "0 \<notin> set (map hex_char (digits 16 n))"
  using digits_less [of 16] hex_char_nonzero by force

section \<open>Comparisons and copies\<close>

lemma sint_u8_bounds: "- 128 \<le> sint (a :: u8)" "sint (a :: u8) < 128"
  using sint_greater_eq [of a] sint_less [of a] by simp_all

lemma to_int_char_diff: "to_int (char_diff a b) = sint a - sint b"
  unfolding char_diff_def
  by (rule to_int_of_int) (use sint_u8_bounds [of a] sint_u8_bounds [of b] in simp_all)

lemma char_diff_eq_0_iff [simp]: "char_diff a b = 0 \<longleftrightarrow> a = b"
proof
  assume "char_diff a b = 0"
  then have "to_int 0 = sint a - sint b"
    by (metis to_int_char_diff)
  then show "a = b" by (simp add: to_int_def signed_word_eqI)
qed (simp add: char_diff_def)

lemma sint_eq_iff [simp]: "sint (a :: u8) = sint b \<longleftrightarrow> a = b"
  by (auto intro: signed_word_eqI)

lemma str_cmp_c_str:
  assumes "0 \<in> set as" and "0 \<in> set bs"
  shows "\<exists>r. str_cmp as bs = Inr r \<and> (r = 0 \<longleftrightarrow> c_str as = c_str bs)"
  using assms
proof (induction as bs rule: str_cmp.induct)
  case (3 a as b bs)
  consider (z) "a = 0 \<or> b = 0" | (ne) "a \<noteq> 0" "b \<noteq> 0" "a \<noteq> b" | (eq) "a \<noteq> 0" "b \<noteq> 0" "a = b"
    by blast
  then show ?case
  proof cases
    case z
    then show ?thesis by (auto simp: c_str_def sint_eq_iff [of _ 0, simplified] sint_eq_iff [of 0, simplified])
  next
    case ne
    then show ?thesis by (auto simp: c_str_def to_int_char_diff)
  next
    case eq
    with 3 obtain r where "str_cmp as bs = Inr r" "r = 0 \<longleftrightarrow> c_str as = c_str bs"
      by auto
    with eq show ?thesis by (auto simp: c_str_def)
  qed
qed simp_all

lemma take_Suc_eq:
  "i < length xs \<Longrightarrow> i < length ys \<Longrightarrow>
     take (Suc i) xs = take (Suc i) ys \<longleftrightarrow> take i xs = take i ys \<and> xs ! i = ys ! i"
  by (auto simp: take_Suc_conv_app_nth)

lemma str_ncmp_loop_eq:
  assumes "unat la \<le> length as" and "unat lb \<le> length bs"
    and "0 \<notin> set (take (unat la) as)" and "0 \<notin> set (take (unat lb) bs)"
    and "i \<le> la" and "i \<le> lb" and "take (unat i) as = take (unat i) bs"
  shows "\<exists>r. str_ncmp_loop as bs la lb i = Inr r \<and>
           (r = 0 \<longleftrightarrow> take (unat la) as = take (unat lb) bs)"
  using assms
proof (induction as bs la lb i rule: str_ncmp_loop.induct)
  case (1 as bs la lb i)
  have len: "length (take (unat la) as) = unat la" "length (take (unat lb) bs) = unat lb"
    using "1.prems" by simp_all
  show ?case
  proof (cases "i < la \<and> i < lb")
    case True
    then have i: "unat i < length as" "unat i < length bs" "unat (i + 1) = Suc (unat i)"
      "unat i < unat la" "unat i < unat lb" "i + 1 \<le> la" "i + 1 \<le> lb"
      using "1.prems"(1,2) unat_Suc_less [of i la]
      by (auto simp: word_less_nat_alt word_le_nat_alt)
    show ?thesis
    proof (cases "as ! unat i = bs ! unat i")
      case eq: True
      have "take (unat (i + 1)) as = take (unat (i + 1)) bs"
        using "1.prems"(7) i eq by (simp add: take_Suc_eq)
      then have "\<exists>r. str_ncmp_loop as bs la lb (i + 1) = Inr r \<and>
          (r = 0 \<longleftrightarrow> take (unat la) as = take (unat lb) bs)"
        using "1.IH" [OF True, of "as ! unat i" "bs ! unat i"] "1.prems" i eq by simp
      with True i eq show ?thesis by (subst str_ncmp_loop.simps) simp
    next
      case ne: False
      then have "take (unat la) as \<noteq> take (unat lb) bs"
        using i by (metis nth_take)
      with True i ne show ?thesis by (subst str_ncmp_loop.simps) (simp add: to_int_char_diff)
    qed
  next
    case False
    then consider (a) "i = la" "la < lb" | (b) "i = lb" "lb < la" | (e) "i = la" "la = lb"
      using "1.prems"(5,6) by fastforce
    then show ?thesis
    proof cases
      case a
      then have "unat la < unat lb" by (simp add: word_less_nat_alt)
      then have "bs ! unat la \<noteq> 0" "take (unat la) as \<noteq> take (unat lb) bs"
        using "1.prems"(2,4) len by (auto simp: in_set_conv_nth dest: arg_cong [where f = length])
      then show ?thesis
        using a False \<open>unat la < unat lb\<close> "1.prems"(2) sint_eq_iff [of "bs ! unat la" 0]
        by (subst str_ncmp_loop.simps) auto
    next
      case b
      then have "unat lb < unat la" by (simp add: word_less_nat_alt)
      then have "as ! unat lb \<noteq> 0" "take (unat la) as \<noteq> take (unat lb) bs"
        using "1.prems"(1,3) len by (auto simp: in_set_conv_nth dest: arg_cong [where f = length])
      then show ?thesis
        using b False \<open>unat lb < unat la\<close> "1.prems"(1) sint_eq_iff [of "as ! unat lb" 0]
        by (subst str_ncmp_loop.simps) auto
    next
      case e
      with False "1.prems"(7) show ?thesis by (subst str_ncmp_loop.simps) auto
    qed
  qed
qed

lemma str_ncmp_eq:
  assumes "unat la \<le> length as" and "unat lb \<le> length bs"
    and "0 \<notin> set (take (unat la) as)" and "0 \<notin> set (take (unat lb) bs)"
  shows "\<exists>r. str_ncmp as bs la lb = Inr r \<and> (r = 0 \<longleftrightarrow> take (unat la) as = take (unat lb) bs)"
  using str_ncmp_loop_eq [OF assms, of 0] by (simp add: str_ncmp_def)

lemma str_ncpy_loop_eq:
  assumes "unat n \<le> length src" and "unat n \<le> length dest" and "i \<le> n"
    and "take (unat i) dest = take (unat i) src"
  shows "str_ncpy_loop src dest n i = Inr (take (unat n) src @ drop (unat n) dest)"
  using assms
proof (induction src dest n i rule: str_ncpy_loop.induct)
  case (1 src dest n i)
  show ?case
  proof (cases "i < n")
    case True
    then have i: "unat i < length src" "unat i < length dest" "unat (i + 1) = Suc (unat i)"
      "unat i < unat n" "i + 1 \<le> n"
      using "1.prems"(1,2) unat_Suc_less [of i n]
      by (auto simp: word_less_nat_alt word_le_nat_alt)
    let ?dest = "dest[unat i := src ! unat i]"
    have "take (unat (i + 1)) ?dest = take (unat (i + 1)) src"
      using "1.prems"(4) i by (simp add: take_Suc_conv_app_nth)
    with True i "1.prems" have "str_ncpy_loop src ?dest n (i + 1) =
        Inr (take (unat n) src @ drop (unat n) ?dest)"
      by (intro "1.IH" [OF True, of "src ! unat i"]) auto
    with True i show ?thesis by (subst str_ncpy_loop.simps) (simp add: drop_update_cancel)
  next
    case False
    then have "i = n" using "1.prems"(3) by simp
    with "1.prems" show ?thesis
      by (subst str_ncpy_loop.simps) (metis append_take_drop_id less_irrefl)
  qed
qed

lemma str_ncpy_eq:
  assumes "unat n \<le> length src" and "unat n \<le> length dest"
  shows "str_ncpy src dest n = Inr (to_int n, take (unat n) src @ drop (unat n) dest)"
  using str_ncpy_loop_eq [OF assms, of 0] by (simp add: str_ncpy_def)

section \<open>Properties\<close>

text \<open>C36: \<^verbatim>\<open>ultoa\<close> writes the decimal representation of its argument as a null-terminated string
  of digits that denotes the argument exactly when the representation and the terminator fit in
  the announced size, and otherwise reports that the buffer is too small; no access leaves the
  buffer when the announced size is that of the buffer or less.\<close>

theorem ultoa_correct:
  assumes "2 \<le> unat sz" and "unat sz \<le> length buf"
  shows "if unat n < 10 ^ (unat sz - 1)
         then \<exists>buf'. ultoa n (Some buf) sz = Inr (STR_SUCCESS, Some buf') \<and> length buf' = length buf \<and>
                parse_dec (c_str buf') = unat n \<and>
                list_all (\<lambda>c. 0x30 \<le> unat c \<and> unat c \<le> 0x39) (c_str buf')
         else \<exists>buf'. ultoa n (Some buf) sz = Inr (STR_ERR_BUFFER_TOO_SMALL, Some buf')"
proof (cases "unat n < 10 ^ (unat sz - 1)")
  case True
  let ?ds = "digits 10 (unat n)"
  from True have lt: "length ?ds < unat sz"
    using length_digits_le [of 10 "unat sz - 1" "unat n"] assms(1) by simp
  have "list_all (\<lambda>c. 0x30 \<le> unat c \<and> unat c \<le> 0x39) (map dec_char ?ds)"
    using digits_less [of 10] by (force simp: list_all_iff unat_dec_char)
  then show ?thesis
    using True ultoa_ok [OF assms lt] lt assms(2) dec_char_digits_nonzero
    by (simp add: parse_dec_digits)
next
  case False
  then have "unat sz \<le> length (digits 10 (unat n))"
    using length_digits_le [of 10 "unat sz - 1" "unat n"] assms(1) by simp
  from ultoa_small [OF assms this] False show ?thesis by simp
qed

theorem ultoa_correct_witness:
  "\<exists>buf'. ultoa 502 (Some (replicate 32 0)) 21 = Inr (STR_SUCCESS, Some buf') \<and>
     length buf' = 32 \<and> parse_dec (c_str buf') = 502 \<and>
     list_all (\<lambda>c. 0x30 \<le> unat c \<and> unat c \<le> 0x39) (c_str buf')"
  using ultoa_correct [of 21 "replicate 32 0" 502] by simp

text \<open>C37: a buffer of 21 bytes, the size the kernel's formatted output passes, is enough for
  \<^verbatim>\<open>ultox\<close> on every 64-bit number: it writes \<^verbatim>\<open>0x\<close> followed by hexadecimal digits that
  denote the number.\<close>

theorem ultox_correct:
  assumes "21 \<le> length buf"
  shows "\<exists>cs rest. ultox n (Some buf) 21 = Inr (STR_SUCCESS, Some ([0x30, 0x78] @ cs @ 0 # rest)) \<and>
           2 + length cs + 1 + length rest = length buf \<and> 0 \<notin> set cs \<and> parse_hex cs = unat n"
proof -
  let ?ds = "digits 16 (unat n)"
  have "unat n < 16 ^ 16" using unat_less_2p64 [of n] by simp
  then have len: "length ?ds \<le> 16" using length_digits_le [of 16 16 "unat n"] by simp
  then have "ultox n (Some buf) 21 = Inr (STR_SUCCESS, Some ([0x30, 0x78] @ map hex_char ?ds @ 0 #
                  drop (Suc (Suc (Suc (length ?ds)))) buf))"
    using assms by (intro ultox_ok) simp_all
  then show ?thesis
    using hex_char_digits_nonzero len assms
    by (intro exI [of _ "map hex_char ?ds"] exI [of _ "drop (Suc (Suc (Suc (length ?ds)))) buf"])
       (simp add: parse_hex_digits)
qed

theorem ultox_correct_witness:
  "\<exists>cs rest. ultox 0xDEADC0DE (Some (replicate 32 0)) 21 =
       Inr (STR_SUCCESS, Some ([0x30, 0x78] @ cs @ 0 # rest)) \<and>
     2 + length cs + 1 + length rest = 32 \<and> 0 \<notin> set cs \<and> parse_hex cs = 0xDEADC0DE"
  using ultox_correct [of "replicate 32 0" "0xDEADC0DE"] by simp

text \<open>C38: \<^verbatim>\<open>memset\<close>, with its byte-wise head up to an aligned address, its 64-bit stores and its
  byte-wise tail, sets exactly the bytes of the region and leaves every other byte alone,
  whatever the alignment of the start and the size.\<close>

theorem memset_correct:
  "memset m start pattern sz = (start, \<lambda>a. if a - start < sz then pattern else m a)"
  using memset_eq_fill [of m start pattern sz] by (simp add: fill_def)

text \<open>C39: for regions that do not overlap, \<^verbatim>\<open>memcpy\<close> copies byte for byte the region its source
  cursor designates at the start; the cursor is the uninitialised local and not the parameter
  \<open>src\<close>.\<close>

theorem memcpy_correct:
  assumes "disjoint_regions dest src8 sz"
  shows "memcpy src8 m dest src sz =
           (dest, \<lambda>a. if a - dest < sz then m (src8 + (a - dest)) else m a)"
  using memcpy_eq_copied [OF assms, of m src] by (simp add: copied_def)

theorem memcpy_correct_witness:
  "disjoint_regions 0x1000 0x2000 1 \<and>
   memcpy 0x2000 ucast 0x1000 0x3000 1 =
     (0x1000, \<lambda>a. if a - 0x1000 < 1 then ucast (0x2000 + (a - 0x1000)) else ucast a)"
proof -
  have dis: "disjoint_regions 0x1000 0x2000 1"
    by (simp add: disjoint_regions_def word_less_1)
  then show ?thesis using memcpy_correct [OF dis, of ucast "0x3000"] by blast
qed

text \<open>C40: on null-terminated strings \<^verbatim>\<open>str_cmp\<close> returns, and returns 0 exactly for equal strings.\<close>

theorem str_cmp_correct:
  assumes "0 \<in> set str_a" and "0 \<in> set str_b"
  shows "\<exists>r. str_cmp str_a str_b = Inr r \<and> (r = 0 \<longleftrightarrow> c_str str_a = c_str str_b)"
  using assms by (rule str_cmp_c_str)

theorem str_cmp_correct_witness:
  "\<exists>r. str_cmp [0x61, 0x62, 0] [0x61, 0, 7] = Inr r \<and> (r = 0 \<longleftrightarrow> c_str [0x61, 0x62, 0] = c_str [0x61, 0, 7])"
  by (rule str_cmp_correct) simp_all

end
