(* ===== verification/Interrupts.thy ===== *)
theory Interrupts
  imports Prelude
begin

text \<open>
  Interrupt plumbing: the gates of \<^verbatim>\<open>kernel/idt.c\<close>, the segment descriptors of \<^verbatim>\<open>kernel/gdt.c\<close>, and the
  handler table of \<^verbatim>\<open>kernel/isr.c\<close>. A handler is a function address; calling it is a parameter of the
  dispatcher. The instructions that load the descriptor registers are not modelled, their operands
  are.
\<close>

section \<open>Definitions\<close>

record interrupt_frame =
  fr_cr2 :: u64
  fr_r15 :: u64
  fr_r14 :: u64
  fr_r13 :: u64
  fr_r12 :: u64
  fr_r11 :: u64
  fr_r10 :: u64
  fr_r9 :: u64
  fr_r8 :: u64
  fr_rbp :: u64
  fr_rdi :: u64
  fr_rsi :: u64
  fr_rdx :: u64
  fr_rcx :: u64
  fr_rbx :: u64
  fr_rax :: u64
  fr_interrupt_number :: u64
  fr_error_code :: u64
  fr_rip :: u64
  fr_cs :: u64
  fr_rflags :: u64
  fr_rsp :: u64
  fr_ss :: u64

text \<open>The frame of an exception with the given number, error code and faulting address.\<close>

definition fault_frame :: "u64 \<Rightarrow> u64 \<Rightarrow> u64 \<Rightarrow> interrupt_frame" where
  "fault_frame num err addr =
     \<lparr>fr_cr2 = addr, fr_r15 = 0, fr_r14 = 0, fr_r13 = 0, fr_r12 = 0, fr_r11 = 0, fr_r10 = 0, fr_r9 = 0, fr_r8 = 0,
      fr_rbp = 0, fr_rdi = 0, fr_rsi = 0, fr_rdx = 0, fr_rcx = 0, fr_rbx = 0, fr_rax = 0,
      fr_interrupt_number = num, fr_error_code = err, fr_rip = 0, fr_cs = 8, fr_rflags = 0, fr_rsp = 0, fr_ss = 0\<rparr>"

record gate_descriptor =
  offset_low :: u16
  kernel_cs :: u16
  ist :: u8
  attributes :: u8
  offset_mid :: u16
  offset_high :: u32
  reserved :: u32

record idtr_t =
  idtr_size :: u16
  idtr_offset :: u64

text \<open>One iteration of the loop of \<^verbatim>\<open>idt_init\<close>.\<close>

definition idt_gate :: "u64 \<Rightarrow> gate_descriptor" where
  "idt_gate wrapper =
     \<lparr>offset_low = ucast (wrapper AND 0xFFFF),
      kernel_cs = 0x08,
      ist = 0,
      attributes = 0x8E,
      offset_mid = ucast (drop_bit 16 wrapper AND 0xFFFF),
      offset_high = ucast (drop_bit 32 wrapper AND 0xFFFFFFFF),
      reserved = 0\<rparr>"

definition idt_init :: "u64 list \<Rightarrow> u64 \<Rightarrow> gate_descriptor list \<times> idtr_t" where
  "idt_init interrupt_handler_wrapper_table idt_address =
     (map idt_gate (take 256 interrupt_handler_wrapper_table),
      \<lparr>idtr_size = ucast (256 * 16 :: u64) - 1, idtr_offset = idt_address\<rparr>)"

record segment_descriptor =
  limit_low :: u16
  base_low :: u16
  base_mid :: u8
  access_byte :: u8
  seg_flags :: u8
  base_high :: u8

record gdtr_t =
  gdtr_size :: u16
  gdtr_offset :: u64

definition gdt_init :: "segment_descriptor list \<Rightarrow> u64 \<Rightarrow> (segment_descriptor list \<times> gdtr_t) res" where
  "gdt_init gdt gdt_address =
     bindE (arr_get gdt 1) (\<lambda>d1.
     bindE (arr_set gdt 1 (d1\<lparr>limit_low := 0xffff, access_byte := 0x9a, seg_flags := 0xaf\<rparr>)) (\<lambda>g1.
     bindE (arr_get g1 2) (\<lambda>d2.
     bindE (arr_set g1 2 (d2\<lparr>limit_low := 0xffff, access_byte := 0x92, seg_flags := 0xcf\<rparr>)) (\<lambda>g2.
       Inr (g2, \<lparr>gdtr_size = ucast (3 * 8 :: u64) - 1, gdtr_offset = gdt_address\<rparr>)))))"

text \<open>The handler table has 256 function addresses, 0 for none.\<close>

definition isr_register_interrupt_handler :: "u8 \<Rightarrow> u64 \<Rightarrow> u64 list \<Rightarrow> u64 list res" where
  "isr_register_interrupt_handler interrupt_num handler interrupt_handler_table =
     arr_set interrupt_handler_table (ucast interrupt_num) handler"

definition handle_interrupt ::
  "(u64 \<Rightarrow> interrupt_frame \<Rightarrow> 's \<Rightarrow> 's res) \<Rightarrow> u64 list \<Rightarrow> interrupt_frame \<Rightarrow> 's \<Rightarrow> 's res" where
  "handle_interrupt call interrupt_handler_table int_frame s =
     bindE (arr_get interrupt_handler_table (fr_interrupt_number int_frame)) (\<lambda>handler.
       if handler \<noteq> 0 then call handler int_frame s
       else Inl (Panic ''Unhandled interrupt''))"

section \<open>Properties\<close>

text \<open>The address the processor reassembles from a gate.\<close>

definition gate_target :: "gate_descriptor \<Rightarrow> u64" where
  "gate_target g = ucast (offset_low g) OR push_bit 16 (ucast (offset_mid g)) OR push_bit 32 (ucast (offset_high g))"

lemma gate_target_idt_gate: "gate_target (idt_gate w) = w"
proof -
  have m: "(0xFFFF :: u64) = mask 16" "(0xFFFFFFFF :: u64) = mask 32" by (simp_all add: mask_eq_exp_minus_1)
  show ?thesis
    unfolding gate_target_def idt_gate_def gate_descriptor.simps m
  proof (rule bit_word_eqI)
    fix n assume "n < LENGTH(64)"
    then show "bit (ucast (ucast (w AND mask 16) :: u16) OR push_bit 16 (ucast (ucast (drop_bit 16 w AND mask 16) :: u16)) OR
        push_bit 32 (ucast (ucast (drop_bit 32 w AND mask 32) :: u32)) :: u64) n = bit w n"
      by (cases "n < 32") (auto simp: bit_simps)
  qed
qed

text \<open>C35: for every table of 256 stub addresses, every gate that \<^verbatim>\<open>idt_init\<close> writes makes the processor
  jump to its own stub (the three parts of the split offset reassemble to the address), is present,
  of ring 0 and uses the kernel code selector, and the limit register covers exactly the table.\<close>

theorem idt_init_correct:
  assumes "length stubs = 256"
  shows "(\<forall>i<256. gate_target (fst (idt_init stubs a) ! i) = stubs ! i \<and>
            bit (attributes (fst (idt_init stubs a) ! i)) 7 \<and> kernel_cs (fst (idt_init stubs a) ! i) = 8) \<and>
         unat (idtr_size (snd (idt_init stubs a))) = 16 * length (fst (idt_init stubs a)) - 1"
proof -
  have "bit (0x8E :: u8) 7" by (simp add: bit_iff_odd)
  then have "bit (attributes (idt_gate w)) 7" "kernel_cs (idt_gate w) = 8" for w by (simp_all add: idt_gate_def)
  then show ?thesis using assms by (simp add: idt_init_def gate_target_idt_gate)
qed

theorem idt_init_correct_witness:
  "gate_target (fst (idt_init (replicate 256 0xFFFFFFFF80123456) 0x1000) ! 14) = 0xFFFFFFFF80123456"
  using idt_init_correct [of "replicate 256 0xFFFFFFFF80123456" "0x1000"] by simp

text \<open>After a handler has been registered for a vector, an interrupt with that number calls exactly
  that handler, and every other vector behaves as before: it calls its own handler, or panics when it
  has none.\<close>

theorem dispatch_after_register:
  assumes "length tbl = 256" and "handler \<noteq> 0" and "unat (fr_interrupt_number fr) < 256"
  shows "\<exists>tbl'. isr_register_interrupt_handler n handler tbl = Inr tbl' \<and> length tbl' = 256 \<and>
     handle_interrupt call tbl' fr s =
       (if fr_interrupt_number fr = ucast n then call handler fr s else handle_interrupt call tbl fr s)"
proof -
  have n: "unat (ucast n :: u64) < 256" using unsigned_less [of n] by (simp add: unat_ucast_u64)
  then have "isr_register_interrupt_handler n handler tbl = Inr (tbl[unat (ucast n :: u64) := handler])"
    using assms(1) by (simp add: isr_register_interrupt_handler_def)
  then show ?thesis
    using assms n by (auto simp: handle_interrupt_def nth_list_update)
qed

theorem dispatch_after_register_witness:
  "\<exists>tbl'. isr_register_interrupt_handler 14 0x4000 (replicate 256 0) = Inr tbl' \<and>
     handle_interrupt (\<lambda>f fr s. Inr (f # s)) tbl' (fault_frame 14 2 0x1000) [] = Inr [0x4000]"
proof -
  obtain tbl' where t: "isr_register_interrupt_handler 14 0x4000 (replicate 256 0) = Inr tbl'"
    by (simp add: isr_register_interrupt_handler_def)
  moreover have "handle_interrupt (\<lambda>f fr s. Inr (f # s)) tbl' (fault_frame 14 2 0x1000) [] = Inr [0x4000]"
    using dispatch_after_register [of "replicate 256 0" "0x4000" "fault_frame 14 2 0x1000" 14 "\<lambda>f fr s. Inr (f # s)" "[]"] t
    by (auto simp: fault_frame_def)
  ultimately show ?thesis by blast
qed

end
