(* ===== verification/Pmm.thy ===== *)
theory Pmm
  imports Prelude
begin

text \<open>
  The physical memory manager, \<^verbatim>\<open>memory/pmm.c\<close>: a bitmap with one bit per 4 KiB frame, a first-fit
  search for aligned runs of free frames with a 64-frame shortcut, and the release of frames. The
  record holds the static variables of the file and the physical memory behind the direct map, as
  64-bit words indexed by their physical byte address. A call of \<^verbatim>\<open>PANIC\<close> does not return and
  is the fault \<^term>\<open>Panic\<close>; log output is not modelled.
\<close>

section \<open>Definitions\<close>

record boot_info =
  framebuffer_base :: u64
  framebuffer_size :: u64
  horizontal_resolution :: u32
  vertical_resolution :: u32
  pixels_per_scan_line :: u32
  memory_bitmap_address :: u64
  memory_bitmap_size :: u64
  memory_bitmap_frame_count :: u64
  memory_physical_total_frames :: u64
  memory_physical_used_frames :: u64
  bridge_location :: u64
  bridge_size :: u8
  bi_PML4 :: u64

record pmm_state =
  bitmap :: "u8 list"
  bitmap_size_bytes :: u64
  bitmap_size_frames :: u64
  memory_total_frame_count :: u64
  memory_used_frame_count :: u64
  phys_mem :: "u64 \<Rightarrow> u64"

definition DIRECT_MAP_BASE :: u64 where
  "DIRECT_MAP_BASE = 0xFFFF888000000000"

text \<open>
  \<open>mem_at\<close> gives the bytes of the pages that start at a virtual address; the bitmap is the
  byte array found at the direct-map address of the boot loader's bitmap.
\<close>

definition pmm_init :: "(u64 \<Rightarrow> u8 list) \<Rightarrow> boot_info \<Rightarrow> 'a pmm_state_scheme \<Rightarrow> 'a pmm_state_scheme" where
  "pmm_init mem_at bi s =
     s\<lparr>bitmap := mem_at (memory_bitmap_address bi + DIRECT_MAP_BASE),
       bitmap_size_bytes := memory_bitmap_size bi,
       bitmap_size_frames := memory_physical_total_frames bi,
       memory_total_frame_count := memory_physical_total_frames bi,
       memory_used_frame_count := memory_physical_used_frames bi\<rparr>"

definition set_bitmap_bit :: "u8 list \<Rightarrow> u64 \<Rightarrow> u8 list res" where
  "set_bitmap_bit bm bit_number =
     bindE (arr_get bm (bit_number div 8)) (\<lambda>b.
       arr_set bm (bit_number div 8)
         (ucast ((ucast b :: u32) OR push_bit (unat (bit_number mod 8)) 1)))"

definition unset_bitmap_bit :: "u8 list \<Rightarrow> u64 \<Rightarrow> u8 list res" where
  "unset_bitmap_bit bm bit_number =
     bindE (arr_get bm (bit_number div 8)) (\<lambda>b.
       let k = unat (bit_number mod 8)
       in arr_set bm (bit_number div 8)
            (ucast ((ucast b :: u32) AND (push_bit k 254 OR (push_bit k 1 - 1)))))"

definition get_bitmap_bit :: "u8 list \<Rightarrow> u64 \<Rightarrow> u8 res" where
  "get_bitmap_bit bm bit_number =
     bindE (arr_get bm (bit_number div 8)) (\<lambda>b.
       Inr (ucast (drop_bit (unat (bit_number mod 8)) (ucast b :: u32) AND 0x1)))"

text \<open>A read of the bitmap through a \<^verbatim>\<open>uint64_t\<close> pointer: eight bytes, least significant first.\<close>

definition le64 :: "u8 list \<Rightarrow> u64" where
  "le64 bs = foldr (\<lambda>b acc. ucast b OR push_bit 8 acc) bs 0"

definition bitmap64_get :: "u8 list \<Rightarrow> u64 \<Rightarrow> u64 res" where
  "bitmap64_get bm i =
     (if 8 * unat i + 8 \<le> length bm then Inr (le64 (take 8 (drop (8 * unat i) bm)))
      else Inl OutOfBounds)"

definition pmm_zero_page :: "u64 \<Rightarrow> 'a pmm_state_scheme \<Rightarrow> 'a pmm_state_scheme" where
  "pmm_zero_page p_addr s =
     (let ptr = p_addr + DIRECT_MAP_BASE
      in s\<lparr>phys_mem := fold (\<lambda>i m. m(ptr + 8 * of_nat i - DIRECT_MAP_BASE := 0)) [0..<512] (phys_mem s)\<rparr>)"

text \<open>
  The inner search loop: \<open>None\<close> is the early \<^verbatim>\<open>return NULL\<close> at the end of the bitmap, \<open>Some found\<close>
  the number of free frames counted when the loop ends.
\<close>

function probe_loop :: "u8 list \<Rightarrow> u64 \<Rightarrow> u64 \<Rightarrow> u64 \<Rightarrow> u64 \<Rightarrow> u64 \<Rightarrow> u64 option res" where
  "probe_loop bm frames base count i found =
     (if i < count then
        (if base + i \<ge> frames then Inr None
         else bindE (get_bitmap_bit bm (base + i)) (\<lambda>b.
           if b \<noteq> 0 then Inr (Some found)
           else probe_loop bm frames base count (i + 1) (found + 1)))
      else Inr (Some found))"
  by pat_completeness auto
termination
proof (relation "measure (\<lambda>(bm, frames, base, count, i, found). unat count - unat i)", goal_cases)
  case 1
  then show ?case by simp
next
  case (2 bm frames base count i found)
  then have "unat (i + 1) = Suc (unat i)" and "unat i < unat count"
    by (auto simp: unat_Suc_less word_less_nat_alt)
  then show ?case by simp
qed

function mark_loop :: "u64 \<Rightarrow> u64 \<Rightarrow> u64 \<Rightarrow> 'a pmm_state_scheme \<Rightarrow> 'a pmm_state_scheme res" where
  "mark_loop base count i s =
     (if i < count then
        bindE (set_bitmap_bit (bitmap s) (base + i)) (\<lambda>bm.
          let s1 = pmm_zero_page ((base + i) * 0x1000) (s\<lparr>bitmap := bm\<rparr>)
          in mark_loop base count (i + 1)
               (s1\<lparr>memory_used_frame_count := memory_used_frame_count s1 + 1\<rparr>))
      else Inr s)"
  by pat_completeness auto
termination
proof (relation "measure (\<lambda>(base, count, i, s). unat count - unat i)", goal_cases)
  case 1
  then show ?case by simp
next
  case (2 base count i s)
  then have "unat (i + 1) = Suc (unat i)" and "unat i < unat count"
    by (auto simp: unat_Suc_less word_less_nat_alt)
  then show ?case by simp
qed

definition next_base :: "u64 \<Rightarrow> u64 \<Rightarrow> u64" where
  "next_base base step =
     (let next_available_bit = base + 64;
          remainder = next_available_bit mod step;
          target = (if remainder \<noteq> 0 then next_available_bit + (step - remainder)
                    else next_available_bit)
      in target - step)"

text \<open>
  The main loop. \<^verbatim>\<open>continue\<close> and the end of the body both add \<open>step\<close> to \<open>base\<close>. Every
  iteration that does not return raises \<open>base\<close>, so \<open>bitmap_size_frames\<close> iterations are enough
  as long as the sums do not wrap around.
\<close>

fun alloc_loop :: "nat \<Rightarrow> u64 \<Rightarrow> u64 \<Rightarrow> u64 \<Rightarrow> 'a pmm_state_scheme \<Rightarrow> (u64 \<times> 'a pmm_state_scheme) res" where
  "alloc_loop 0 count step base s = Inl OutOfFuel"
| "alloc_loop (Suc fuel) count step base s =
     (if base < bitmap_size_frames s then
        bindE (if base mod 64 = 0
               then bindE (bitmap64_get (bitmap s) (base div 64)) (\<lambda>w. Inr (w = 0xFFFFFFFFFFFFFFFF))
               else Inr False) (\<lambda>full.
          if full then alloc_loop fuel count step (next_base base step + step) s
          else
            bindE (probe_loop (bitmap s) (bitmap_size_frames s) base count 0 0) (\<lambda>r.
              case r of
                None \<Rightarrow> Inr (0, s)
              | Some found \<Rightarrow>
                  if found = count then
                    bindE (mark_loop base count 0 s) (\<lambda>s'. Inr (base * 4096, s'))
                  else alloc_loop fuel count step (base + step) s))
      else Inr (0, s))"

definition pmm_allocate_frames ::
  "u64 \<Rightarrow> u64 \<Rightarrow> 'a pmm_state_scheme \<Rightarrow> (u64 \<times> 'a pmm_state_scheme) res" where
  "pmm_allocate_frames count alignment s =
     (if count = 0 then Inr (0, s)
      else
        let alignment' = (if alignment < 4096 then 4096 else alignment);
            step = alignment' div 4096
        in if memory_total_frame_count s = 0 then Inl DivByZero
           else alloc_loop (Suc (unat (bitmap_size_frames s))) count step 0 s)"

function free_loop :: "u64 \<Rightarrow> u64 \<Rightarrow> 'a pmm_state_scheme \<Rightarrow> 'a pmm_state_scheme res" where
  "free_loop i final_frame s =
     (if i < final_frame then
        bindE (get_bitmap_bit (bitmap s) i) (\<lambda>b.
          if b = 0 then Inl (Panic ''PMM: Double free detected'')
          else bindE (unset_bitmap_bit (bitmap s) i) (\<lambda>bm.
            free_loop (i + 1) final_frame (s\<lparr>bitmap := bm\<rparr>)))
      else Inr s)"
  by pat_completeness auto
termination
proof (relation "measure (\<lambda>(i, final_frame, s). unat final_frame - unat i)", goal_cases)
  case 1
  then show ?case by simp
next
  case (2 i final_frame s)
  then have "unat (i + 1) = Suc (unat i)" and "unat i < unat final_frame"
    by (auto simp: unat_Suc_less word_less_nat_alt)
  then show ?case by simp
qed

definition pmm_free_frames :: "u64 \<Rightarrow> u64 \<Rightarrow> 'a pmm_state_scheme \<Rightarrow> 'a pmm_state_scheme res" where
  "pmm_free_frames start_address count s =
     (if count = 0 then Inr s
      else
        let final_frame = start_address div 4096 + count
        in if final_frame > bitmap_size_frames s
           then Inl (Panic ''PMM: Invalid physical address out of range'')
           else free_loop (start_address div 4096) final_frame s)"

declare probe_loop.simps [simp del] mark_loop.simps [simp del] free_loop.simps [simp del]

section \<open>The bitmap as a set of frames\<close>

text \<open>
  The contract of a bit array: single-bit reads and writes against the set of the indices whose
  bit is set. The kernel's physical memory manager and the boot loader each have a copy of these
  three functions.
\<close>

locale bit_array =
  fixes get :: "'b \<Rightarrow> u64 \<Rightarrow> u8 res"
    and set_bit1 :: "'b \<Rightarrow> u64 \<Rightarrow> 'b res"
    and unset_bit1 :: "'b \<Rightarrow> u64 \<Rightarrow> 'b res"
    and cap :: "'b \<Rightarrow> nat"
    and members :: "'b \<Rightarrow> nat set"
  assumes get_law: "unat n < cap b \<Longrightarrow> get b n = Inr (if unat n \<in> members b then 1 else 0)"
    and set_law: "unat n < cap b \<Longrightarrow>
      \<exists>b'. set_bit1 b n = Inr b' \<and> cap b' = cap b \<and> members b' = insert (unat n) (members b)"
    and unset_law: "unat n < cap b \<Longrightarrow>
      \<exists>b'. unset_bit1 b n = Inr b' \<and> cap b' = cap b \<and> members b' = members b - {unat n}"
begin

lemma get_eq_0: "unat n < cap b \<Longrightarrow> get b n = Inr v \<Longrightarrow> v = 0 \<longleftrightarrow> unat n \<notin> members b"
  by (auto simp: get_law split: if_splits)

lemma get_after_set:
  assumes "unat n < cap b" and "unat k < cap b" and "set_bit1 b n = Inr b'"
  shows "get b' k = Inr (if k = n \<or> unat k \<in> members b then 1 else 0)"
  using set_law [OF assms(1)] assms(2,3) by (auto simp: get_law)

lemma get_after_unset:
  assumes "unat n < cap b" and "unat k < cap b" and "unset_bit1 b n = Inr b'"
  shows "get b' k = Inr (if k \<noteq> n \<and> unat k \<in> members b then 1 else 0)"
  using unset_law [OF assms(1)] assms(2,3) by (auto simp: get_law)

lemma unset_set_members:
  assumes "unat n < cap b" and "unat n \<notin> members b" and "set_bit1 b n = Inr b'"
    and "unset_bit1 b' n = Inr b''"
  shows "members b'' = members b"
  using set_law [OF assms(1)] assms(2-4) unset_law [of n b'] assms(1) by auto

end

definition bitmap_members :: "u8 list \<Rightarrow> nat set" where
  "bitmap_members bm = {f. f < 8 * length bm \<and> bit (bm ! (f div 8)) (f mod 8)}"

lemma bitmap_members_less: "f \<in> bitmap_members bm \<Longrightarrow> f < 8 * length bm"
  by (simp add: bitmap_members_def)

lemma unat_div_mod_8:
  "unat ((n :: u64) div 8) = unat n div 8" "unat ((n :: u64) mod 8) = unat n mod 8"
  by (simp_all add: unat_div unat_mod)

lemma get_bitmap_bit_eq:
  assumes "unat n < 8 * length bm"
  shows "get_bitmap_bit bm n = Inr (if unat n \<in> bitmap_members bm then 1 else 0)"
proof -
  let ?b = "bm ! (unat n div 8)" and ?k = "unat n mod 8"
  have "ucast (drop_bit ?k (ucast ?b :: u32) AND 0x1) = (if bit ?b ?k then 1 else 0 :: u8)"
    by (rule bit_word_eqI) (auto simp: bit_simps bit_1_iff intro: gr0I)
  then show ?thesis
    using assms by (auto simp: get_bitmap_bit_def unat_div_mod_8 bitmap_members_def)
qed

lemma members_update:
  assumes "n < 8 * length bm" and "\<And>j. j < 8 \<Longrightarrow> bit v j \<longleftrightarrow> (if j = n mod 8 then x else bit (bm ! (n div 8)) j)"
  shows "bitmap_members (bm[n div 8 := v]) = (if x then insert n (bitmap_members bm) else bitmap_members bm - {n})"
proof -
  have "f \<in> bitmap_members (bm[n div 8 := v]) \<longleftrightarrow>
      f < 8 * length bm \<and> (if f = n then x else f \<in> bitmap_members bm)" for f
  proof (cases "f div 8 = n div 8")
    case True
    then have "f = n \<longleftrightarrow> f mod 8 = n mod 8" by (metis div_mult_mod_eq)
    then show ?thesis
      using True assms by (auto simp: bitmap_members_def)
  next
    case False
    then show ?thesis by (auto simp: bitmap_members_def)
  qed
  with assms(1) bitmap_members_less [of _ bm] show ?thesis by (auto split: if_splits)
qed

lemma set_bitmap_bit_eq:
  assumes "unat n < 8 * length bm"
  shows "\<exists>bm'. set_bitmap_bit bm n = Inr bm' \<and> length bm' = length bm \<and>
           bitmap_members bm' = insert (unat n) (bitmap_members bm)"
proof -
  let ?b = "bm ! (unat n div 8)" and ?k = "unat n mod 8"
  let ?v = "ucast ((ucast ?b :: u32) OR push_bit ?k 1) :: u8"
  have "bit ?v j \<longleftrightarrow> (if j = ?k then True else bit ?b j)" if "j < 8" for j
    using that by (auto simp: bit_simps)
  from members_update [OF assms this]
  have "bitmap_members (bm[unat n div 8 := ?v]) = insert (unat n) (bitmap_members bm)" by simp
  with assms show ?thesis by (simp add: set_bitmap_bit_def unat_div_mod_8)
qed

lemma unset_bitmap_bit_eq:
  assumes "unat n < 8 * length bm"
  shows "\<exists>bm'. unset_bitmap_bit bm n = Inr bm' \<and> length bm' = length bm \<and>
           bitmap_members bm' = bitmap_members bm - {unat n}"
proof -
  let ?b = "bm ! (unat n div 8)" and ?k = "unat n mod 8"
  let ?m = "push_bit ?k 254 OR (push_bit ?k 1 - 1) :: u32"
  let ?v = "ucast ((ucast ?b :: u32) AND ?m) :: u8"
  have "(254 :: u32) = push_bit 1 (mask 7)" "push_bit ?k 1 - 1 = (mask ?k :: u32)"
    by (simp_all add: mask_eq_exp_minus_1)
  then have m: "?m = push_bit (1 + ?k) (mask 7) OR mask ?k"
    by (simp only: push_bit_push_bit add.commute)
  have "bit ?m j \<longleftrightarrow> j \<noteq> ?k" if "j < 8" for j
    unfolding m using that by (auto simp: bit_simps simp del: push_bit_Suc)
  then have "bit ?v j \<longleftrightarrow> (if j = ?k then False else bit ?b j)" if "j < 8" for j
    using that by (auto simp: bit_simps)
  from members_update [OF assms this]
  have "bitmap_members (bm[unat n div 8 := ?v]) = bitmap_members bm - {unat n}" by simp
  with assms show ?thesis by (simp add: unset_bitmap_bit_def unat_div_mod_8 Let_def)
qed

interpretation pmm_bits: bit_array get_bitmap_bit set_bitmap_bit unset_bitmap_bit
  "\<lambda>bm. 8 * length bm" bitmap_members
  by unfold_locales
     (auto simp: get_bitmap_bit_eq dest: set_bitmap_bit_eq unset_bitmap_bit_eq)

lemma bit_le64:
  "bit (le64 bs) n \<longleftrightarrow> n < 64 \<and> n < 8 * length bs \<and> bit (bs ! (n div 8)) (n mod 8)"
proof (induction bs arbitrary: n)
  case Nil
  then show ?case by (simp add: le64_def)
next
  case (Cons b bs)
  have le: "le64 (b # bs) = ucast b OR push_bit 8 (le64 bs)"
    by (simp add: le64_def)
  show ?case
  proof (cases "n < 8")
    case True
    then show ?thesis by (simp add: le bit_simps)
  next
    case False
    then have "n div 8 = Suc ((n - 8) div 8)" "n mod 8 = (n - 8) mod 8"
      by (auto simp: le_div_geq le_mod_geq)
    with False Cons.IH [of "n - 8"] show ?thesis
      by (auto simp: le bit_simps bit_u8_ge)
  qed
qed

lemma bitmap64_full:
  assumes "8 * k + 8 \<le> length bm" and "le64 (take 8 (drop (8 * k) bm)) = 0xFFFFFFFFFFFFFFFF"
    and "64 * k \<le> f" and "f < 64 * k + 64"
  shows "f \<in> bitmap_members bm"
proof -
  define j where "j = f - 64 * k"
  have j: "f = 64 * k + j" "j < 64" using assms(3,4) by (auto simp: j_def)
  have ones: "(0xFFFFFFFFFFFFFFFF :: u64) = mask 64" by (simp add: mask_eq_exp_minus_1)
  have "bit (le64 (take 8 (drop (8 * k) bm))) j"
    unfolding assms(2) ones using j(2) by (simp only: bit_mask_iff) simp
  then have "bit (take 8 (drop (8 * k) bm) ! (j div 8)) (j mod 8)"
    by (simp add: bit_le64)
  moreover have "j div 8 < 8" using j(2) by (simp add: div_less_iff_less_mult)
  moreover have "f div 8 = 8 * k + j div 8" "f mod 8 = j mod 8"
    using div_mult_self3 [of 8 "8 * k" j] mod_mult_self3 [of "8 * k" 8 j] by (simp_all add: j(1))
  ultimately show ?thesis using assms(1,4) by (simp add: bitmap_members_def)
qed

section \<open>Allocation\<close>

definition pmm_wf :: "'a pmm_state_scheme \<Rightarrow> bool" where
  "pmm_wf s \<longleftrightarrow> 8 dvd length (bitmap s) \<and> unat (bitmap_size_frames s) \<le> 8 * length (bitmap s) \<and>
     unat (bitmap_size_frames s) \<le> 2 ^ 52 \<and> memory_total_frame_count s \<noteq> 0"

definition used_frames :: "'a pmm_state_scheme \<Rightarrow> nat set" where
  "used_frames s = bitmap_members (bitmap s)"

text \<open>An aligned run of \<open>n\<close> free frames that starts at frame \<open>b\<close> and lies inside the bitmap.\<close>

definition free_run :: "'a pmm_state_scheme \<Rightarrow> nat \<Rightarrow> nat \<Rightarrow> nat \<Rightarrow> bool" where
  "free_run s step n b \<longleftrightarrow>
     step dvd b \<and> b + n \<le> unat (bitmap_size_frames s) \<and> {b..<b + n} \<inter> used_frames s = {}"

definition page_words :: "u64 \<Rightarrow> u64 set" where
  "page_words p = {a. \<exists>i<512. a = p + 8 * of_nat i}"

text \<open>The state after the run of \<open>n\<close> frames at \<open>b\<close> has been handed out.\<close>

definition pmm_frame :: "'a pmm_state_scheme \<Rightarrow> 'a pmm_state_scheme \<Rightarrow> bool" where
  "pmm_frame s s' \<longleftrightarrow>
     length (bitmap s') = length (bitmap s) \<and> bitmap_size_bytes s' = bitmap_size_bytes s \<and>
     bitmap_size_frames s' = bitmap_size_frames s \<and>
     memory_total_frame_count s' = memory_total_frame_count s \<and>
     pmm_state.more s' = pmm_state.more s"

definition marked :: "'a pmm_state_scheme \<Rightarrow> nat \<Rightarrow> nat \<Rightarrow> 'a pmm_state_scheme \<Rightarrow> bool" where
  "marked s b n s' \<longleftrightarrow>
     used_frames s' = used_frames s \<union> {b..<b + n} \<and> pmm_frame s s' \<and>
     (\<forall>a. phys_mem s' a = (if \<exists>f\<in>{b..<b + n}. a \<in> page_words (of_nat f * 4096) then 0 else phys_mem s a)) \<and>
     memory_used_frame_count s' = memory_used_frame_count s + of_nat n"

lemma pmm_frame_refl [simp]: "pmm_frame s s"
  by (simp add: pmm_frame_def)

lemma pmm_frame_trans: "pmm_frame s t \<Longrightarrow> pmm_frame t u \<Longrightarrow> pmm_frame s u"
  by (simp add: pmm_frame_def)

lemma pmm_wf_frame: "pmm_frame s s' \<Longrightarrow> pmm_wf s \<Longrightarrow> pmm_wf s'"
  by (simp add: pmm_frame_def pmm_wf_def)

lemma marked_0 [simp]: "marked s b 0 s"
  by (simp add: marked_def)

lemma marked_step:
  assumes "used_frames t = insert b (used_frames s)" and "pmm_frame s t"
    and "\<And>a. phys_mem t a = (if a \<in> page_words (of_nat b * 4096) then 0 else phys_mem s a)"
    and "memory_used_frame_count t = memory_used_frame_count s + 1"
    and "marked t (Suc b) n s'"
  shows "marked s b (Suc n) s'"
  unfolding marked_def
proof (intro conjI allI)
  show "used_frames s' = used_frames s \<union> {b..<b + Suc n}"
    using assms(1,5) by (auto simp: marked_def)
  show "pmm_frame s s'"
    using assms(2,5) pmm_frame_trans by (auto simp: marked_def)
  show "memory_used_frame_count s' = memory_used_frame_count s + of_nat (Suc n)"
    using assms(4,5) by (simp add: marked_def)
  fix a
  have "{b..<b + Suc n} = insert b {Suc b..<Suc b + n}" by auto
  then show "phys_mem s' a = (if \<exists>f\<in>{b..<b + Suc n}. a \<in> page_words (of_nat f * 4096) then 0 else phys_mem s a)"
    using assms(3,5) unfolding marked_def by simp
qed

lemma fold_zero:
  "fold (\<lambda>i m. m(p + 8 * of_nat i := 0)) [0..<n] m =
     (\<lambda>a. if \<exists>i<n. a = p + 8 * of_nat i then 0 else m a)"
  by (induction n) (auto simp: fun_eq_iff less_Suc_eq)

lemma pmm_zero_page_eq:
  "pmm_zero_page p s = s\<lparr>phys_mem := (\<lambda>a. if a \<in> page_words p then 0 else phys_mem s a)\<rparr>"
  using fold_zero [where p = p and n = 512 and m = "phys_mem s"]
  by (simp add: pmm_zero_page_def page_words_def algebra_simps)

lemma probe_loop_result:
  assumes "unat frames \<le> 8 * length bm" and "unat frames \<le> 2 ^ 52" and "i \<le> count"
    and "unat base + unat i \<le> unat frames" and "{unat base..<unat base + unat i} \<inter> bitmap_members bm = {}"
  shows "\<exists>r. probe_loop bm frames base count i i = Inr r \<and>
           (r = Some count \<longleftrightarrow> unat base + unat count \<le> unat frames \<and>
              {unat base..<unat base + unat count} \<inter> bitmap_members bm = {}) \<and>
           (r = None \<longrightarrow> unat frames < unat base + unat count)"
  using assms
proof (induction "unat count - unat i" arbitrary: i)
  case 0
  then have "i = count" by (simp add: word_le_nat_alt)
  with 0 show ?case by (subst probe_loop.simps) simp
next
  case (Suc d)
  then have lt: "i < count" "unat i < unat count" by (auto simp: word_less_nat_alt)
  have si: "unat (i + 1) = Suc (unat i)" using lt(1) by (rule unat_Suc_less)
  have bi: "unat (base + i) = unat base + unat i"
    using Suc.prems(2,4) by (intro unat_add_small) simp
  show ?case
  proof (cases "unat base + unat i = unat frames")
    case True
    then have "base + i \<ge> frames" using bi by (simp add: word_le_nat_alt)
    with lt True show ?thesis by (subst probe_loop.simps) simp
  next
    case False
    then have inr: "unat base + unat i < unat frames" "\<not> base + i \<ge> frames"
      using Suc.prems(4) bi by (auto simp: word_le_nat_alt)
    have cap: "unat (base + i) < 8 * length bm" using inr bi Suc.prems(1) by simp
    show ?thesis
    proof (cases "unat (base + i) \<in> bitmap_members bm")
      case True
      then have "unat base + unat i \<in> {unat base..<unat base + unat count} \<inter> bitmap_members bm"
        using lt bi by simp
      with True lt inr cap show ?thesis
        by (subst probe_loop.simps) (auto simp: get_bitmap_bit_eq disjoint_iff)
    next
      case free: False
      have "probe_loop bm frames base count i i = probe_loop bm frames base count (i + 1) (i + 1)"
        using lt inr cap free by (subst probe_loop.simps) (simp add: get_bitmap_bit_eq)
      moreover have "{unat base..<unat base + unat (i + 1)} \<inter> bitmap_members bm = {}"
        using Suc.prems(5) free bi by (auto simp: si atLeastLessThanSuc)
      ultimately show ?thesis
        using Suc.hyps(1) [of "i + 1"] Suc.hyps(2) Suc.prems inr lt
        by (simp add: si word_le_nat_alt)
    qed
  qed
qed

lemma mark_loop_marked:
  assumes "unat base + unat count \<le> 8 * length (bitmap s)" and "unat base + unat count < 2 ^ 64"
    and "i \<le> count"
  shows "\<exists>s'. mark_loop base count i s = Inr s' \<and> marked s (unat base + unat i) (unat count - unat i) s'"
  using assms
proof (induction "unat count - unat i" arbitrary: i s)
  case 0
  then have "i = count" by (simp add: word_le_nat_alt)
  then show ?case by (subst mark_loop.simps) (simp add: marked_def)
next
  case (Suc d)
  then have lt: "i < count" "unat i < unat count" by (auto simp: word_less_nat_alt)
  have si: "unat (i + 1) = Suc (unat i)" using lt(1) by (rule unat_Suc_less)
  have bi: "unat (base + i) = unat base + unat i"
    using Suc.prems(2) lt(2) by (intro unat_add_small) simp
  have cap: "unat (base + i) < 8 * length (bitmap s)" using bi lt Suc.prems(1) by simp
  from pmm_bits.set_law [OF cap] obtain bm where
    bm: "set_bitmap_bit (bitmap s) (base + i) = Inr bm" "length bm = length (bitmap s)"
      "bitmap_members bm = insert (unat base + unat i) (bitmap_members (bitmap s))"
    by (auto simp: bi)
  define t where "t = (let s1 = pmm_zero_page ((base + i) * 0x1000) (s\<lparr>bitmap := bm\<rparr>)
          in s1\<lparr>memory_used_frame_count := memory_used_frame_count s1 + 1\<rparr>)"
  have t: "t = s\<lparr>bitmap := bm,
      phys_mem := (\<lambda>a. if a \<in> page_words ((base + i) * 4096) then 0 else phys_mem s a),
      memory_used_frame_count := memory_used_frame_count s + 1\<rparr>"
    by (simp add: t_def pmm_zero_page_eq cong: if_cong)
  have step: "mark_loop base count i s = mark_loop base count (i + 1) t"
    using lt bm(1) by (subst mark_loop.simps) (simp add: t_def Let_def)
  have "\<exists>s'. mark_loop base count (i + 1) t = Inr s' \<and>
      marked t (unat base + unat (i + 1)) (unat count - unat (i + 1)) s'"
    using Suc.hyps(2) Suc.prems lt bm(2) si t
    by (intro Suc.hyps(1)) (auto simp: word_le_nat_alt)
  moreover have "unat count - Suc (unat i) = d" using Suc.hyps(2) by simp
  ultimately obtain s' where s': "mark_loop base count (i + 1) t = Inr s'"
    and m: "marked t (Suc (unat base + unat i)) d s'"
    by (auto simp: si)
  have "marked s (unat base + unat i) (Suc d) s'"
    using m bm(2,3) by (rule_tac marked_step [where t = t]) (auto simp: t used_frames_def pmm_frame_def)
  with s' step Suc.hyps(2) show ?case by auto
qed

lemma div_pad: "0 < k \<Longrightarrow> (q * k + (k - 1)) div k = (q :: nat)"
  by (intro div_nat_eqI) (auto simp: mult.commute)

lemma align_up_eq:
  assumes "0 < k"
  shows "(n + (k - 1)) div k * k = (if n mod k = 0 then n else n + (k - n mod k :: nat))"
proof (cases "n mod k = 0")
  case True
  then have "n = n div k * k" using div_mult_mod_eq [of n k] by simp
  with div_pad [OF assms, of "n div k"] True show ?thesis by metis
next
  case False
  have "n = n div k * k + n mod k" by simp
  then have "n + (k - 1) = (n mod k - 1) + Suc (n div k) * k" using False assms by simp
  moreover have "n mod k - 1 < k" using assms by (simp add: less_imp_diff_less)
  moreover have "(n mod k - 1 + Suc (n div k) * k) div k = Suc (n div k) + (n mod k - 1) div k"
    using assms by (subst div_mult_self1) simp_all
  ultimately have "(n + (k - 1)) div k = Suc (n div k)" by (simp only: div_less add_0_right)
  moreover have "Suc (n div k) * k = n + (k - n mod k)"
    using mod_less_divisor [OF assms, of n] div_mult_mod_eq [of n k] by (simp only: mult_Suc)
  ultimately show ?thesis using False by simp
qed

lemma next_base_step:
  assumes "unat base \<le> 2 ^ 52" and "0 < unat step" and "unat step \<le> 2 ^ 52"
  shows "unat (next_base base step + step) =
           (unat base + 64 + (unat step - 1)) div unat step * unat step"
proof -
  define n where "n = unat base + 64"
  define k where "k = unat step"
  have n: "unat (base + 64) = n"
    using assms(1) by (subst unat_add_small) (simp_all add: n_def)
  have r: "unat ((base + 64) mod step) = n mod k"
    by (simp add: unat_mod n k_def)
  have k: "0 < k" "k \<le> 2 ^ 52" "n \<le> 2 ^ 52 + 64" using assms by (simp_all add: k_def n_def)
  have "unat (next_base base step + step) = (if n mod k = 0 then n else n + (k - n mod k))"
  proof (cases "n mod k = 0")
    case True
    then have "(base + 64) mod step = 0" using r by (simp add: unat_eq_zero)
    then show ?thesis using True n by (simp add: next_base_def)
  next
    case False
    then have nz: "(base + 64) mod step \<noteq> 0" using r by (metis unat_0)
    have lt: "n mod k < k" using k(1) by simp
    have "unat (step - (base + 64) mod step) = k - n mod k"
      using lt r by (subst unat_sub) (simp_all add: word_le_nat_alt k_def)
    moreover have "n + (k - n mod k) < 2 ^ 64"
      using k(2,3) by simp
    ultimately have "unat (base + 64 + (step - (base + 64) mod step)) = n + (k - n mod k)"
      using n by (subst unat_add_small) simp_all
    moreover have "next_base base step + step = base + 64 + (step - (base + 64) mod step)"
      using nz by (simp add: next_base_def)
    ultimately show ?thesis using False by (simp only: if_False)
  qed
  also have "\<dots> = (n + (k - 1)) div k * k" using align_up_eq [OF k(1)] by simp
  finally show ?thesis by (simp only: n_def k_def)
qed

lemma align_up_ge:
  assumes "0 < k"
  shows "n \<le> (n + (k - 1)) div k * (k :: nat)"
proof -
  have "(n + (k - 1)) div k * k = (n + (k - 1)) - (n + (k - 1)) mod k"
    by (simp add: minus_mod_eq_div_mult)
  moreover have "(n + (k - 1)) mod k < k" using assms by simp
  ultimately show ?thesis by linarith
qed

lemma align_up_least:
  assumes "0 < k" and "k dvd b" and "n \<le> (b :: nat)"
  shows "(n + (k - 1)) div k * k \<le> b"
proof -
  obtain q where b: "b = q * k" using assms(2) by (metis dvd_def mult.commute)
  have "(n + (k - 1)) div k \<le> (q * k + (k - 1)) div k"
    using assms(3) b by (intro div_le_mono) simp
  also have "\<dots> = q" using assms(1) by (rule div_pad)
  finally show ?thesis using b mult_le_mono1 by metis
qed

text \<open>
  Bases skipped by the shortcut lie in a word of the bitmap whose frames are all in use, so no run
  can start there.
\<close>

lemma skipped_not_free:
  assumes wf: "pmm_wf s" and "0 < n" and "unat base < unat (bitmap_size_frames s)" and "base mod 64 = 0"
    and full: "bitmap64_get (bitmap s) (base div 64) = Inr 0xFFFFFFFFFFFFFFFF"
    and "unat base \<le> b" and "b < unat base + 64"
  shows "\<not> free_run s step n b"
proof -
  have b64: "unat base = 64 * unat (base div 64)"
  proof -
    have "unat base mod 64 = 0" using arg_cong [OF assms(4), of unat] by (simp add: unat_mod)
    then show ?thesis by (auto simp: unat_div)
  qed
  have "b \<in> bitmap_members (bitmap s)"
    using full assms(6,7) b64
    by (intro bitmap64_full [where k = "unat (base div 64)"])
       (auto simp: bitmap64_get_def split: if_splits)
  then show ?thesis using \<open>0 < n\<close> by (auto simp: free_run_def used_frames_def disjoint_iff)
qed

definition alloc_outcome ::
  "'a pmm_state_scheme \<Rightarrow> nat \<Rightarrow> nat \<Rightarrow> nat \<Rightarrow> u64 \<times> 'a pmm_state_scheme \<Rightarrow> bool" where
  "alloc_outcome s step n base r \<longleftrightarrow>
     (\<exists>b. fst r = of_nat b * 4096 \<and> base \<le> b \<and> free_run s step n b \<and>
        (\<forall>b'. base \<le> b' \<and> b' < b \<longrightarrow> \<not> free_run s step n b') \<and> marked s b n (snd r)) \<or>
     r = (0, s) \<and> (\<forall>b. base \<le> b \<longrightarrow> \<not> free_run s step n b)"

lemma alloc_outcome_skip:
  assumes "alloc_outcome s step n base' r" and "base \<le> base'"
    and "\<And>b. base \<le> b \<Longrightarrow> b < base' \<Longrightarrow> \<not> free_run s step n b"
  shows "alloc_outcome s step n base r"
  using assms unfolding alloc_outcome_def by (meson le_trans not_le)

lemma dvd_gap: "(k :: nat) dvd a \<Longrightarrow> k dvd b \<Longrightarrow> a < b \<Longrightarrow> a + k \<le> b"
  using dvd_imp_le [of k "b - a"] by auto

text \<open>What one iteration without a result establishes: the next base is aligned and no run starts before it.\<close>

definition advances :: "'a pmm_state_scheme \<Rightarrow> nat \<Rightarrow> nat \<Rightarrow> nat \<Rightarrow> nat \<Rightarrow> bool" where
  "advances s step n base base' \<longleftrightarrow>
     step dvd base' \<and> base < base' \<and> base' \<le> base + 2 ^ 52 + 64 \<and>
     (\<forall>b. base \<le> b \<and> b < base' \<longrightarrow> \<not> free_run s step n b)"

lemma advances_full:
  assumes "pmm_wf s" and "0 < n" and "0 < unat step" and "unat step \<le> 2 ^ 52"
    and "unat base < unat (bitmap_size_frames s)" and "base mod 64 = 0"
    and "bitmap64_get (bitmap s) (base div 64) = Inr 0xFFFFFFFFFFFFFFFF"
  shows "advances s (unat step) n (unat base) (unat (next_base base step + step))"
proof -
  define up where "up = (unat base + 64 + (unat step - 1)) div unat step * unat step"
  have "unat base \<le> 2 ^ 52" using assms(1,5) by (simp add: pmm_wf_def)
  then have nb: "unat (next_base base step + step) = up"
    unfolding up_def using assms(3,4) by (rule next_base_step)
  have ge: "unat base + 64 \<le> up" unfolding up_def using assms(3) by (rule align_up_ge)
  have "up \<le> unat base + 64 + (unat step - 1)" unfolding up_def by (rule div_times_less_eq_dividend)
  then have le: "up \<le> unat base + 2 ^ 52 + 64" using assms(4) by simp
  have "\<not> free_run s (unat step) n b" if "unat base \<le> b" "b < up" for b
  proof (cases "b < unat base + 64")
    case True
    show ?thesis by (rule skipped_not_free [OF assms(1,2,5,6,7) that(1) True])
  next
    case False
    then have "up \<le> b" if "unat step dvd b"
      unfolding up_def using assms(3) that by (intro align_up_least) simp_all
    with \<open>b < up\<close> show ?thesis by (auto simp: free_run_def)
  qed
  moreover have "unat step dvd up" by (simp add: up_def)
  ultimately show ?thesis unfolding advances_def nb using ge le by simp
qed

lemma advances_step:
  fixes base step :: u64
  assumes "unat base \<le> 2 ^ 52" and "0 < unat step" and "unat step \<le> 2 ^ 52"
    and "unat step dvd unat base" and "\<not> free_run s (unat step) n (unat base)"
  shows "advances s (unat step) n (unat base) (unat (base + step))"
proof -
  have us: "unat (base + step) = unat base + unat step"
    by (rule unat_add_small) (use assms(1,3) in simp)
  have "\<not> free_run s (unat step) n b" if "unat base \<le> b" "b < unat base + unat step" for b
    using that assms(5) dvd_gap [OF assms(4), of b] by (cases "b = unat base") (auto simp: free_run_def)
  then show ?thesis using assms(2-4) by (simp add: advances_def us)
qed

lemma bitmap64_get_ok:
  assumes "pmm_wf s" and "unat base < unat (bitmap_size_frames s)"
  shows "\<exists>w. bitmap64_get (bitmap s) (base div 64) = Inr w"
proof -
  obtain q where q: "length (bitmap s) = 8 * q" using assms(1) by (auto simp: pmm_wf_def elim: dvdE)
  then have "unat base div 64 < q"
    using assms by (simp add: pmm_wf_def div_less_iff_less_mult)
  with q show ?thesis by (simp add: bitmap64_get_def unat_div)
qed

lemma probe_loop_run:
  assumes "pmm_wf s" and "unat base < unat (bitmap_size_frames s)" and "unat step dvd unat base"
  shows "\<exists>r. probe_loop (bitmap s) (bitmap_size_frames s) base count 0 0 = Inr r \<and>
           (r = Some count \<longleftrightarrow> free_run s (unat step) (unat count) (unat base)) \<and>
           (r = None \<longrightarrow> unat (bitmap_size_frames s) < unat base + unat count)"
  using probe_loop_result [of "bitmap_size_frames s" "bitmap s" 0 count base] assms
  by (auto simp: pmm_wf_def free_run_def used_frames_def)

lemma alloc_loop_result:
  assumes wf: "pmm_wf s" and "0 < unat count" and "0 < unat step" and "unat step \<le> 2 ^ 52"
    and "unat step dvd unat base" and "unat base \<le> unat (bitmap_size_frames s) + 2 ^ 53"
    and "unat (bitmap_size_frames s) - unat base < fuel"
  shows "\<exists>r. alloc_loop fuel count step base s = Inr r \<and>
           alloc_outcome s (unat step) (unat count) (unat base) r"
  using assms(5-)
proof (induction fuel arbitrary: base)
  case 0
  then show ?case by simp
next
  case (Suc fuel)
  let ?fr = "free_run s (unat step) (unat count)"
  let ?ok = "\<lambda>base. alloc_outcome s (unat step) (unat count) (unat base)"
  have frames: "unat (bitmap_size_frames s) \<le> 2 ^ 52"
    "unat (bitmap_size_frames s) \<le> 8 * length (bitmap s)"
    using wf by (auto simp: pmm_wf_def)
  show ?case
  proof (cases "base < bitmap_size_frames s")
    case False
    then have "\<not> ?fr b" if "unat base \<le> b" for b
      using that assms(2) by (simp add: free_run_def word_less_nat_alt)
    with False show ?thesis by (simp add: alloc_outcome_def)
  next
    case True
    then have lt: "unat base < unat (bitmap_size_frames s)" by (simp add: word_less_nat_alt)
    have go: "\<exists>r. alloc_loop fuel count step base' s = Inr r \<and> ?ok base r"
      if "advances s (unat step) (unat count) (unat base) (unat base')" for base'
    proof -
      have "\<exists>r. alloc_loop fuel count step base' s = Inr r \<and> ?ok base' r"
        using that Suc.prems(3) lt frames(1) by (intro Suc.IH) (auto simp: advances_def)
      with that alloc_outcome_skip [where base' = "unat base'" and base = "unat base"]
      show ?thesis unfolding advances_def by (meson less_imp_le)
    qed
    obtain w where w: "bitmap64_get (bitmap s) (base div 64) = Inr w"
      using bitmap64_get_ok [OF wf lt] by auto
    show ?thesis
    proof (cases "base mod 64 = 0 \<and> w = 0xFFFFFFFFFFFFFFFF")
      case full: True
      then have "alloc_loop (Suc fuel) count step base s =
          alloc_loop fuel count step (next_base base step + step) s"
        using True w by simp
      with go [OF advances_full [OF wf assms(2-4) lt]] full w show ?thesis by metis
    next
      case nf: False
      obtain r where r: "probe_loop (bitmap s) (bitmap_size_frames s) base count 0 0 = Inr r"
        and some: "r = Some count \<longleftrightarrow> ?fr (unat base)"
        and none: "r = None \<longrightarrow> unat (bitmap_size_frames s) < unat base + unat count"
        using probe_loop_run [OF wf lt Suc.prems(1)] by blast
      have step1: "alloc_loop (Suc fuel) count step base s = (case r of
                None \<Rightarrow> Inr (0, s)
              | Some found \<Rightarrow>
                  if found = count then
                    bindE (mark_loop base count 0 s) (\<lambda>s'. Inr (base * 4096, s'))
                  else alloc_loop fuel count step (base + step) s)"
        using True w nf r by auto
      consider "r = None" | "r = Some count" | f where "r = Some f" "f \<noteq> count"
        by (cases r) auto
      then show ?thesis
      proof cases
        case 1
        then have "\<not> ?fr b" if "unat base \<le> b" for b
          using that none by (simp add: free_run_def)
        with 1 show ?thesis unfolding step1 by (simp add: alloc_outcome_def)
      next
        case 2
        then have fr: "?fr (unat base)" using some by simp
        then have "unat base + unat count \<le> 8 * length (bitmap s)" "unat base + unat count < 2 ^ 64"
          using frames by (simp_all add: free_run_def)
        from mark_loop_marked [OF this, of 0]
        obtain s' where s': "mark_loop base count 0 s = Inr s'" "marked s (unat base) (unat count) s'"
          by auto
        then have "?ok base (base * 4096, s')"
          unfolding alloc_outcome_def using fr by (intro disjI1 exI [of _ "unat base"]) auto
        with 2 s' show ?thesis unfolding step1 by simp
      next
        case 3
        then have "\<not> ?fr (unat base)" using some by simp
        then have "advances s (unat step) (unat count) (unat base) (unat (base + step))"
          using lt frames(1) Suc.prems(1) assms(3,4) by (intro advances_step) simp_all
        from go [OF this] 3 show ?thesis unfolding step1 by simp
      qed
    qed
  qed
qed

text \<open>Frame 0 is never handed out while the boot loader's mark on it stays, so 0 only means failure.\<close>

definition pmm_ok :: "'a pmm_state_scheme \<Rightarrow> bool" where
  "pmm_ok s \<longleftrightarrow> pmm_wf s \<and> 0 \<in> used_frames s"

definition align_step :: "u64 \<Rightarrow> nat" where
  "align_step alignment = (if unat alignment < 4096 then 1 else unat alignment div 4096)"

lemma align_step_pos: "0 < align_step alignment"
  by (simp add: align_step_def div_greater_zero_iff)

lemma marked_ok: "marked s b n s' \<Longrightarrow> pmm_ok s \<Longrightarrow> pmm_ok s'"
  using pmm_wf_frame by (auto simp: marked_def pmm_ok_def)

lemma pmm_allocate_outcome:
  assumes "pmm_wf s" and "count \<noteq> 0"
  shows "\<exists>r. pmm_allocate_frames count alignment s = Inr r \<and>
           alloc_outcome s (align_step alignment) (unat count) 0 r"
proof -
  define step where "step = (if alignment < 4096 then 4096 else alignment) div 4096"
  have st: "unat step = align_step alignment"
    by (simp add: step_def align_step_def unat_div word_less_nat_alt)
  have "unat step < 2 ^ 52"
    using unat_less_2p64 [of alignment] by (simp add: st align_step_def div_less_iff_less_mult)
  moreover have "0 < unat step" using align_step_pos st by simp
  moreover have "0 < unat count" using assms(2) by (simp add: unat_gt_0)
  ultimately have "\<exists>r. alloc_loop (Suc (unat (bitmap_size_frames s))) count step 0 s = Inr r \<and>
      alloc_outcome s (unat step) (unat count) (unat (0 :: u64)) r"
    using assms(1) by (intro alloc_loop_result) simp_all
  with assms st show ?thesis
    by (simp add: pmm_allocate_frames_def step_def [symmetric] pmm_wf_def)
qed

lemma free_run_nonzero:
  assumes "pmm_ok s" and "free_run s step n b" and "0 < n"
  shows "0 < b" "b < 2 ^ 52" "unat (of_nat b * 4096 :: u64) = b * 4096"
proof -
  show b0: "0 < b" using assms by (auto simp: free_run_def pmm_ok_def disjoint_iff)
  show b1: "b < 2 ^ 52" using assms by (auto simp: free_run_def pmm_ok_def pmm_wf_def)
  then show "unat (of_nat b * 4096 :: u64) = b * 4096"
    by (subst unat_mult_small) simp_all
qed

lemma free_run_addr_nonzero:
  assumes "pmm_ok s" and "free_run s step n b" and "0 < n"
  shows "of_nat b * 4096 \<noteq> (0 :: u64)"
  using free_run_nonzero [OF assms] by (metis mult_is_0 not_gr0 unat_0 zero_neq_numeral)

section \<open>Release\<close>

lemma free_loop_result:
  assumes "unat final_frame \<le> 8 * length (bitmap s)" and "i \<le> final_frame"
  shows "if {unat i..<unat final_frame} \<subseteq> used_frames s
         then \<exists>bm. free_loop i final_frame s = Inr (s\<lparr>bitmap := bm\<rparr>) \<and> length bm = length (bitmap s) \<and>
                bitmap_members bm = used_frames s - {unat i..<unat final_frame}
         else free_loop i final_frame s = Inl (Panic ''PMM: Double free detected'')"
  using assms
proof (induction "unat final_frame - unat i" arbitrary: i s)
  case 0
  then have "i = final_frame" by (simp add: word_le_nat_alt)
  then show ?case
    by (subst (1 2) free_loop.simps) (auto simp: used_frames_def intro!: exI [of _ "bitmap s"])
next
  case (Suc d)
  then have lt: "i < final_frame" "unat i < unat final_frame" by (auto simp: word_less_nat_alt)
  have si: "unat (i + 1) = Suc (unat i)" using lt(1) by (rule unat_Suc_less)
  have cap: "unat i < 8 * length (bitmap s)" using lt Suc.prems(1) by simp
  have split: "{unat i..<unat final_frame} = insert (unat i) {Suc (unat i)..<unat final_frame}"
    using lt(2) by auto
  show ?case
  proof (cases "unat i \<in> used_frames s")
    case False
    then have "free_loop i final_frame s = Inl (Panic ''PMM: Double free detected'')"
      using lt cap by (subst free_loop.simps) (simp add: get_bitmap_bit_eq used_frames_def)
    with False split show ?thesis by simp
  next
    case True
    from unset_bitmap_bit_eq [OF cap] obtain bm where
      bm: "unset_bitmap_bit (bitmap s) i = Inr bm" "length bm = length (bitmap s)"
        "bitmap_members bm = bitmap_members (bitmap s) - {unat i}" by auto
    have step: "free_loop i final_frame s = free_loop (i + 1) final_frame (s\<lparr>bitmap := bm\<rparr>)"
      using lt cap True bm(1) by (subst free_loop.simps) (simp add: get_bitmap_bit_eq used_frames_def)
    have us: "used_frames (s\<lparr>bitmap := bm\<rparr>) = used_frames s - {unat i}"
      using bm(3) by (simp add: used_frames_def)
    have sub: "{Suc (unat i)..<unat final_frame} \<subseteq> used_frames s - {unat i} \<longleftrightarrow>
        {unat i..<unat final_frame} \<subseteq> used_frames s"
      using True unfolding split by auto
    have diff: "used_frames s - {unat i} - {Suc (unat i)..<unat final_frame} =
        used_frames s - {unat i..<unat final_frame}" unfolding split by auto
    show ?thesis
      using Suc.hyps(1) [of "i + 1" "s\<lparr>bitmap := bm\<rparr>"] Suc.hyps(2) Suc.prems(1) lt(2) bm(2)
      unfolding step us si sub diff by (simp add: word_le_nat_alt si cong: if_cong)
  qed
qed

text \<open>The frames of the \<open>count\<close> pages that start at a physical address.\<close>

definition frame_range :: "u64 \<Rightarrow> u64 \<Rightarrow> nat set" where
  "frame_range start_address count = {unat start_address div 4096..<unat start_address div 4096 + unat count}"

lemma pmm_free_frames_result:
  assumes "pmm_wf s" and "unat start_address div 4096 + unat count < 2 ^ 64" and "0 < unat count"
  shows "if unat start_address div 4096 + unat count > unat (bitmap_size_frames s)
         then pmm_free_frames start_address count s =
                Inl (Panic ''PMM: Invalid physical address out of range'')
         else if frame_range start_address count \<subseteq> used_frames s
         then \<exists>bm. pmm_free_frames start_address count s = Inr (s\<lparr>bitmap := bm\<rparr>) \<and>
                length bm = length (bitmap s) \<and>
                bitmap_members bm = used_frames s - frame_range start_address count
         else pmm_free_frames start_address count s = Inl (Panic ''PMM: Double free detected'')"
proof -
  have ff: "unat (start_address div 4096 + count) = unat start_address div 4096 + unat count"
    using assms(2) by (subst unat_add_small) (simp_all add: unat_div)
  have cnt: "count \<noteq> 0" using assms(3) by auto
  show ?thesis
  proof (cases "unat start_address div 4096 + unat count > unat (bitmap_size_frames s)")
    case True
    then show ?thesis using cnt by (simp add: pmm_free_frames_def word_less_nat_alt ff)
  next
    case False
    then have "pmm_free_frames start_address count s =
        free_loop (start_address div 4096) (start_address div 4096 + count) s"
      using cnt by (simp add: pmm_free_frames_def word_less_nat_alt ff Let_def)
    moreover have "unat (start_address div 4096 + count) \<le> 8 * length (bitmap s)"
      using False assms(1) by (simp add: ff pmm_wf_def)
    moreover have "start_address div 4096 \<le> start_address div 4096 + count"
      by (simp add: word_le_nat_alt ff unat_div)
    ultimately show ?thesis
      using False free_loop_result [of "start_address div 4096 + count" s "start_address div 4096"]
      by (simp add: ff unat_div frame_range_def cong: if_cong)
  qed
qed

section \<open>The contract towards the other components\<close>

fun alloc_all :: "(u64 \<Rightarrow> u64 \<Rightarrow> 's \<Rightarrow> (u64 \<times> 's) res) \<Rightarrow> (u64 \<times> u64) list \<Rightarrow> 's \<Rightarrow> (u64 list \<times> 's) res" where
  "alloc_all alloc [] s = Inr ([], s)"
| "alloc_all alloc ((n, a) # rs) s =
     bindE (alloc n a s) (\<lambda>(p, s1). bindE (alloc_all alloc rs s1) (\<lambda>(ps, s2). Inr (p # ps, s2)))"

fun release_all :: "(u64 \<Rightarrow> u64 \<Rightarrow> 's \<Rightarrow> 's res) \<Rightarrow> (u64 \<times> u64) list \<Rightarrow> 's \<Rightarrow> 's res" where
  "release_all release [] s = Inr s"
| "release_all release ((p, n) # ps) s = bindE (release p n s) (release_all release ps)"

definition granted :: "u64 \<Rightarrow> u64 \<Rightarrow> nat set" where
  "granted p n = (if p = 0 then {} else frame_range p n)"

locale frame_allocator =
  fixes alloc :: "u64 \<Rightarrow> u64 \<Rightarrow> 's \<Rightarrow> (u64 \<times> 's) res"
    and release :: "u64 \<Rightarrow> u64 \<Rightarrow> 's \<Rightarrow> 's res"
    and inv :: "'s \<Rightarrow> bool"
    and used :: "'s \<Rightarrow> nat set"
    and cap :: "'s \<Rightarrow> nat"
  assumes alloc_law: "inv s \<Longrightarrow> n \<noteq> 0 \<Longrightarrow>
      \<exists>p s'. alloc n a s = Inr (p, s') \<and> inv s' \<and> cap s' = cap s \<and>
        granted p n \<inter> used s = {} \<and> used s' = used s \<union> granted p n \<and> granted p n \<subseteq> {1..<cap s} \<and>
        (p = 0 \<longrightarrow> s' = s)"
    and release_law: "inv s \<Longrightarrow> n \<noteq> 0 \<Longrightarrow> p \<noteq> 0 \<Longrightarrow> granted p n \<subseteq> used s \<Longrightarrow> granted p n \<subseteq> {1..<cap s} \<Longrightarrow>
      \<exists>s'. release p n s = Inr s' \<and> inv s' \<and> cap s' = cap s \<and> used s' = used s - granted p n"
begin

lemma alloc_all_law:
  assumes "inv s" and "\<forall>(n, a)\<in>set rs. n \<noteq> 0"
  shows "\<exists>ps s'. alloc_all alloc rs s = Inr (ps, s') \<and> inv s' \<and> cap s' = cap s \<and> length ps = length rs \<and>
    (\<forall>i<length rs. granted (ps ! i) (fst (rs ! i)) \<inter> used s = {} \<and>
       granted (ps ! i) (fst (rs ! i)) \<subseteq> {1..<cap s} \<and>
       (\<forall>j<i. granted (ps ! i) (fst (rs ! i)) \<inter> granted (ps ! j) (fst (rs ! j)) = {})) \<and>
    used s' = used s \<union> (\<Union>i<length rs. granted (ps ! i) (fst (rs ! i)))"
  using assms
proof (induction rs arbitrary: s)
  case Nil
  then show ?case by simp
next
  case (Cons r rs)
  obtain n a where r: "r = (n, a)" by (cases r)
  from Cons.prems r alloc_law [of s n a] obtain p s1 where
    p: "alloc n a s = Inr (p, s1)" "inv s1" "cap s1 = cap s" "granted p n \<inter> used s = {}"
      "used s1 = used s \<union> granted p n" "granted p n \<subseteq> {1..<cap s}" by auto
  from Cons.IH [OF p(2)] Cons.prems(2) obtain ps s' where
    ps: "alloc_all alloc rs s1 = Inr (ps, s')" "inv s'" "cap s' = cap s" "length ps = length rs"
      "\<forall>i<length rs. granted (ps ! i) (fst (rs ! i)) \<inter> used s1 = {} \<and>
         granted (ps ! i) (fst (rs ! i)) \<subseteq> {1..<cap s} \<and>
         (\<forall>j<i. granted (ps ! i) (fst (rs ! i)) \<inter> granted (ps ! j) (fst (rs ! j)) = {})"
      "used s' = used s1 \<union> (\<Union>i<length rs. granted (ps ! i) (fst (rs ! i)))"
    using p(3) by auto
  have "(\<Union>i<length (r # rs). granted ((p # ps) ! i) (fst ((r # rs) ! i))) =
      granted p n \<union> (\<Union>i<length rs. granted (ps ! i) (fst (rs ! i)))"
    by (simp add: r lessThan_Suc_eq_insert_0)
  moreover have "granted ((p # ps) ! i) (fst ((r # rs) ! i)) \<inter> used s = {} \<and>
       granted ((p # ps) ! i) (fst ((r # rs) ! i)) \<subseteq> {1..<cap s} \<and>
       (\<forall>j<i. granted ((p # ps) ! i) (fst ((r # rs) ! i)) \<inter> granted ((p # ps) ! j) (fst ((r # rs) ! j)) = {})"
    if "i < length (r # rs)" for i
  proof (cases i)
    case 0
    then show ?thesis using p r by simp
  next
    case (Suc k)
    then have "granted (ps ! k) (fst (rs ! k)) \<inter> used s1 = {}" using ps(5) that by simp
    with Suc that ps(5) p(5) r show ?thesis
      by (simp add: All_less_Suc2 Int_Un_distrib)
  qed
  ultimately show ?case using p(1,5) ps r by (auto simp: Un_assoc)
qed

lemma release_all_law:
  assumes "inv s" and "\<forall>(p, n)\<in>set ps. p \<noteq> 0 \<and> n \<noteq> 0 \<and> granted p n \<subseteq> used s \<inter> {1..<cap s}"
    and "\<forall>i<length ps. \<forall>j<i. granted (fst (ps ! i)) (snd (ps ! i)) \<inter> granted (fst (ps ! j)) (snd (ps ! j)) = {}"
  shows "\<exists>s'. release_all release ps s = Inr s' \<and> inv s' \<and> cap s' = cap s \<and>
    used s' = used s - (\<Union>(p, n)\<in>set ps. granted p n)"
  using assms
proof (induction ps arbitrary: s)
  case Nil
  then show ?case by simp
next
  case (Cons x ps)
  obtain p n where x: "x = (p, n)" by (cases x)
  with Cons.prems release_law [of s n p] obtain s1 where
    s1: "release p n s = Inr s1" "inv s1" "cap s1 = cap s" "used s1 = used s - granted p n" by auto
  have "granted q m \<subseteq> used s1 \<inter> {1..<cap s1}" if "(q, m) \<in> set ps" for q m
  proof -
    from that obtain i where "i < length ps" "ps ! i = (q, m)" by (auto simp: in_set_conv_nth)
    then have "granted q m \<inter> granted p n = {}"
      using Cons.prems(3) [rule_format, of "Suc i" 0] x by simp
    moreover have "granted q m \<subseteq> used s \<inter> {1..<cap s}" using Cons.prems(2) that by auto
    ultimately show ?thesis unfolding s1(3,4) by blast
  qed
  then have "\<forall>(q, m)\<in>set ps. q \<noteq> 0 \<and> m \<noteq> 0 \<and> granted q m \<subseteq> used s1 \<inter> {1..<cap s1}"
    using Cons.prems(2) by auto
  moreover have "\<forall>i<length ps. \<forall>j<i. granted (fst (ps ! i)) (snd (ps ! i)) \<inter> granted (fst (ps ! j)) (snd (ps ! j)) = {}"
    using Cons.prems(3) by (simp add: All_less_Suc2)
  ultimately obtain s' where "release_all release ps s1 = Inr s'" "inv s'" "cap s' = cap s"
    "used s' = used s1 - (\<Union>(p, n)\<in>set ps. granted p n)"
    using Cons.IH [OF s1(2)] s1(3) by auto
  with s1 x show ?case by auto
qed

end

lemma frame_range_page:
  assumes "unat p = b * 4096"
  shows "frame_range p n = {b..<b + unat n}"
  using assms by (simp add: frame_range_def)

lemma pmm_alloc_law:
  assumes "pmm_ok s" and "n \<noteq> 0"
  shows "\<exists>p s'. pmm_allocate_frames n a s = Inr (p, s') \<and> pmm_ok s' \<and>
        unat (bitmap_size_frames s') = unat (bitmap_size_frames s) \<and>
        granted p n \<inter> used_frames s = {} \<and> used_frames s' = used_frames s \<union> granted p n \<and>
        granted p n \<subseteq> {1..<unat (bitmap_size_frames s)} \<and> (p = 0 \<longrightarrow> s' = s)"
proof -
  have n: "0 < unat n" using assms(2) by (simp add: unat_gt_0)
  from assms pmm_allocate_outcome [of s n a] obtain r where
    r: "pmm_allocate_frames n a s = Inr r" "alloc_outcome s (align_step a) (unat n) 0 r"
    by (auto simp: pmm_ok_def)
  show ?thesis
  proof (cases "r = (0, s)")
    case True
    then show ?thesis using r(1) assms(1) by (simp add: granted_def)
  next
    case False
    then obtain b where b: "fst r = of_nat b * 4096" "free_run s (align_step a) (unat n) b"
        "marked s b (unat n) (snd r)"
      using r(2) by (auto simp: alloc_outcome_def)
    note nz = free_run_nonzero [OF assms(1) b(2) n]
    have p0: "fst r \<noteq> 0" using free_run_addr_nonzero [OF assms(1) b(2) n] b(1) by simp
    then have "granted (fst r) n = {b..<b + unat n}"
      using nz(3) b(1) by (simp add: granted_def frame_range_page)
    then show ?thesis
      using r(1) b(2,3) nz(1) p0 marked_ok [OF b(3) assms(1)]
      by (cases r) (auto simp: free_run_def marked_def pmm_frame_def)
  qed
qed

lemma pmm_release_law:
  assumes "pmm_ok s" and "n \<noteq> 0" and "p \<noteq> 0" and "granted p n \<subseteq> used_frames s"
    and "granted p n \<subseteq> {1..<unat (bitmap_size_frames s)}"
  shows "\<exists>s'. pmm_free_frames p n s = Inr s' \<and> pmm_ok s' \<and>
        unat (bitmap_size_frames s') = unat (bitmap_size_frames s) \<and>
        used_frames s' = used_frames s - granted p n"
proof -
  have n: "0 < unat n" using assms(2) by (simp add: unat_gt_0)
  have g: "granted p n = frame_range p n" using assms(3) by (simp add: granted_def)
  have "unat p div 4096 + unat n - 1 \<in> granted p n" using n unfolding g frame_range_def by simp
  then have le: "unat p div 4096 + unat n \<le> unat (bitmap_size_frames s)" using assms(5) by force
  have wf: "pmm_wf s" using assms(1) by (simp add: pmm_ok_def)
  have "unat p div 4096 + unat n < 2 ^ 64" using le wf by (simp add: pmm_wf_def)
  from pmm_free_frames_result [OF wf this n] le assms(4) g
  obtain bm where bm: "pmm_free_frames p n s = Inr (s\<lparr>bitmap := bm\<rparr>)" "length bm = length (bitmap s)"
    "bitmap_members bm = used_frames s - granted p n" by auto
  moreover have "0 \<notin> granted p n" using assms(5) by auto
  ultimately show ?thesis
    using assms(1) by (simp add: pmm_ok_def pmm_wf_def used_frames_def)
qed

interpretation pmm_alloc: frame_allocator pmm_allocate_frames pmm_free_frames pmm_ok used_frames
  "\<lambda>s. unat (bitmap_size_frames s)"
  by unfold_locales (rule pmm_alloc_law, assumption+, rule pmm_release_law, assumption+)

section \<open>Properties\<close>

text \<open>A machine with 64 frames of which only frame 0 is in use.\<close>

definition pmm_small :: pmm_state where
  "pmm_small = \<lparr>bitmap = 1 # replicate 7 0, bitmap_size_bytes = 8, bitmap_size_frames = 64,
     memory_total_frame_count = 64, memory_used_frame_count = 1, phys_mem = (\<lambda>_. 7)\<rparr>"

lemma pmm_small_frames: "bitmap_size_frames pmm_small = 64" "length (bitmap pmm_small) = 8"
  by (simp_all add: pmm_small_def)

lemma pmm_small_wf: "pmm_wf pmm_small"
  by (simp add: pmm_wf_def pmm_small_frames) (simp add: pmm_small_def)

lemma bitmap_members_first_byte: "bitmap_members (b # replicate k 0) = {f. f < 8 \<and> bit b f}"
proof -
  have "f \<in> bitmap_members (b # replicate k 0) \<longleftrightarrow> f < 8 \<and> bit b f" for f
  proof (cases "f < 8")
    case True
    then show ?thesis by (simp add: bitmap_members_def)
  next
    case False
    then have "f div 8 = Suc ((f - 8) div 8)" by (simp add: le_div_geq)
    with False show ?thesis by (auto simp: bitmap_members_def)
  qed
  then show ?thesis by blast
qed

lemma pmm_small_used: "used_frames pmm_small = {0}"
  by (auto simp: used_frames_def pmm_small_def bitmap_members_first_byte bit_1_iff
      simp del: replicate.simps)

lemma pmm_small_ok: "pmm_ok pmm_small"
  by (simp add: pmm_ok_def pmm_small_wf pmm_small_used)

text \<open>C1: on a well-formed bitmap with frame 0 in use, \<^verbatim>\<open>pmm_allocate_frames\<close> always returns. It
  returns the page-aligned address of the lowest run of \<open>count\<close> free frames at the requested
  alignment, with those frames (and no others) marked used, their memory zeroed and all other
  memory unchanged; if there is no such run it returns 0 and changes nothing.\<close>

theorem pmm_allocate_frames_correct:
  assumes "pmm_ok s" and "count \<noteq> 0"
  shows "\<exists>p s'. pmm_allocate_frames count alignment s = Inr (p, s') \<and>
     (if \<exists>b. free_run s (align_step alignment) (unat count) b
      then \<exists>b. unat p = b * 4096 \<and> p \<noteq> 0 \<and> free_run s (align_step alignment) (unat count) b \<and>
             (\<forall>b'<b. \<not> free_run s (align_step alignment) (unat count) b') \<and>
             marked s b (unat count) s'
      else p = 0 \<and> s' = s)"
proof -
  have n: "0 < unat count" using assms(2) by (simp add: unat_gt_0)
  from assms pmm_allocate_outcome [of s count alignment] obtain r where
    r: "pmm_allocate_frames count alignment s = Inr r" "alloc_outcome s (align_step alignment) (unat count) 0 r"
    by (auto simp: pmm_ok_def)
  show ?thesis
  proof (cases "\<exists>b. free_run s (align_step alignment) (unat count) b")
    case True
    then obtain b where b: "fst r = of_nat b * 4096" "free_run s (align_step alignment) (unat count) b"
        "\<forall>b'<b. \<not> free_run s (align_step alignment) (unat count) b'" "marked s b (unat count) (snd r)"
      using r(2) unfolding alloc_outcome_def by auto
    note nz = free_run_nonzero [OF assms(1) b(2) n]
    have "fst r \<noteq> 0" using free_run_addr_nonzero [OF assms(1) b(2) n] b(1) by simp
    with b nz(3) True r(1) show ?thesis by (cases r) auto
  next
    case False
    then have "r = (0, s)" using r(2) unfolding alloc_outcome_def by blast
    with False r(1) show ?thesis by simp
  qed
qed

theorem pmm_allocate_frames_correct_witness:
  "\<exists>p s'. pmm_allocate_frames 2 0x2000 pmm_small = Inr (p, s') \<and>
     (if \<exists>b. free_run pmm_small 2 2 b
      then \<exists>b. unat p = b * 4096 \<and> p \<noteq> 0 \<and> free_run pmm_small 2 2 b \<and>
             (\<forall>b'<b. \<not> free_run pmm_small 2 2 b') \<and> marked pmm_small b 2 s'
      else p = 0 \<and> s' = pmm_small)"
proof -
  have "align_step 0x2000 = 2" "unat (2 :: u64) = 2" by (simp_all add: align_step_def)
  with pmm_allocate_frames_correct [OF pmm_small_ok, of 2 "0x2000"] show ?thesis by (simp only:) simp
qed

text \<open>C27: \<^verbatim>\<open>pmm_free_frames\<close> on a range whose end does not wrap around panics when the range passes
  the end of the bitmap, panics when a frame of it is already free, and otherwise clears exactly
  the bits of the range and touches nothing else (the count of used frames included).\<close>

theorem pmm_free_frames_correct:
  assumes "pmm_wf s" and "unat start_address div 4096 + unat count < 2 ^ 64" and "count \<noteq> 0"
  shows "if unat start_address div 4096 + unat count > unat (bitmap_size_frames s)
         then pmm_free_frames start_address count s =
                Inl (Panic ''PMM: Invalid physical address out of range'')
         else if frame_range start_address count \<subseteq> used_frames s
         then \<exists>bm. pmm_free_frames start_address count s = Inr (s\<lparr>bitmap := bm\<rparr>) \<and>
                length bm = length (bitmap s) \<and>
                bitmap_members bm = used_frames s - frame_range start_address count
         else pmm_free_frames start_address count s = Inl (Panic ''PMM: Double free detected'')"
  using assms by (intro pmm_free_frames_result) (simp_all add: unat_gt_0)

theorem pmm_free_frames_correct_witness:
  "pmm_free_frames 0x5000 3 pmm_small = Inl (Panic ''PMM: Double free detected'')"
proof -
  have "\<not> frame_range 0x5000 3 \<subseteq> used_frames pmm_small"
    unfolding frame_range_def pmm_small_used by (rule notI, drule subsetD [where c = 6]) simp_all
  with pmm_free_frames_correct [OF pmm_small_wf, of "0x5000" 3] show ?thesis
    by (simp add: pmm_small_frames)
qed

text \<open>C15: frames handed out by any sequence of allocations never overlap: every granted run is
  disjoint from the frames in use before and from every earlier run, lies inside the bitmap, and
  the frames in use afterwards are exactly the old ones and the granted ones.\<close>

theorem pmm_allocations_disjoint:
  assumes "pmm_ok s" and "\<forall>(n, a)\<in>set rs. n \<noteq> 0"
  shows "\<exists>ps s'. alloc_all pmm_allocate_frames rs s = Inr (ps, s') \<and> pmm_ok s' \<and> length ps = length rs \<and>
    (\<forall>i<length rs. granted (ps ! i) (fst (rs ! i)) \<inter> used_frames s = {} \<and>
       granted (ps ! i) (fst (rs ! i)) \<subseteq> {1..<unat (bitmap_size_frames s)} \<and>
       (\<forall>j<i. granted (ps ! i) (fst (rs ! i)) \<inter> granted (ps ! j) (fst (rs ! j)) = {})) \<and>
    used_frames s' = used_frames s \<union> (\<Union>i<length rs. granted (ps ! i) (fst (rs ! i)))"
  using pmm_alloc.alloc_all_law [OF assms] by blast

theorem pmm_allocations_disjoint_witness:
  "\<exists>ps s'. alloc_all pmm_allocate_frames [(2, 0), (3, 0)] pmm_small = Inr (ps, s') \<and> pmm_ok s' \<and>
     granted (ps ! 1) 3 \<inter> granted (ps ! 0) 2 = {} \<and>
     used_frames s' = {0} \<union> granted (ps ! 0) 2 \<union> granted (ps ! 1) 3"
proof -
  have ne: "\<forall>(n, a)\<in>set [(2 :: u64, 0 :: u64), (3, 0)]. n \<noteq> 0" by simp
  have two: "{..<Suc (Suc 0)} = {0, Suc 0}" by auto
  from pmm_allocations_disjoint [OF pmm_small_ok ne] show ?thesis
    by (simp add: pmm_small_used All_less_Suc2 two Un_assoc del: alloc_all.simps) blast
qed

text \<open>C29: freeing what was just allocated succeeds and gives back the same set of used frames, and
  freeing it a second time panics.\<close>

theorem pmm_alloc_free_roundtrip:
  assumes "pmm_ok s" and "count \<noteq> 0" and "pmm_allocate_frames count alignment s = Inr (p, s1)" and "p \<noteq> 0"
  shows "\<exists>s2. pmm_free_frames p count s1 = Inr s2 \<and> pmm_ok s2 \<and> used_frames s2 = used_frames s \<and>
           pmm_free_frames p count s2 = Inl (Panic ''PMM: Double free detected'')"
proof -
  from pmm_alloc_law [OF assms(1,2), of alignment] assms(3) have
    a: "pmm_ok s1" "unat (bitmap_size_frames s1) = unat (bitmap_size_frames s)"
      "granted p count \<inter> used_frames s = {}" "used_frames s1 = used_frames s \<union> granted p count"
      "granted p count \<subseteq> {1..<unat (bitmap_size_frames s)}" by auto
  then have "used_frames s1 - granted p count = used_frames s" by blast
  with pmm_release_law [OF a(1) assms(2,4)] a obtain s2 where
    s2: "pmm_free_frames p count s1 = Inr s2" "pmm_ok s2"
      "unat (bitmap_size_frames s2) = unat (bitmap_size_frames s)" "used_frames s2 = used_frames s"
    by auto
  have n: "0 < unat count" using assms(2) by (simp add: unat_gt_0)
  have g: "granted p count = frame_range p count" using assms(4) by (simp add: granted_def)
  have last: "unat p div 4096 + unat count - 1 \<in> granted p count" using n unfolding g frame_range_def by simp
  then have le: "unat p div 4096 + unat count \<le> unat (bitmap_size_frames s)" using a(5) by force
  have wf: "pmm_wf s2" using s2(2) by (simp add: pmm_ok_def)
  have lt: "unat p div 4096 + unat count < 2 ^ 64" using le s2(3) wf by (simp add: pmm_wf_def)
  have "\<not> frame_range p count \<subseteq> used_frames s2" using last a(3) s2(4) unfolding g by blast
  moreover have "\<not> unat (bitmap_size_frames s2) < unat p div 4096 + unat count" using le s2(3) by simp
  ultimately have "pmm_free_frames p count s2 = Inl (Panic ''PMM: Double free detected'')"
    using pmm_free_frames_result [OF wf lt n] by (simp only: if_False)
  with s2 show ?thesis by blast
qed

theorem pmm_alloc_free_roundtrip_witness:
  "\<exists>p s1 s2. pmm_allocate_frames 2 0 pmm_small = Inr (p, s1) \<and> p \<noteq> 0 \<and> pmm_free_frames p 2 s1 = Inr s2 \<and>
     used_frames s2 = {0} \<and> pmm_free_frames p 2 s2 = Inl (Panic ''PMM: Double free detected'')"
proof -
  have "free_run pmm_small 1 2 1" by (simp add: free_run_def pmm_small_used pmm_small_frames)
  moreover obtain r where r: "pmm_allocate_frames 2 0 pmm_small = Inr r" "alloc_outcome pmm_small 1 2 0 r"
    using pmm_allocate_outcome [OF pmm_small_wf, of 2 0] by (auto simp: align_step_def)
  ultimately obtain b where "fst r = of_nat b * 4096" "free_run pmm_small 1 2 b"
    by (auto simp: alloc_outcome_def)
  with free_run_addr_nonzero [OF pmm_small_ok, of 1 2 b] have "fst r \<noteq> 0" by simp
  moreover have "pmm_allocate_frames 2 0 pmm_small = Inr (fst r, snd r)" using r(1) by simp
  moreover have "(2 :: u64) \<noteq> 0" by simp
  ultimately show ?thesis
    using pmm_alloc_free_roundtrip [OF pmm_small_ok] pmm_small_used by metis
qed

end
