(* ===== verification/Vmm.thy ===== *)
theory Vmm
  imports Pmm
begin

text \<open>
  The virtual memory manager, \<^verbatim>\<open>memory/vmm.c\<close>: four levels of page tables in physical memory, reached
  through the direct map, with creation of missing tables on the way. A page-table entry is the raw
  64-bit word; the bit-fields of \<^verbatim>\<open>page_table_entry_bits\<close> are read and written as slices of it. The
  translation look-aside buffer is not part of the state, so \<^verbatim>\<open>invlpg\<close> has no counterpart. The two
  functions that call back into the virtual memory areas, \<^verbatim>\<open>vmm_page_fault_callback\<close> and
  \<^verbatim>\<open>vmm_pin_pages\<close>, are in theory \<^verbatim>\<open>Vma\<close>.
\<close>

section \<open>Definitions\<close>

record vmm_state = pmm_state +
  PML4 :: u64

text \<open>A bit-field of \<open>n\<close> bits that starts at bit \<open>lo\<close>.\<close>

definition bf_get :: "nat \<Rightarrow> nat \<Rightarrow> u64 \<Rightarrow> u64" where
  "bf_get lo n w = take_bit n (drop_bit lo w)"

definition bf_set :: "nat \<Rightarrow> nat \<Rightarrow> u64 \<Rightarrow> u64 \<Rightarrow> u64" where
  "bf_set lo n v w = (w AND NOT (push_bit lo (mask n))) OR push_bit lo (take_bit n v)"

definition pte_present :: "u64 \<Rightarrow> u64" where "pte_present e = bf_get 0 1 e"
definition pte_writeable :: "u64 \<Rightarrow> u64" where "pte_writeable e = bf_get 1 1 e"
definition pte_huge_page :: "u64 \<Rightarrow> u64" where "pte_huge_page e = bf_get 7 1 e"
definition pte_physical_address :: "u64 \<Rightarrow> u64" where "pte_physical_address e = bf_get 12 40 e"

text \<open>Memory access through the direct map, by virtual address.\<close>

definition mem_rd :: "u64 \<Rightarrow> 'a pmm_state_scheme \<Rightarrow> u64" where
  "mem_rd v s = phys_mem s (v - DIRECT_MAP_BASE)"

definition mem_wr :: "u64 \<Rightarrow> u64 \<Rightarrow> 'a pmm_state_scheme \<Rightarrow> 'a pmm_state_scheme" where
  "mem_wr v x s = s\<lparr>phys_mem := (phys_mem s)(v - DIRECT_MAP_BASE := x)\<rparr>"

text \<open>The address of \<^verbatim>\<open>table->entries[index]\<close>.\<close>

definition entry_at :: "u64 \<Rightarrow> u64 \<Rightarrow> u64" where
  "entry_at table index = table + 8 * index"

definition vmm_init :: "boot_info \<Rightarrow> 'a vmm_state_scheme \<Rightarrow> 'a vmm_state_scheme" where
  "vmm_init bi s = s\<lparr>PML4 := bi_PML4 bi + DIRECT_MAP_BASE\<rparr>"

definition vmm_walk_and_crate_next_table ::
  "u64 \<Rightarrow> u64 \<Rightarrow> 'a vmm_state_scheme \<Rightarrow> (u64 \<times> 'a vmm_state_scheme) res" where
  "vmm_walk_and_crate_next_table table index s =
     (if pte_present (mem_rd (entry_at table index) s) = 0 then
        bindE (pmm_allocate_frames 1 4096 s) (\<lambda>(next_table_p, s1).
          let e = mem_rd (entry_at table index) s1
          in Inr (next_table_p + DIRECT_MAP_BASE,
                  mem_wr (entry_at table index)
                    (bf_set 12 40 (drop_bit 12 next_table_p) (bf_set 2 1 1 (bf_set 1 1 1 (bf_set 0 1 1 e)))) s1))
      else Inr (push_bit 12 (pte_physical_address (mem_rd (entry_at table index) s)) + DIRECT_MAP_BASE, s))"

definition PML4_index :: "u64 \<Rightarrow> u64" where "PML4_index v_addr = drop_bit 39 v_addr AND 0x1FF"
definition PDPT_index :: "u64 \<Rightarrow> u64" where "PDPT_index v_addr = drop_bit 30 v_addr AND 0x1FF"
definition PD_index :: "u64 \<Rightarrow> u64" where "PD_index v_addr = drop_bit 21 v_addr AND 0x1FF"
definition PT_index :: "u64 \<Rightarrow> u64" where "PT_index v_addr = drop_bit 12 v_addr AND 0x1FF"

text \<open>The flag bits both kinds of mapping set, in the order of the code.\<close>

definition set_common_flags :: "u64 \<Rightarrow> u64 \<Rightarrow> u64" where
  "set_common_flags flags e =
     bf_set 4 1 (drop_bit 3 (flags AND 0x8)) (bf_set 3 1 (drop_bit 2 (flags AND 0x4))
       (bf_set 2 1 (drop_bit 1 (flags AND 0x2)) (bf_set 1 1 (flags AND 0x1) (bf_set 0 1 1 e))))"

definition huge_entry :: "u64 \<Rightarrow> u64 \<Rightarrow> u64 \<Rightarrow> u64" where
  "huge_entry flags p_addr e =
     bf_set 12 40 (drop_bit 12 p_addr AND NOT 0x1FF)
       (bf_set 63 1 (drop_bit 6 (flags AND 0x40)) (bf_set 8 1 (drop_bit 5 (flags AND 0x20))
         (bf_set 7 1 1 (set_common_flags flags e))))"

definition page_entry :: "u64 \<Rightarrow> u64 \<Rightarrow> u64 \<Rightarrow> u64" where
  "page_entry flags p_addr e =
     bf_set 12 40 (drop_bit 12 p_addr)
       (bf_set 63 1 (drop_bit 6 (flags AND 0x40)) (bf_set 8 1 (drop_bit 5 (flags AND 0x20))
         (set_common_flags flags e)))"

function map_loop ::
  "u64 \<Rightarrow> u64 \<Rightarrow> u64 \<Rightarrow> u64 \<Rightarrow> u64 \<Rightarrow> 'a vmm_state_scheme \<Rightarrow> (int \<times> 'a vmm_state_scheme) res" where
  "map_loop i pages flags v_addr p_addr s =
     (if i < pages then
        bindE (vmm_walk_and_crate_next_table (PML4 s) (PML4_index v_addr) s) (\<lambda>(PDPT, s1).
        bindE (vmm_walk_and_crate_next_table PDPT (PDPT_index v_addr) s1) (\<lambda>(PD, s2).
          if flags AND 0x10 \<noteq> 0 then
            let e = mem_rd (entry_at PD (PD_index v_addr)) s2
            in if pte_present e \<noteq> 0 then Inr (- EEXIST, s2)
               else map_loop (i + 1) pages flags (v_addr + 0x200000) p_addr
                      (mem_wr (entry_at PD (PD_index v_addr)) (huge_entry flags p_addr e) s2)
          else
            bindE (vmm_walk_and_crate_next_table PD (PD_index v_addr) s2) (\<lambda>(PT, s3).
              let e = mem_rd (entry_at PT (PT_index v_addr)) s3
              in if pte_present e \<noteq> 0 then Inr (- EEXIST, s3)
                 else map_loop (i + 1) pages flags (v_addr + 0x1000) (p_addr + 0x1000)
                        (mem_wr (entry_at PT (PT_index v_addr)) (page_entry flags p_addr e) s3))))
      else Inr (0, s))"
  by pat_completeness auto
termination
  by (relation "measure (\<lambda>(i, pages, flags, v_addr, p_addr, s). unat pages - unat i)")
     (auto simp: unat_Suc_less word_less_nat_alt)

definition vmm_map ::
  "u64 \<Rightarrow> u64 \<Rightarrow> u64 \<Rightarrow> u64 \<Rightarrow> 'a vmm_state_scheme \<Rightarrow> (int \<times> 'a vmm_state_scheme) res" where
  "vmm_map v_addr p_addr pages flags s =
     (if pages = 0 then Inr (- EINVAL, s) else map_loop 0 pages flags v_addr p_addr s)"

function unmap_loop :: "u64 \<Rightarrow> u64 \<Rightarrow> u64 \<Rightarrow> 'a vmm_state_scheme \<Rightarrow> (int \<times> 'a vmm_state_scheme) res" where
  "unmap_loop i pages v_addr s =
     (if i < pages then
        bindE (vmm_walk_and_crate_next_table (PML4 s) (PML4_index v_addr) s) (\<lambda>(PDPT, s1).
        bindE (vmm_walk_and_crate_next_table PDPT (PDPT_index v_addr) s1) (\<lambda>(PD, s2).
          if pte_huge_page (mem_rd (entry_at PD (PD_index v_addr)) s2) \<noteq> 0 then
            unmap_loop (i + 1) pages (v_addr + 0x200000) (mem_wr (entry_at PD (PD_index v_addr)) 0 s2)
          else
            bindE (vmm_walk_and_crate_next_table PD (PD_index v_addr) s2) (\<lambda>(PT, s3).
              unmap_loop (i + 1) pages (v_addr + 0x1000) (mem_wr (entry_at PT (PT_index v_addr)) 0 s3))))
      else Inr (0, s))"
  by pat_completeness auto
termination
  by (relation "measure (\<lambda>(i, pages, v_addr, s). unat pages - unat i)")
     (auto simp: unat_Suc_less word_less_nat_alt)

definition vmm_unmap :: "u64 \<Rightarrow> u64 \<Rightarrow> 'a vmm_state_scheme \<Rightarrow> (int \<times> 'a vmm_state_scheme) res" where
  "vmm_unmap v_addr pages s =
     (if pages = 0 then Inr (- EINVAL, s) else unmap_loop 0 pages v_addr s)"

text \<open>The address of the entry for a virtual address, with its tables created when missing.\<close>

definition vmm_get_pte :: "u64 \<Rightarrow> 'a vmm_state_scheme \<Rightarrow> (u64 \<times> 'a vmm_state_scheme) res" where
  "vmm_get_pte v_addr s =
     bindE (vmm_walk_and_crate_next_table (PML4 s) (PML4_index v_addr) s) (\<lambda>(PDPT, s1).
     bindE (vmm_walk_and_crate_next_table PDPT (PDPT_index v_addr) s1) (\<lambda>(PD, s2).
       if pte_huge_page (mem_rd (entry_at PD (PD_index v_addr)) s2) \<noteq> 0
       then Inr (entry_at PD (PD_index v_addr), s2)
       else
         bindE (vmm_walk_and_crate_next_table PD (PD_index v_addr) s2) (\<lambda>(PT, s3).
           Inr (entry_at PT (PT_index v_addr), s3))))"

definition vmm_get_physical_from_virtual :: "u64 \<Rightarrow> 'a vmm_state_scheme \<Rightarrow> (u64 \<times> 'a vmm_state_scheme) res" where
  "vmm_get_physical_from_virtual v_addr s =
     bindE (vmm_walk_and_crate_next_table (PML4 s) (PML4_index v_addr) s) (\<lambda>(PDPT, s1).
     bindE (vmm_walk_and_crate_next_table PDPT (PDPT_index v_addr) s1) (\<lambda>(PD, s2).
       let e = mem_rd (entry_at PD (PD_index v_addr)) s2
       in if pte_huge_page e \<noteq> 0 then Inr (push_bit 12 (pte_physical_address e), s2)
          else
            bindE (vmm_walk_and_crate_next_table PD (PD_index v_addr) s2) (\<lambda>(PT, s3).
              Inr (push_bit 12 (pte_physical_address (mem_rd (entry_at PT (PT_index v_addr)) s3)) +
                   (v_addr AND 0xFFF), s3))))"

text \<open>
  What the processor does to translate an address: a walk of the tables without creating any. The
  result is the entry that maps the page, if it is present.
\<close>

definition hw_entry :: "u64 \<Rightarrow> u64 \<Rightarrow> 'a vmm_state_scheme \<Rightarrow> u64 option" where
  "hw_entry table index s =
     (let e = mem_rd (entry_at table index) s in if pte_present e \<noteq> 0 then Some e else None)"

definition next_table :: "u64 \<Rightarrow> u64" where
  "next_table e = push_bit 12 (pte_physical_address e) + DIRECT_MAP_BASE"

definition hw_translate :: "u64 \<Rightarrow> 'a vmm_state_scheme \<Rightarrow> u64 option" where
  "hw_translate v s =
     (case hw_entry (PML4 s) (PML4_index v) s of None \<Rightarrow> None | Some e4 \<Rightarrow>
      case hw_entry (next_table e4) (PDPT_index v) s of None \<Rightarrow> None | Some e3 \<Rightarrow>
      case hw_entry (next_table e3) (PD_index v) s of None \<Rightarrow> None | Some e2 \<Rightarrow>
      if pte_huge_page e2 \<noteq> 0 then Some e2
      else hw_entry (next_table e2) (PT_index v) s)"

declare map_loop.simps [simp del] unmap_loop.simps [simp del]

end
