(* ===== verification/Avl_Spec.thy ===== *)
theory Avl_Spec
  imports Prelude "HOL-Library.Tree"
begin

text \<open>
  The abstract counterpart of \<^verbatim>\<open>common/ds/avl.c\<close>: binary trees of node addresses with rotations,
  the rebalancing step, insertion and the walk back to the root, and what these promise about the
  in-order sequence and the balance. The pointer structures of the code are shown to implement
  these functions in theory \<^verbatim>\<open>Avl\<close>.
\<close>

section \<open>Rotations and rebalancing\<close>

definition balf :: "'a tree \<Rightarrow> int" where
  "balf t = (case t of Leaf \<Rightarrow> 0 | Node l a r \<Rightarrow> int (height l) - int (height r))"

fun rotR :: "'a tree \<Rightarrow> 'a tree" where
  "rotR (Node (Node a x b) y c) = Node a x (Node b y c)"
| "rotR t = t"

fun rotL :: "'a tree \<Rightarrow> 'a tree" where
  "rotL (Node a x (Node b y c)) = Node (Node a x b) y c"
| "rotL t = t"

fun rebal :: "'a tree \<Rightarrow> 'a tree" where
  "rebal Leaf = Leaf"
| "rebal (Node l a r) =
     (let b = balf (Node l a r)
      in if b < 2 \<and> b > -2 then Node l a r
         else if b > 0 then (if balf l > 0 then rotR (Node l a r) else rotR (Node (rotL l) a r))
         else (if balf r < 0 then rotL (Node l a r) else rotL (Node l a (rotR r))))"

text \<open>\<open>goes_left a\<close> tells whether the new node belongs to the left of node \<open>a\<close>.\<close>

fun ins :: "('a \<Rightarrow> bool) \<Rightarrow> 'a \<Rightarrow> 'a tree \<Rightarrow> 'a tree" where
  "ins goes_left x Leaf = Node Leaf x Leaf"
| "ins goes_left x (Node l a r) =
     (if goes_left a then rebal (Node (ins goes_left x l) a r) else rebal (Node l a (ins goes_left x r)))"

fun avl :: "'a tree \<Rightarrow> bool" where
  "avl Leaf = True"
| "avl (Node l a r) = (abs (int (height l) - int (height r)) \<le> 1 \<and> avl l \<and> avl r)"

lemma balf_Node [simp]: "balf (Node l a r) = int (height l) - int (height r)"
  by (simp add: balf_def)

lemma balf_Leaf [simp]: "balf Leaf = 0"
  by (simp add: balf_def)

lemma inorder_rotR [simp]: "inorder (rotR t) = inorder t"
  by (cases t rule: rotR.cases) auto

lemma inorder_rotL [simp]: "inorder (rotL t) = inorder t"
  by (cases t rule: rotL.cases) auto

lemma inorder_rotR_child [simp]: "inorder (rotR (Node (rotL l) a r)) = inorder (Node l a r)"
  by simp

lemma inorder_rebal [simp]: "inorder (rebal t) = inorder t"
  by (cases t) (simp_all add: Let_def)

declare rebal.simps(2) [simp del]

lemma set_tree_rebal [simp]: "set_tree (rebal t) = set_tree t"
  by (metis inorder_rebal set_inorder)

lemma rebal_not_Leaf [simp]: "rebal t = Leaf \<longleftrightarrow> t = Leaf"
  by (metis eq_inorder_Nil inorder_rebal)

lemma ins_not_Leaf [simp]: "ins g x t \<noteq> Leaf"
  by (cases t) auto

section \<open>Insertion\<close>

text \<open>
  The trees at which a single insertion can leave an imbalance: the heavier child is never evenly
  balanced, which is what the strict comparisons of the code rely on.
\<close>

lemma rebal_avl_left:
  assumes "avl l" and "avl r" and "height l \<le> height r + 2" and "height r \<le> height l + 1"
    and "height l = height r + 2 \<Longrightarrow> balf l \<noteq> 0"
  shows "avl (rebal (Node l a r)) \<and>
         height (rebal (Node l a r)) \<in> {max (height l) (height r), max (height l) (height r) + 1} \<and>
         (height l \<le> height r + 1 \<longrightarrow> rebal (Node l a r) = Node l a r) \<and>
         (height l = height r + 2 \<longrightarrow> height (rebal (Node l a r)) = height l)"
proof (cases "height l = height r + 2")
  case False
  then show ?thesis using assms by (auto simp: rebal.simps)
next
  case True
  then obtain ll la lr where l: "l = Node ll la lr" by (cases l) auto
  show ?thesis
  proof (cases "height ll > height lr")
    case True
    then show ?thesis using assms \<open>height l = height r + 2\<close> l by (auto simp: rebal.simps Let_def)
  next
    case False
    then obtain b c d where lr: "lr = Node b c d"
      using assms(5) \<open>height l = height r + 2\<close> l by (cases lr) auto
    show ?thesis using False assms \<open>height l = height r + 2\<close> l lr by (auto simp: rebal.simps Let_def)
  qed
qed

lemma rebal_avl_right:
  assumes "avl l" and "avl r" and "height r \<le> height l + 2" and "height l \<le> height r + 1"
    and "height r = height l + 2 \<Longrightarrow> balf r \<noteq> 0"
  shows "avl (rebal (Node l a r)) \<and>
         height (rebal (Node l a r)) \<in> {max (height l) (height r), max (height l) (height r) + 1} \<and>
         (height r \<le> height l + 1 \<longrightarrow> rebal (Node l a r) = Node l a r) \<and>
         (height r = height l + 2 \<longrightarrow> height (rebal (Node l a r)) = height r)"
proof (cases "height r = height l + 2")
  case False
  then show ?thesis using assms by (auto simp: rebal.simps)
next
  case True
  then obtain rl ra rr where r: "r = Node rl ra rr" by (cases r) auto
  show ?thesis
  proof (cases "height rr > height rl")
    case True
    then show ?thesis using assms \<open>height r = height l + 2\<close> r by (auto simp: rebal.simps Let_def)
  next
    case False
    then obtain b c d where rl: "rl = Node b c d"
      using assms(5) \<open>height r = height l + 2\<close> r by (cases rl) auto
    show ?thesis using False assms \<open>height r = height l + 2\<close> r rl by (auto simp: rebal.simps Let_def)
  qed
qed

lemma ins_avl:
  assumes "avl t"
  shows "avl (ins g x t) \<and>
         (height (ins g x t) = height t \<or>
          height (ins g x t) = Suc (height t) \<and> (t \<noteq> Leaf \<longrightarrow> balf (ins g x t) \<noteq> 0))"
  using assms
proof (induction t)
  case Leaf
  then show ?case by simp
next
  case (Node l a r)
  show ?case
  proof (cases "g a")
    case True
    let ?l = "ins g x l"
    have IH: "avl ?l" "height ?l = height l \<or> height ?l = Suc (height l) \<and> (l \<noteq> Leaf \<longrightarrow> balf ?l \<noteq> 0)"
      using Node by auto
    have "height ?l = height r + 2 \<Longrightarrow> balf ?l \<noteq> 0" using IH(2) Node.prems by (cases l) auto
    then have R: "avl (rebal (Node ?l a r))" "height ?l \<le> height r + 1 \<Longrightarrow> rebal (Node ?l a r) = Node ?l a r"
        "height ?l = height r + 2 \<Longrightarrow> height (rebal (Node ?l a r)) = height ?l"
      using rebal_avl_left [of ?l r a] IH Node.prems by auto
    show ?thesis
    proof (cases "height ?l \<le> height r + 1")
      case True
      then have "rebal (Node ?l a r) = Node ?l a r" by (rule R(2))
      moreover have "height (Node ?l a r) = height (Node l a r) \<or>
          height (Node ?l a r) = Suc (height (Node l a r)) \<and> int (height ?l) - int (height r) \<noteq> 0"
        using IH(2) unfolding height_tree.simps by linarith
      ultimately show ?thesis using R(1) \<open>g a\<close> by simp
    next
      case False
      then have "height ?l = height r + 2" "height (Node l a r) = height ?l" using IH(2) Node.prems by auto
      then show ?thesis using R \<open>g a\<close> by simp
    qed
  next
    case False
    let ?r = "ins g x r"
    have IH: "avl ?r" "height ?r = height r \<or> height ?r = Suc (height r) \<and> (r \<noteq> Leaf \<longrightarrow> balf ?r \<noteq> 0)"
      using Node by auto
    have "height ?r = height l + 2 \<Longrightarrow> balf ?r \<noteq> 0" using IH(2) Node.prems by (cases r) auto
    then have R: "avl (rebal (Node l a ?r))" "height ?r \<le> height l + 1 \<Longrightarrow> rebal (Node l a ?r) = Node l a ?r"
        "height ?r = height l + 2 \<Longrightarrow> height (rebal (Node l a ?r)) = height ?r"
      using rebal_avl_right [of l ?r a] IH Node.prems by auto
    show ?thesis
    proof (cases "height ?r \<le> height l + 1")
      case True
      then have "rebal (Node l a ?r) = Node l a ?r" by (rule R(2))
      moreover have "height (Node l a ?r) = height (Node l a r) \<or>
          height (Node l a ?r) = Suc (height (Node l a r)) \<and> int (height l) - int (height ?r) \<noteq> 0"
        using IH(2) unfolding height_tree.simps by linarith
      ultimately show ?thesis using R(1) \<open>\<not> g a\<close> by simp
    next
      case False
      then have "height ?r = height l + 2" "height (Node l a r) = height ?r" using IH(2) Node.prems by auto
      then show ?thesis using R \<open>\<not> g a\<close> by simp
    qed
  qed
qed

lemma height_rebal: "height (rebal t) \<le> height t"
proof (cases t)
  case Leaf
  then show ?thesis by simp
next
  case (Node l a r)
  consider "\<bar>int (height l) - int (height r)\<bar> < 2" | "height l \<ge> height r + 2" | "height r \<ge> height l + 2"
    by linarith
  then show ?thesis
  proof cases
    case 1
    then have "rebal (Node l a r) = Node l a r" by (auto simp: rebal.simps Let_def)
    then show ?thesis by (simp add: Node)
  next
    case 2
    then obtain ll b lr where l: "l = Node ll b lr" by (cases l) auto
    show ?thesis
    proof (cases "height lr < height ll")
      case True
      then show ?thesis using 2 l Node by (auto simp: rebal.simps Let_def)
    next
      case False
      then obtain x c y where "lr = Node x c y" using 2 l by (cases lr) auto
      then show ?thesis using False 2 l Node by (auto simp: rebal.simps Let_def)
    qed
  next
    case 3
    then obtain rl b rr where r: "r = Node rl b rr" by (cases r) auto
    show ?thesis
    proof (cases "height rl < height rr")
      case True
      then show ?thesis using 3 r Node by (auto simp: rebal.simps Let_def)
    next
      case False
      then obtain x c y where "rl = Node x c y" using 3 r by (cases rl) auto
      then show ?thesis using False 3 r Node by (auto simp: rebal.simps Let_def)
    qed
  qed
qed

lemma height_ins: "height (ins g x t) \<le> Suc (height t)"
proof (induction t)
  case Leaf
  then show ?case by simp
next
  case (Node l a r)
  have "height (ins g x (Node l a r)) \<le> height (Node (ins g x l) a r) \<or>
        height (ins g x (Node l a r)) \<le> height (Node l a (ins g x r))"
    by (simp del: height_tree.simps add: height_rebal)
  then show ?case using Node.IH by auto
qed

lemma inorder_ins:
  assumes "sorted_wrt (\<lambda>a b. g a \<longrightarrow> g b) (inorder t)"
  shows "inorder (ins g x t) = filter (\<lambda>a. \<not> g a) (inorder t) @ x # filter g (inorder t)"
  using assms
proof (induction t)
  case Leaf
  then show ?case by simp
next
  case (Node l a r)
  have s: "sorted_wrt (\<lambda>a b. g a \<longrightarrow> g b) (inorder l)" "sorted_wrt (\<lambda>a b. g a \<longrightarrow> g b) (inorder r)"
    "\<And>b. b \<in> set_tree l \<Longrightarrow> g b \<Longrightarrow> g a" "\<And>b. b \<in> set_tree r \<Longrightarrow> g a \<Longrightarrow> g b"
    using Node.prems
    unfolding inorder.simps sorted_wrt_append set_append set_inorder list.set sorted_wrt.simps by blast+
  show ?case
  proof (cases "g a")
    case True
    have "filter (\<lambda>a. \<not> g a) (inorder r) = []" "filter g (inorder r) = inorder r"
      using True s(4) by (auto simp: filter_empty_conv intro!: filter_True)
    with True Node.IH(1) [OF s(1)] show ?thesis by simp
  next
    case False
    have "filter (\<lambda>a. \<not> g a) (inorder l) = inorder l" "filter g (inorder l) = []"
      using False s(3) by (auto simp: filter_empty_conv intro!: filter_True)
    with False Node.IH(2) [OF s(2)] show ?thesis by simp
  qed
qed

lemma set_tree_ins [simp]: "set_tree (ins g x t) = insert x (set_tree t)"
  by (induction t) auto

lemma distinct_subtrees:
  "distinct (inorder (Node l a r)) \<Longrightarrow> distinct (inorder l)"
  "distinct (inorder (Node l a r)) \<Longrightarrow> distinct (inorder r)"
  by simp_all

lemma distinct_ins:
  "distinct (inorder t) \<Longrightarrow> x \<notin> set_tree t \<Longrightarrow> distinct (inorder (ins g x t))"
  by (induction t) auto

section \<open>Heights\<close>

lemma avl_size1: "avl t \<Longrightarrow> 2 ^ (height t div 2) \<le> size1 t"
proof (induction t)
  case Leaf
  then show ?case by simp
next
  case (Node l a r)
  define h where "h = height (Node l a r)"
  have "height l = h - 1 \<and> h - 2 \<le> height r \<or> height r = h - 1 \<and> h - 2 \<le> height l"
    and hl: "h \<ge> 1" using Node.prems by (auto simp: h_def)
  then have "h - 2 \<le> height l" "h - 2 \<le> height r" by auto
  then have "2 ^ ((h - 2) div 2) \<le> (2 :: nat) ^ (height l div 2)" "2 ^ ((h - 2) div 2) \<le> (2 :: nat) ^ (height r div 2)"
    by (auto intro!: power_increasing div_le_mono)
  moreover have "2 ^ (height l div 2) \<le> size1 l" "2 ^ (height r div 2) \<le> size1 r"
    using Node by auto
  ultimately have "2 ^ ((h - 2) div 2) \<le> size1 l" "2 ^ ((h - 2) div 2) \<le> size1 r"
    by (blast intro: order_trans)+
  then have "2 * 2 ^ ((h - 2) div 2) \<le> size1 (Node l a r)" by simp
  moreover have "2 ^ (h div 2) \<le> 2 * (2 :: nat) ^ ((h - 2) div 2)"
  proof (cases "h = 1")
    case True
    then show ?thesis by simp
  next
    case False
    then have "h div 2 = Suc ((h - 2) div 2)" using hl by (simp add: le_div_geq)
    then show ?thesis by simp
  qed
  ultimately show ?case by (simp add: h_def)
qed

lemma size_tree_distinct: "distinct (inorder t) \<Longrightarrow> card (set_tree t) = size t"
  by (metis distinct_card length_inorder set_inorder)

text \<open>A balanced tree of distinct 64-bit addresses is at most 129 nodes deep.\<close>

lemma card_u64: "card (A :: u64 set) \<le> 2 ^ 64"
proof -
  have "card A \<le> card (UNIV :: u64 set)" by (rule card_mono) simp_all
  also have "\<dots> = 2 ^ 64" by (simp only: card_word len64)
  finally show ?thesis .
qed

lemma size_addr_tree:
  assumes "distinct (inorder (t :: u64 tree))" and "0 \<notin> set_tree t"
  shows "size t < 2 ^ 64"
proof -
  have "card (insert 0 (set_tree t)) = Suc (size t)"
    using assms by (simp add: size_tree_distinct)
  with card_u64 [of "insert 0 (set_tree t)"] show ?thesis by linarith
qed

lemma height_addr_tree:
  assumes "avl (t :: u64 tree)" and "distinct (inorder t)" and "0 \<notin> set_tree t"
  shows "height t \<le> 129"
proof -
  have "2 ^ (height t div 2) \<le> (2 :: nat) ^ 64"
    using avl_size1 [OF assms(1)] size_addr_tree [OF assms(2,3)] by (simp add: size1_size)
  then have "height t div 2 \<le> 64" by (subst (asm) power_increasing_iff) simp_all
  then show ?thesis by simp
qed

section \<open>Contexts\<close>

text \<open>A path from a node to the root: the parent on each step, with its other subtree.\<close>

datatype 'a step = InLeft 'a "'a tree" | InRight "'a tree" 'a

fun plug :: "'a step list \<Rightarrow> 'a tree \<Rightarrow> 'a tree" where
  "plug [] t = t"
| "plug (InLeft a r # c) t = plug c (Node t a r)"
| "plug (InRight l a # c) t = plug c (Node l a t)"

text \<open>The walk back to the root with a rebalancing step at every node.\<close>

fun up :: "'a step list \<Rightarrow> 'a tree \<Rightarrow> 'a tree" where
  "up [] t = rebal t"
| "up (InLeft a r # c) t = up c (Node (rebal t) a r)"
| "up (InRight l a # c) t = up c (Node l a (rebal t))"

fun before :: "'a step list \<Rightarrow> 'a list" where
  "before [] = []"
| "before (InLeft a r # c) = before c"
| "before (InRight l a # c) = before c @ inorder l @ [a]"

fun after :: "'a step list \<Rightarrow> 'a list" where
  "after [] = []"
| "after (InLeft a r # c) = a # inorder r @ after c"
| "after (InRight l a # c) = after c"

definition step_node :: "'a step \<Rightarrow> 'a tree \<Rightarrow> 'a tree" where
  "step_node s t = (case s of InLeft a r \<Rightarrow> Node t a r | InRight l a \<Rightarrow> Node l a t)"

definition only_child :: "'a tree \<Rightarrow> 'a tree \<Rightarrow> 'a tree" where
  "only_child l r = (if l = Leaf then r else l)"

lemma plug_Cons: "plug (s # c) t = plug c (step_node s t)"
  by (cases s) (simp_all add: step_node_def)

lemma inorder_plug: "inorder (plug c t) = before c @ inorder t @ after c"
  by (induction c t rule: plug.induct) auto

lemma inorder_up: "inorder (up c t) = before c @ inorder t @ after c"
  by (induction c t rule: up.induct) auto

lemma set_tree_plug: "set_tree (plug c t) = set (before c) \<union> set_tree t \<union> set (after c)"
  using arg_cong [OF inorder_plug [of c t], of set] by auto

lemma set_tree_step_node: "set_tree t \<subseteq> set_tree t' \<Longrightarrow> set_tree (step_node s t) \<subseteq> set_tree (step_node s t')"
  by (auto simp: step_node_def split: step.splits)

lemma plug_append: "plug (c @ d) t = plug d (plug c t)"
  by (induction c t rule: plug.induct) auto

lemma size_plug: "size (plug c t) \<ge> size t + length c"
  by (induction c t rule: plug.induct) auto

lemma height_plug: "height t \<le> height (plug c t)"
  by (induction c t rule: plug.induct) auto

lemma height_plug_mono: "height t \<le> height t' \<Longrightarrow> height (plug c t) \<le> height (plug c t')"
proof (induction c arbitrary: t t')
  case Nil
  then show ?case by simp
next
  case (Cons s c)
  then show ?case by (cases s) (auto intro!: Cons.IH)
qed

lemma focus_exists: "a \<in> set_tree t \<Longrightarrow> \<exists>c l r. t = plug c (Node l a r)"
proof (induction t)
  case Leaf
  then show ?case by simp
next
  case (Node l x r)
  consider "a = x" | "a \<in> set_tree l" | "a \<in> set_tree r" using Node.prems by auto
  then show ?case
  proof cases
    case 1
    then show ?thesis by (intro exI [of _ "[]"]) simp
  next
    case 2
    then obtain c l' r' where "l = plug c (Node l' a r')" using Node.IH by blast
    then have "Node l x r = plug (c @ [InLeft x r]) (Node l' a r')" by (simp add: plug_append)
    then show ?thesis by blast
  next
    case 3
    then obtain c l' r' where "r = plug c (Node l' a r')" using Node.IH by blast
    then have "Node l x r = plug (c @ [InRight l x]) (Node l' a r')" by (simp add: plug_append)
    then show ?thesis by blast
  qed
qed

end
