(* ===== verification/Avl.thy ===== *)
theory Avl
  imports Avl_Spec
begin

text \<open>
  The intrusive AVL tree of \<^verbatim>\<open>common/ds/avl.c\<close>, on an explicit heap: a node is a record found at its
  address, the client's structures extend it (the C code embeds \<^verbatim>\<open>avl_node_t\<close> as their first
  member), and address 0 is \<^verbatim>\<open>NULL\<close>. Comparators are functions of the heap and two addresses; a
  node's \<^verbatim>\<open>update\<close> field holds the address of a function, and the parameter \<open>cb\<close> of the operations
  says what calling a function address does. Loops and recursion along pointers carry fuel; the
  public operations start with \<open>AVL_FUEL\<close>, the number of 64-bit addresses, so that only a cyclic
  structure, on which the code does not return, runs out of it.
\<close>

section \<open>Definitions\<close>

record avl_node =
  parent :: u64
  left :: u64
  right :: u64
  subtree_max_depth :: u64
  update :: u64

record avl_tree =
  root :: u64
  avl_size :: u64

type_synonym 'a heap = "u64 \<Rightarrow> 'a avl_node_scheme option"

type_synonym 'a callback = "u64 \<Rightarrow> 'a heap \<Rightarrow> u64 \<Rightarrow> 'a heap res"

type_synonym 'a comparator = "'a heap \<Rightarrow> u64 \<Rightarrow> u64 \<Rightarrow> int res"

definition AVL_FUEL :: nat where
  "AVL_FUEL = 2 ^ 64"

text \<open>Reading and writing through a pointer.\<close>

definition rd :: "(u64 \<Rightarrow> 'n option) \<Rightarrow> u64 \<Rightarrow> 'n res" where
  "rd h p = (if p = 0 then Inl NullDeref else case h p of None \<Rightarrow> Inl WildDeref | Some n \<Rightarrow> Inr n)"

definition wr :: "(u64 \<Rightarrow> 'n option) \<Rightarrow> u64 \<Rightarrow> ('n \<Rightarrow> 'n) \<Rightarrow> (u64 \<Rightarrow> 'n option) res" where
  "wr h p f = bindE (rd h p) (\<lambda>n. Inr (h(p \<mapsto> f n)))"

definition avl_init :: "'a heap \<Rightarrow> u64 \<Rightarrow> u64 \<Rightarrow> 'a heap res" where
  "avl_init h node update_callback =
     (if node = 0 then Inr h
      else wr h node (\<lambda>n. n\<lparr>parent := 0, left := 0, right := 0, subtree_max_depth := 0,
                            update := update_callback\<rparr>))"

text \<open>
  The conditional expression has type \<^verbatim>\<open>uint64_t\<close> and is then converted to \<^verbatim>\<open>int\<close>, on both branches.
\<close>

definition child_depth :: "'a heap \<Rightarrow> u64 \<Rightarrow> int res" where
  "child_depth h c = (if c \<noteq> 0 then bindE (rd h c) (\<lambda>n. Inr (to_int (subtree_max_depth n))) else Inr (to_int (- 1)))"

definition avl_update :: "'a callback \<Rightarrow> 'a heap \<Rightarrow> u64 \<Rightarrow> 'a heap res" where
  "avl_update cb h node =
     (if node = 0 then Inr h
      else
        bindE (rd h node) (\<lambda>n.
        bindE (child_depth h (left n)) (\<lambda>max_depth_left_subtree.
        bindE (child_depth h (right n)) (\<lambda>max_depth_right_subtree.
        bindE (wr h node (\<lambda>n. n\<lparr>subtree_max_depth :=
                 word_of_int (max max_depth_left_subtree max_depth_right_subtree + 1)\<rparr>)) (\<lambda>h1.
          if update n \<noteq> 0 then cb (update n) h1 node else Inr h1)))))"

definition avl_get_balance_factor :: "'a heap \<Rightarrow> u64 \<Rightarrow> int res" where
  "avl_get_balance_factor h node =
     bindE (rd h node) (\<lambda>n.
     bindE (if left n \<noteq> 0 then bindE (rd h (left n)) (\<lambda>m. Inr (subtree_max_depth m + 1)) else Inr 0) (\<lambda>l.
     bindE (if right n \<noteq> 0 then bindE (rd h (right n)) (\<lambda>m. Inr (subtree_max_depth m + 1)) else Inr 0) (\<lambda>r.
       Inr (to_int (l - r)))))"

definition avl_rotate_right :: "'a callback \<Rightarrow> 'a heap \<Rightarrow> u64 \<Rightarrow> (u64 \<times> 'a heap) res" where
  "avl_rotate_right cb h node =
     bindE (rd h node) (\<lambda>n.
     let new_subtree_root = left n; subtree_parent = parent n in
     bindE (rd h (left n)) (\<lambda>m.
     bindE (wr h node (\<lambda>n. n\<lparr>left := right m\<rparr>)) (\<lambda>h1.
     bindE (if right m \<noteq> 0 then wr h1 (right m) (\<lambda>k. k\<lparr>parent := node\<rparr>) else Inr h1) (\<lambda>h2.
     bindE (wr h2 new_subtree_root (\<lambda>k. k\<lparr>right := node\<rparr>)) (\<lambda>h3.
     bindE (wr h3 new_subtree_root (\<lambda>k. k\<lparr>parent := subtree_parent\<rparr>)) (\<lambda>h4.
     bindE (wr h4 node (\<lambda>k. k\<lparr>parent := new_subtree_root\<rparr>)) (\<lambda>h5.
     bindE (rd h5 new_subtree_root) (\<lambda>k.
     bindE (avl_update cb h5 (left k)) (\<lambda>h6.
     bindE (rd h6 new_subtree_root) (\<lambda>k.
     bindE (avl_update cb h6 (right k)) (\<lambda>h7.
     bindE (avl_update cb h7 new_subtree_root) (\<lambda>h8.
       Inr (new_subtree_root, h8)))))))))))))"

definition avl_rotate_left :: "'a callback \<Rightarrow> 'a heap \<Rightarrow> u64 \<Rightarrow> (u64 \<times> 'a heap) res" where
  "avl_rotate_left cb h node =
     bindE (rd h node) (\<lambda>n.
     let new_subtree_root = right n; subtree_parent = parent n in
     bindE (rd h (right n)) (\<lambda>m.
     bindE (wr h node (\<lambda>n. n\<lparr>right := left m\<rparr>)) (\<lambda>h1.
     bindE (if left m \<noteq> 0 then wr h1 (left m) (\<lambda>k. k\<lparr>parent := node\<rparr>) else Inr h1) (\<lambda>h2.
     bindE (wr h2 new_subtree_root (\<lambda>k. k\<lparr>left := node\<rparr>)) (\<lambda>h3.
     bindE (wr h3 new_subtree_root (\<lambda>k. k\<lparr>parent := subtree_parent\<rparr>)) (\<lambda>h4.
     bindE (wr h4 node (\<lambda>k. k\<lparr>parent := new_subtree_root\<rparr>)) (\<lambda>h5.
     bindE (rd h5 new_subtree_root) (\<lambda>k.
     bindE (avl_update cb h5 (left k)) (\<lambda>h6.
     bindE (rd h6 new_subtree_root) (\<lambda>k.
     bindE (avl_update cb h6 (right k)) (\<lambda>h7.
     bindE (avl_update cb h7 new_subtree_root) (\<lambda>h8.
       Inr (new_subtree_root, h8)))))))))))))"

definition avl_check_and_balance :: "'a callback \<Rightarrow> 'a heap \<Rightarrow> u64 \<Rightarrow> (u64 \<times> 'a heap) res" where
  "avl_check_and_balance cb h node =
     bindE (avl_get_balance_factor h node) (\<lambda>balance.
       if balance < 2 \<and> balance > -2 then Inr (node, h)
       else if balance > 0 then
         bindE (rd h node) (\<lambda>n.
         bindE (avl_get_balance_factor h (left n)) (\<lambda>b.
           if b > 0 then avl_rotate_right cb h node
           else
             bindE (avl_rotate_left cb h (left n)) (\<lambda>(c, h1).
             bindE (wr h1 node (\<lambda>k. k\<lparr>left := c\<rparr>)) (\<lambda>h2.
               avl_rotate_right cb h2 node))))
       else
         bindE (rd h node) (\<lambda>n.
         bindE (avl_get_balance_factor h (right n)) (\<lambda>b.
           if b < 0 then avl_rotate_left cb h node
           else
             bindE (avl_rotate_right cb h (right n)) (\<lambda>(c, h1).
             bindE (wr h1 node (\<lambda>k. k\<lparr>right := c\<rparr>)) (\<lambda>h2.
               avl_rotate_left cb h2 node)))))"

fun bubble_loop :: "nat \<Rightarrow> 'a callback \<Rightarrow> 'a heap \<Rightarrow> u64 \<Rightarrow> (u64 \<times> 'a heap) res" where
  "bubble_loop 0 cb h node = Inl OutOfFuel"
| "bubble_loop (Suc fuel) cb h old_node =
     bindE (avl_update cb h old_node) (\<lambda>h1.
     bindE (avl_check_and_balance cb h1 old_node) (\<lambda>(node, h2).
     bindE (rd h2 node) (\<lambda>n.
       if parent n = 0 then Inr (node, h2)
       else
         bindE (rd h2 (parent n)) (\<lambda>p.
         bindE (if old_node = left p then wr h2 (parent n) (\<lambda>k. k\<lparr>left := node\<rparr>)
                else wr h2 (parent n) (\<lambda>k. k\<lparr>right := node\<rparr>)) (\<lambda>h3.
           bubble_loop fuel cb h3 (parent n))))))"

definition avl_bubble_update_and_balance :: "'a callback \<Rightarrow> 'a heap \<Rightarrow> u64 \<Rightarrow> (u64 \<times> 'a heap) res" where
  "avl_bubble_update_and_balance cb h node =
     (if node = 0 then Inr (0, h) else bubble_loop AVL_FUEL cb h node)"

fun rightmost :: "nat \<Rightarrow> 'a heap \<Rightarrow> u64 \<Rightarrow> u64 res" where
  "rightmost 0 h p = Inl OutOfFuel"
| "rightmost (Suc fuel) h p =
     bindE (rd h p) (\<lambda>n. if right n \<noteq> 0 then rightmost fuel h (right n) else Inr p)"

fun leftmost :: "nat \<Rightarrow> 'a heap \<Rightarrow> u64 \<Rightarrow> u64 res" where
  "leftmost 0 h p = Inl OutOfFuel"
| "leftmost (Suc fuel) h p =
     bindE (rd h p) (\<lambda>n. if left n \<noteq> 0 then leftmost fuel h (left n) else Inr p)"

fun climb_from_left :: "nat \<Rightarrow> 'a heap \<Rightarrow> u64 \<Rightarrow> u64 \<Rightarrow> u64 res" where
  "climb_from_left 0 h cur p = Inl OutOfFuel"
| "climb_from_left (Suc fuel) h cur p =
     (if p = 0 then Inr p
      else bindE (rd h p) (\<lambda>n. if cur = left n then climb_from_left fuel h p (parent n) else Inr p))"

fun climb_from_right :: "nat \<Rightarrow> 'a heap \<Rightarrow> u64 \<Rightarrow> u64 \<Rightarrow> u64 res" where
  "climb_from_right 0 h cur p = Inl OutOfFuel"
| "climb_from_right (Suc fuel) h cur p =
     (if p = 0 then Inr p
      else bindE (rd h p) (\<lambda>n. if cur = right n then climb_from_right fuel h p (parent n) else Inr p))"

definition avl_get_predecessor :: "'a heap \<Rightarrow> u64 \<Rightarrow> u64 res" where
  "avl_get_predecessor h node =
     bindE (rd h node) (\<lambda>n.
       if left n \<noteq> 0 then rightmost AVL_FUEL h (left n)
       else climb_from_left AVL_FUEL h node (parent n))"

definition avl_get_successor :: "'a heap \<Rightarrow> u64 \<Rightarrow> u64 res" where
  "avl_get_successor h node =
     bindE (rd h node) (\<lambda>n.
       if right n \<noteq> 0 then leftmost AVL_FUEL h (right n)
       else climb_from_right AVL_FUEL h node (parent n))"

fun avl_insert_rec :: "nat \<Rightarrow> 'a callback \<Rightarrow> 'a comparator \<Rightarrow> 'a heap \<Rightarrow> u64 \<Rightarrow> u64 \<Rightarrow> (u64 \<times> 'a heap) res" where
  "avl_insert_rec 0 cb compare h rt node_to_insert = Inl OutOfFuel"
| "avl_insert_rec (Suc fuel) cb compare h rt node_to_insert =
     bindE (wr h node_to_insert (\<lambda>k. k\<lparr>parent := rt\<rparr>)) (\<lambda>h1.
     bindE (compare h1 rt node_to_insert) (\<lambda>comp_res.
     bindE (rd h1 rt) (\<lambda>n.
     bindE
       (if comp_res > 0 then
          (if left n \<noteq> 0 then
             bindE (avl_insert_rec fuel cb compare h1 (left n) node_to_insert) (\<lambda>(c, h2).
               wr h2 rt (\<lambda>k. k\<lparr>left := c\<rparr>))
           else
             bindE (wr h1 rt (\<lambda>k. k\<lparr>left := node_to_insert\<rparr>)) (\<lambda>h2.
               wr h2 node_to_insert (\<lambda>k. k\<lparr>parent := rt\<rparr>)))
        else
          (if right n \<noteq> 0 then
             bindE (avl_insert_rec fuel cb compare h1 (right n) node_to_insert) (\<lambda>(c, h2).
               wr h2 rt (\<lambda>k. k\<lparr>right := c\<rparr>))
           else
             bindE (wr h1 rt (\<lambda>k. k\<lparr>right := node_to_insert\<rparr>)) (\<lambda>h2.
               wr h2 node_to_insert (\<lambda>k. k\<lparr>parent := rt\<rparr>)))) (\<lambda>h3.
     bindE (avl_update cb h3 rt) (\<lambda>h4.
       avl_check_and_balance cb h4 rt)))))"

definition avl_insert ::
  "'a callback \<Rightarrow> 'a comparator \<Rightarrow> avl_tree \<Rightarrow> 'a heap \<Rightarrow> u64 \<Rightarrow> (avl_tree \<times> 'a heap) res" where
  "avl_insert cb compare tree h node_to_insert =
     (if root tree = 0 then Inr (tree\<lparr>root := node_to_insert\<rparr>, h)
      else
        bindE (avl_insert_rec AVL_FUEL cb compare h (root tree) node_to_insert) (\<lambda>(new_root, h1).
          Inr (tree\<lparr>root := new_root\<rparr>, h1)))"

fun avl_remove_rec :: "nat \<Rightarrow> 'a callback \<Rightarrow> avl_tree \<Rightarrow> 'a heap \<Rightarrow> u64 \<Rightarrow> (avl_tree \<times> 'a heap) res" where
  "avl_remove_rec 0 cb tree h node_to_remove = Inl OutOfFuel"
| "avl_remove_rec (Suc fuel) cb tree h node_to_remove =
     (if root tree = 0 then Inr (tree, h)
      else
        bindE (rd h node_to_remove) (\<lambda>n.
        bindE
          (if left n = 0 \<and> right n = 0 then
             (if parent n = 0 then Inr (parent n, tree\<lparr>root := 0\<rparr>, h)
              else
                bindE (rd h (parent n)) (\<lambda>p.
                bindE (if left p = node_to_remove then wr h (parent n) (\<lambda>k. k\<lparr>left := 0\<rparr>)
                       else wr h (parent n) (\<lambda>k. k\<lparr>right := 0\<rparr>)) (\<lambda>h1.
                  Inr (parent n, tree, h1))))
           else if left n \<noteq> 0 \<and> right n \<noteq> 0 then
             bindE (avl_get_successor h node_to_remove) (\<lambda>victim_node.
             bindE (avl_remove_rec fuel cb tree h victim_node) (\<lambda>(tree1, h1).
             bindE (rd h1 node_to_remove) (\<lambda>n1.
             bindE (wr h1 victim_node (\<lambda>k. k\<lparr>left := left n1\<rparr>)) (\<lambda>h2.
             bindE (wr h2 (left n1) (\<lambda>k. k\<lparr>parent := victim_node\<rparr>)) (\<lambda>h3.
             bindE (rd h3 node_to_remove) (\<lambda>n2.
             bindE (wr h3 victim_node (\<lambda>k. k\<lparr>right := right n2\<rparr>)) (\<lambda>h4.
             bindE (wr h4 (right n2) (\<lambda>k. k\<lparr>parent := victim_node\<rparr>)) (\<lambda>h5.
             bindE (rd h5 node_to_remove) (\<lambda>n3.
             bindE (wr h5 victim_node (\<lambda>k. k\<lparr>parent := parent n3\<rparr>)) (\<lambda>h6.
               Inr (victim_node, tree1, h6)))))))))))
           else
             let child = (if left n \<noteq> 0 then left n else right n) in
             bindE (wr h child (\<lambda>k. k\<lparr>parent := parent n\<rparr>)) (\<lambda>h1.
             let tree1 = (if parent n = 0 then tree\<lparr>root := child\<rparr> else tree) in
             bindE (rd h1 (parent n)) (\<lambda>p.
             bindE (if left p = node_to_remove then wr h1 (parent n) (\<lambda>k. k\<lparr>left := child\<rparr>)
                    else wr h1 (parent n) (\<lambda>k. k\<lparr>right := child\<rparr>)) (\<lambda>h2.
               Inr (parent n, tree1, h2))))) (\<lambda>(node_to_update, tree1, h1).
        bindE (avl_bubble_update_and_balance cb h1 node_to_update) (\<lambda>(new_root, h2).
          Inr (tree1\<lparr>root := new_root\<rparr>, h2)))))"

definition avl_remove :: "'a callback \<Rightarrow> avl_tree \<Rightarrow> 'a heap \<Rightarrow> u64 \<Rightarrow> (avl_tree \<times> 'a heap) res" where
  "avl_remove cb tree h node_to_remove = avl_remove_rec AVL_FUEL cb tree h node_to_remove"

fun avl_get_node_rec :: "nat \<Rightarrow> 'a comparator \<Rightarrow> 'a heap \<Rightarrow> u64 \<Rightarrow> u64 \<Rightarrow> u64 res" where
  "avl_get_node_rec 0 compare h rt key = Inl OutOfFuel"
| "avl_get_node_rec (Suc fuel) compare h rt key =
     (if rt = 0 then Inr 0
      else
        bindE (compare h rt key) (\<lambda>comp_ans.
          if comp_ans = 0 then Inr rt
          else
            bindE (rd h rt) (\<lambda>n.
              if comp_ans > 0 then avl_get_node_rec fuel compare h (left n) key
              else avl_get_node_rec fuel compare h (right n) key)))"

definition avl_get_node :: "'a comparator \<Rightarrow> avl_tree \<Rightarrow> 'a heap \<Rightarrow> u64 \<Rightarrow> u64 res" where
  "avl_get_node compare tree h key =
     (if root tree = 0 then Inr 0 else avl_get_node_rec AVL_FUEL compare h (root tree) key)"

definition avl_first :: "avl_tree \<Rightarrow> 'a heap \<Rightarrow> u64 res" where
  "avl_first tree h = (if root tree = 0 then Inr 0 else leftmost AVL_FUEL h (root tree))"

definition avl_last :: "avl_tree \<Rightarrow> 'a heap \<Rightarrow> u64 res" where
  "avl_last tree h = (if root tree = 0 then Inr 0 else rightmost AVL_FUEL h (root tree))"

definition avl_next :: "'a heap \<Rightarrow> u64 \<Rightarrow> u64 res" where
  "avl_next h node = (if node = 0 then Inr 0 else avl_get_successor h node)"

definition avl_prev :: "'a heap \<Rightarrow> u64 \<Rightarrow> u64 res" where
  "avl_prev h node = (if node = 0 then Inr 0 else avl_get_predecessor h node)"

section \<open>Reading and writing\<close>

lemma rd_Some [simp]: "h p = Some n \<Longrightarrow> p \<noteq> 0 \<Longrightarrow> rd h p = Inr n"
  by (simp add: rd_def)

lemma rd_0 [simp]: "rd h 0 = Inl NullDeref"
  by (simp add: rd_def)

lemma wr_0 [simp]: "wr h 0 f = Inl NullDeref"
  by (simp add: wr_def)

lemma wr_Some [simp]: "h p = Some n \<Longrightarrow> p \<noteq> 0 \<Longrightarrow> wr h p f = Inr (h(p \<mapsto> f n))"
  by (simp add: wr_def)

text \<open>The fuel is never zero.\<close>

lemma AVL_FUEL_Suc: "\<exists>f. AVL_FUEL = Suc f"
  by (rule exI [of _ "2 ^ 64 - 1"]) (simp add: AVL_FUEL_def)

lemma AVL_FUEL_Suc2: "\<exists>f. AVL_FUEL = Suc (Suc f)"
  by (rule exI [of _ "2 ^ 64 - 2"]) (simp add: AVL_FUEL_def)

section \<open>Trees on the heap\<close>

text \<open>
  What a client promises about its nodes. \<open>kept\<close> is the part of the client's fields that callbacks
  leave alone (its key), \<open>valid\<close> relates the callback address to it, and \<open>aug\<close> is the local
  invariant that a callback re-establishes at a node from the fields of the node's children.
\<close>

locale avl_callbacks =
  fixes cb :: "'a callback"
    and aug :: "'a heap \<Rightarrow> u64 \<Rightarrow> bool"
    and kept :: "'a \<Rightarrow> 'k"
    and valid :: "u64 \<Rightarrow> 'k \<Rightarrow> bool"
  assumes cb_law: "h a = Some n \<Longrightarrow> a \<noteq> 0 \<Longrightarrow> valid (update n) (kept (avl_node.more n)) \<Longrightarrow>
      left n \<noteq> a \<Longrightarrow> right n \<noteq> a \<Longrightarrow>
      (left n \<noteq> 0 \<Longrightarrow> \<exists>m. h (left n) = Some m) \<Longrightarrow> (right n \<noteq> 0 \<Longrightarrow> \<exists>m. h (right n) = Some m) \<Longrightarrow>
      \<exists>m. (if update n \<noteq> 0 then cb (update n) h a else Inr h) = Inr (h(a \<mapsto> avl_node.more_update (\<lambda>_. m) n)) \<and>
        kept m = kept (avl_node.more n) \<and> aug (h(a \<mapsto> avl_node.more_update (\<lambda>_. m) n)) a"
    and aug_cong: "h a = Some n \<Longrightarrow> h' a = Some n' \<Longrightarrow> left n' = left n \<Longrightarrow> right n' = right n \<Longrightarrow>
      avl_node.more n' = avl_node.more n \<Longrightarrow>
      (\<And>c. c = left n \<or> c = right n \<Longrightarrow> c \<noteq> 0 \<Longrightarrow>
        map_option avl_node.more (h' c) = map_option avl_node.more (h c)) \<Longrightarrow>
      aug h a \<Longrightarrow> aug h' a"
begin

definition stat :: "'a avl_node_scheme \<Rightarrow> u64 \<times> 'k" where
  "stat n = (update n, kept (avl_node.more n))"

definition frame :: "u64 set \<Rightarrow> 'a heap \<Rightarrow> 'a heap \<Rightarrow> bool" where
  "frame A h h' \<longleftrightarrow> (\<forall>x. x \<notin> A \<longrightarrow> h' x = h x) \<and> (\<forall>x. map_option stat (h' x) = map_option stat (h x))"

fun tree_at :: "'a heap \<Rightarrow> u64 \<Rightarrow> u64 \<Rightarrow> u64 tree \<Rightarrow> bool" where
  "tree_at h par p Leaf \<longleftrightarrow> p = 0"
| "tree_at h par p (Node l a r) \<longleftrightarrow> p = a \<and> a \<noteq> 0 \<and> aug h a \<and>
     (\<exists>n. h a = Some n \<and> parent n = par \<and> subtree_max_depth n = of_nat (max (height l) (height r)) \<and>
        valid (update n) (kept (avl_node.more n)) \<and> tree_at h a (left n) l \<and> tree_at h a (right n) r)"

text \<open>A node whose depth and client fields may be out of date, above two correct subtrees.\<close>

definition top_at :: "'a heap \<Rightarrow> u64 \<Rightarrow> u64 tree \<Rightarrow> u64 \<Rightarrow> u64 tree \<Rightarrow> bool" where
  "top_at h par l a r \<longleftrightarrow> a \<noteq> 0 \<and> a \<notin> set_tree l \<and> a \<notin> set_tree r \<and>
     (\<exists>n. h a = Some n \<and> parent n = par \<and>
        valid (update n) (kept (avl_node.more n)) \<and> tree_at h a (left n) l \<and> tree_at h a (right n) r)"

lemma frame_refl [simp]: "frame A h h"
  by (simp add: frame_def)

lemma frame_trans: "frame A h h1 \<Longrightarrow> frame B h1 h2 \<Longrightarrow> A \<union> B \<subseteq> C \<Longrightarrow> frame C h h2"
  unfolding frame_def by (metis UnCI subsetD)

lemma frame_mono: "frame A h h' \<Longrightarrow> A \<subseteq> B \<Longrightarrow> frame B h h'"
  unfolding frame_def by blast

lemma frame_out: "frame A h h' \<Longrightarrow> x \<notin> A \<Longrightarrow> h' x = h x"
  by (simp add: frame_def)

lemma frame_upd: "h a = Some n \<Longrightarrow> stat n' = stat n \<Longrightarrow> frame {a} h (h(a \<mapsto> n'))"
  by (simp add: frame_def)

lemma frame_Some: "frame A h h' \<Longrightarrow> h a = Some n \<Longrightarrow> \<exists>n'. h' a = Some n' \<and> stat n' = stat n"
  unfolding frame_def by (metis map_option_eq_Some option.map(2))

lemma tree_at_nonzero: "tree_at h par p t \<Longrightarrow> 0 \<notin> set_tree t"
  by (induction t arbitrary: par p) auto

lemma tree_at_valid:
  "tree_at h par p t \<Longrightarrow> a \<in> set_tree t \<Longrightarrow> h a = Some n \<Longrightarrow> valid (update n) (kept (avl_node.more n))"
  by (induction t arbitrary: par p) auto

lemma tree_at_root: "tree_at h par p t \<Longrightarrow> p = 0 \<longleftrightarrow> t = Leaf"
  by (cases t) auto

lemma tree_at_alloc: "tree_at h par p t \<Longrightarrow> p \<noteq> 0 \<Longrightarrow> p \<in> set_tree t \<and> (\<exists>n. h p = Some n)"
  by (cases t) auto

lemma aug_children:
  assumes "aug h a" and "h a = Some n" and "h' a = Some n'" and "left n' = left n" and "right n' = right n"
    and "avl_node.more n' = avl_node.more n" and "tree_at h a (left n) l" and "tree_at h a (right n) r"
    and "\<And>x. x \<in> set_tree l \<union> set_tree r \<Longrightarrow> h' x = h x"
  shows "aug h' a"
proof (rule aug_cong [where h = h and a = a and n = n and n' = n'])
  fix c assume "c = left n \<or> c = right n" "c \<noteq> 0"
  then have "c \<in> set_tree l \<union> set_tree r" using assms(7,8) tree_at_alloc by blast
  then show "map_option avl_node.more (h' c) = map_option avl_node.more (h c)" using assms(9) by simp
qed (use assms in simp_all)

lemma tree_at_cong:
  assumes "tree_at h par p t" and "\<And>x. x \<in> set_tree t \<Longrightarrow> h' x = h x"
  shows "tree_at h' par p t"
  using assms
proof (induction t arbitrary: par p)
  case Leaf
  then show ?case by simp
next
  case (Node l a r)
  then obtain n where n: "h a = Some n" "tree_at h a (left n) l" "tree_at h a (right n) r" "aug h a" by auto
  have "aug h' a"
    by (rule aug_children [OF n(4,1) _ _ _ _ n(2,3)]) (use Node.prems(2) n(1) in auto)
  with Node n show ?case by auto
qed

lemma tree_at_frame:
  "tree_at h par p t \<Longrightarrow> frame A h h' \<Longrightarrow> set_tree t \<inter> A = {} \<Longrightarrow> tree_at h' par p t"
  by (erule tree_at_cong) (auto simp: frame_def)

lemma tree_at_reparent:
  assumes "tree_at h par p (Node l a r)" and "h a = Some n" and "h' a = Some (n\<lparr>parent := q\<rparr>)"
    and "\<And>x. x \<in> set_tree l \<union> set_tree r \<Longrightarrow> h' x = h x"
  shows "tree_at h' q p (Node l a r)"
proof -
  from assms(1,2) have t: "tree_at h a (left n) l" "tree_at h a (right n) r" "aug h a" by auto
  have "aug h' a"
    by (rule aug_children [OF t(3) assms(2,3) _ _ _ t(1,2) assms(4)]) simp_all
  moreover have "tree_at h' a (left n) l" "tree_at h' a (right n) r"
    using t assms(4) by (auto intro: tree_at_cong)
  ultimately show ?thesis using assms by auto
qed

lemma tree_at_moved:
  assumes "tree_at h par p t" and "distinct (inorder t)" and "p \<noteq> 0 \<Longrightarrow> h' p = Some ((the (h p))\<lparr>parent := q\<rparr>)"
    and "\<And>x. x \<in> set_tree t \<Longrightarrow> x \<noteq> p \<Longrightarrow> h' x = h x"
  shows "tree_at h' q p t"
proof (cases t)
  case Leaf
  then show ?thesis using assms(1) by simp
next
  case (Node l a r)
  then obtain n where "h a = Some n" "p = a" "a \<noteq> 0" using assms(1) by auto
  then show ?thesis
    unfolding Node using assms(2-4) Node
    by (intro tree_at_reparent [OF assms(1) [unfolded Node]]) auto
qed

lemma tree_at_top:
  "tree_at h par p (Node l a r) \<Longrightarrow> a \<notin> set_tree l \<union> set_tree r \<Longrightarrow> top_at h par l a r \<and> p = a"
  by (auto simp: top_at_def)

lemma avl_update_law:
  assumes "top_at h par l a r" and "height l < 2 ^ 31" and "height r < 2 ^ 31"
  shows "\<exists>h'. avl_update cb h a = Inr h' \<and> tree_at h' par a (Node l a r) \<and> frame {a} h h'"
proof -
  from assms(1) obtain n where n: "a \<noteq> 0" "a \<notin> set_tree l" "a \<notin> set_tree r" "h a = Some n" "parent n = par"
      "valid (update n) (kept (avl_node.more n))" "tree_at h a (left n) l" "tree_at h a (right n) r"
    by (auto simp: top_at_def)
  have dl: "child_depth h (left n) = Inr (int (height l) - 1)"
    using n(7) assms(2) by (cases l) (auto simp: child_depth_def to_int_of_nat to_int_minus_1)
  have dr: "child_depth h (right n) = Inr (int (height r) - 1)"
    using n(8) assms(3) by (cases r) (auto simp: child_depth_def to_int_of_nat to_int_minus_1)
  define n1 where "n1 = n\<lparr>subtree_max_depth := of_nat (max (height l) (height r))\<rparr>"
  define h1 where "h1 = h(a \<mapsto> n1)"
  have t1: "tree_at h1 a (left n1) l" "tree_at h1 a (right n1) r"
    using n(2,3,7,8) by (auto simp: h1_def n1_def intro: tree_at_cong)
  have ch: "left n1 \<noteq> a" "right n1 \<noteq> a" "left n1 \<noteq> 0 \<Longrightarrow> \<exists>m. h1 (left n1) = Some m"
    "right n1 \<noteq> 0 \<Longrightarrow> \<exists>m. h1 (right n1) = Some m"
    using t1 n(1-3) by (metis tree_at_alloc)+
  obtain m where m: "(if update n1 \<noteq> 0 then cb (update n1) h1 a else Inr h1) =
        Inr (h1(a \<mapsto> avl_node.more_update (\<lambda>_. m) n1))" "kept m = kept (avl_node.more n1)"
      "aug (h1(a \<mapsto> avl_node.more_update (\<lambda>_. m) n1)) a"
    using cb_law [of h1 a n1] ch n(1,6) by (auto simp: h1_def n1_def)
  let ?n2 = "avl_node.more_update (\<lambda>_. m) n1"
  have "word_of_int (max (int (height l) - 1) (int (height r) - 1) + 1) = (of_nat (max (height l) (height r)) :: u64)"
    by (auto simp: max_def of_nat_diff)
  then have "avl_update cb h a = Inr (h(a \<mapsto> ?n2))"
    using n(1,4) dl dr m(1) unfolding h1_def n1_def by (simp add: avl_update_def cong: if_cong)
  moreover have "tree_at (h(a \<mapsto> ?n2)) a (left n) l" "tree_at (h(a \<mapsto> ?n2)) a (right n) r"
    using n(2,3,7,8) by (auto intro: tree_at_cong)
  moreover have "frame {a} h (h(a \<mapsto> ?n2))"
    using n(4) m(2) by (intro frame_upd) (simp_all add: stat_def n1_def)
  ultimately show ?thesis
    using n(1,5,6) m(2,3) by (simp add: h1_def n1_def)
qed

text \<open>A subtree whose root alone may be out of date.\<close>

definition sub_at :: "'a heap \<Rightarrow> u64 \<Rightarrow> u64 \<Rightarrow> u64 tree \<Rightarrow> bool" where
  "sub_at h par p t \<longleftrightarrow> (case t of Leaf \<Rightarrow> p = 0 | Node l a r \<Rightarrow> p = a \<and> top_at h par l a r)"

lemma sub_at_simps [simp]:
  "sub_at h par p Leaf \<longleftrightarrow> p = 0" "sub_at h par p (Node l a r) \<longleftrightarrow> p = a \<and> top_at h par l a r"
  by (simp_all add: sub_at_def)

lemma tree_at_sub: "tree_at h par p t \<Longrightarrow> distinct (inorder t) \<Longrightarrow> sub_at h par p t"
  by (cases t) (auto simp: top_at_def)

lemma top_at_cong:
  assumes "top_at h par l a r" and "\<And>x. x = a \<or> x \<in> set_tree l \<or> x \<in> set_tree r \<Longrightarrow> h' x = h x"
  shows "top_at h' par l a r"
proof -
  from assms(1) obtain n where "h a = Some n" "tree_at h a (left n) l" "tree_at h a (right n) r"
    by (auto simp: top_at_def)
  moreover from this have "tree_at h' a (left n) l" "tree_at h' a (right n) r"
    using assms(2) by (auto intro: tree_at_cong)
  ultimately show ?thesis using assms by (auto simp: top_at_def)
qed

lemma sub_at_cong:
  "sub_at h par p t \<Longrightarrow> (\<And>x. x \<in> set_tree t \<Longrightarrow> h' x = h x) \<Longrightarrow> sub_at h' par p t"
  by (cases t) (auto intro: top_at_cong)

lemma avl_update_sub_law:
  assumes "sub_at h par p t" and "height t \<le> 2 ^ 31"
  shows "\<exists>h'. avl_update cb h p = Inr h' \<and> tree_at h' par p t \<and> frame (set_tree t) h h'"
proof (cases t)
  case Leaf
  then show ?thesis using assms(1) by (simp add: avl_update_def)
next
  case (Node l a r)
  then have t: "top_at h par l a r" "p = a" "height l < 2 ^ 31" "height r < 2 ^ 31" using assms by auto
  from avl_update_law [OF t(1,3,4)] obtain h' where
    h': "avl_update cb h p = Inr h'" "tree_at h' par p t" "frame {a} h h'"
    using t(2) Node by blast
  from h'(3) have "frame (set_tree t) h h'" by (rule frame_mono) (simp add: Node)
  with h' show ?thesis by blast
qed

lemma balance_factor_law:
  assumes "top_at h par l a r" and "height l < 2 ^ 31" and "height r < 2 ^ 31"
  shows "avl_get_balance_factor h a = Inr (int (height l) - int (height r))"
proof -
  from assms(1) obtain n where n: "a \<noteq> 0" "h a = Some n" "tree_at h a (left n) l" "tree_at h a (right n) r"
    by (auto simp: top_at_def)
  have dl: "(if left n \<noteq> 0 then bindE (rd h (left n)) (\<lambda>m. Inr (subtree_max_depth m + 1)) else Inr 0) =
      Inr (of_nat (height l))"
    using n(3) by (cases l) auto
  have dr: "(if right n \<noteq> 0 then bindE (rd h (right n)) (\<lambda>m. Inr (subtree_max_depth m + 1)) else Inr 0) =
      Inr (of_nat (height r))"
    using n(4) by (cases r) auto
  show ?thesis
    using n(1,2) dl dr assms(2,3) by (simp add: avl_get_balance_factor_def to_int_diff)
qed

text \<open>The end of both rotations: the children of the new root are updated, then the new root.\<close>

lemma rotate_finish:
  assumes k: "h b = Some k" "b \<noteq> 0" "parent k = par" "valid (update k) (kept (avl_node.more k))"
    and sub: "sub_at h b (left k) l" "sub_at h b (right k) r"
    and d: "distinct (inorder (Node l b r))" and ht: "height l < 2 ^ 31" "height r < 2 ^ 31"
  shows "\<exists>h'. bindE (avl_update cb h (left k)) (\<lambda>h6. bindE (rd h6 b) (\<lambda>k.
           bindE (avl_update cb h6 (right k)) (\<lambda>h7. bindE (avl_update cb h7 b) (\<lambda>h8. Inr (b, h8))))) =
             Inr (b, h') \<and> tree_at h' par b (Node l b r) \<and> frame (set_tree (Node l b r)) h h'"
proof -
  from avl_update_sub_law [OF sub(1)] ht obtain h6 where
    h6: "avl_update cb h (left k) = Inr h6" "tree_at h6 b (left k) l" "frame (set_tree l) h h6" by auto
  have k6: "h6 b = Some k" using frame_out [OF h6(3), of b] d k(1) by auto
  have "sub_at h6 b (right k) r"
    using sub(2) d by (auto intro!: sub_at_cong [OF sub(2)] frame_out [OF h6(3)])
  from avl_update_sub_law [OF this] ht obtain h7 where
    h7: "avl_update cb h6 (right k) = Inr h7" "tree_at h7 b (right k) r" "frame (set_tree r) h6 h7" by auto
  have k7: "h7 b = Some k" using frame_out [OF h7(3), of b] d k6 by auto
  have "tree_at h7 b (left k) l" using tree_at_frame [OF h6(2) h7(3)] d by auto
  with k7 h7(2) k d have "top_at h7 par l b r" by (auto simp: top_at_def)
  from avl_update_law [OF this ht] obtain h8 where
    h8: "avl_update cb h7 b = Inr h8" "tree_at h8 par b (Node l b r)" "frame {b} h7 h8" by auto
  have "frame (set_tree (Node l b r)) h h8"
    by (rule frame_trans [OF frame_trans [OF h6(3) h7(3) order_refl] h8(3)]) auto
  with h6(1) h7(1) h8(1,2) k6 k(2) show ?thesis by auto
qed

lemma rotate_right_law:
  assumes t: "top_at h par (Node ll b lr) a r" and d: "distinct (inorder (Node (Node ll b lr) a r))"
    and ht: "height (Node (Node ll b lr) a r) < 2 ^ 31"
  shows "\<exists>h'. avl_rotate_right cb h a = Inr (b, h') \<and> tree_at h' par b (rotR (Node (Node ll b lr) a r)) \<and>
           frame (set_tree (Node (Node ll b lr) a r)) h h'"
proof -
  from t obtain na nb where na: "a \<noteq> 0" "h a = Some na" "parent na = par" "left na = b"
      "valid (update na) (kept (avl_node.more na))" "tree_at h a (right na) r"
    and nb: "b \<noteq> 0" "h b = Some nb" "valid (update nb) (kept (avl_node.more nb))"
      "tree_at h b (left nb) ll" "tree_at h b (right nb) lr"
    by (auto simp: top_at_def)
  define h1 where "h1 = h(a \<mapsto> na\<lparr>left := right nb\<rparr>)"
  define h2 where "h2 = (if right nb \<noteq> 0 then h1(right nb \<mapsto> (the (h (right nb)))\<lparr>parent := a\<rparr>) else h1)"
  define h5 where "h5 = h2(b \<mapsto> nb\<lparr>right := a, parent := par\<rparr>, a \<mapsto> na\<lparr>left := right nb, parent := b\<rparr>)"
  have neq: "a \<noteq> b" "right nb \<noteq> a" "right nb \<noteq> b" using d nb(5) na(1) nb(1) by (cases lr; auto)+
  have c: "\<exists>n. h (right nb) = Some n" if "right nb \<noteq> 0" using tree_at_alloc [OF nb(5) that] by blast
  have h5: "h5 a = Some (na\<lparr>left := right nb, parent := b\<rparr>)" "h5 b = Some (nb\<lparr>right := a, parent := par\<rparr>)"
    "\<And>x. x \<noteq> a \<Longrightarrow> x \<noteq> b \<Longrightarrow> x \<noteq> right nb \<Longrightarrow> h5 x = h x"
    "right nb \<noteq> 0 \<Longrightarrow> h5 (right nb) = Some ((the (h (right nb)))\<lparr>parent := a\<rparr>)"
    using neq by (auto simp: h5_def h2_def h1_def)
  have lr: "tree_at h5 a (right nb) lr"
    by (rule tree_at_moved [OF nb(5)]) (use h5(4) d in \<open>auto intro!: h5(3)\<close>)
  have out: "h5 x = h x" if "x \<in> set_tree ll \<union> set_tree r" for x
    using that h5(3) [of x] d nb(5) tree_at_nonzero [OF nb(4)] tree_at_nonzero [OF na(6)] by (cases lr) auto
  have "tree_at h5 b (left nb) ll" "tree_at h5 a (right na) r"
    using nb(4) na(6) out by (auto intro: tree_at_cong)
  with lr na nb h5 d have "sub_at h5 b (left nb) ll" "sub_at h5 b a (Node lr a r)"
    by (auto intro!: tree_at_sub simp: top_at_def)
  with rotate_finish [of h5 b "nb\<lparr>right := a, parent := par\<rparr>" par ll "Node lr a r"] h5(2) nb d ht
  obtain h' where h': "bindE (avl_update cb h5 (left nb)) (\<lambda>h6. bindE (rd h6 b) (\<lambda>k.
           bindE (avl_update cb h6 (right k)) (\<lambda>h7. bindE (avl_update cb h7 b) (\<lambda>h8. Inr (b, h8))))) =
             Inr (b, h')" "tree_at h' par b (Node ll b (Node lr a r))"
      "frame (set_tree (Node ll b (Node lr a r))) h5 h'"
    by auto
  have "avl_rotate_right cb h a = bindE (avl_update cb h5 (left nb)) (\<lambda>h6. bindE (rd h6 b) (\<lambda>k.
           bindE (avl_update cb h6 (right k)) (\<lambda>h7. bindE (avl_update cb h7 b) (\<lambda>h8. Inr (b, h8)))))"
    using na(1-4) nb(1,2) neq c unfolding avl_rotate_right_def h5_def h2_def h1_def
    by (auto simp: Let_def)
  moreover have "frame (set_tree (Node (Node ll b lr) a r)) h h5"
    using h5 na nb neq c tree_at_alloc [OF nb(5)] by (auto simp: frame_def stat_def h5_def h2_def h1_def)
  ultimately show ?thesis using h' by (auto intro: frame_trans)
qed

lemma rotate_left_law:
  assumes t: "top_at h par l a (Node rl b rr)" and d: "distinct (inorder (Node l a (Node rl b rr)))"
    and ht: "height (Node l a (Node rl b rr)) < 2 ^ 31"
  shows "\<exists>h'. avl_rotate_left cb h a = Inr (b, h') \<and> tree_at h' par b (rotL (Node l a (Node rl b rr))) \<and>
           frame (set_tree (Node l a (Node rl b rr))) h h'"
proof -
  from t obtain na nb where na: "a \<noteq> 0" "h a = Some na" "parent na = par" "right na = b"
      "valid (update na) (kept (avl_node.more na))" "tree_at h a (left na) l"
    and nb: "b \<noteq> 0" "h b = Some nb" "valid (update nb) (kept (avl_node.more nb))"
      "tree_at h b (right nb) rr" "tree_at h b (left nb) rl"
    by (auto simp: top_at_def)
  define h1 where "h1 = h(a \<mapsto> na\<lparr>right := left nb\<rparr>)"
  define h2 where "h2 = (if left nb \<noteq> 0 then h1(left nb \<mapsto> (the (h (left nb)))\<lparr>parent := a\<rparr>) else h1)"
  define h5 where "h5 = h2(b \<mapsto> nb\<lparr>left := a, parent := par\<rparr>, a \<mapsto> na\<lparr>right := left nb, parent := b\<rparr>)"
  have neq: "a \<noteq> b" "left nb \<noteq> a" "left nb \<noteq> b" using d nb(5) na(1) nb(1) by (cases rl; auto)+
  have c: "\<exists>n. h (left nb) = Some n" if "left nb \<noteq> 0" using tree_at_alloc [OF nb(5) that] by blast
  have h5: "h5 a = Some (na\<lparr>right := left nb, parent := b\<rparr>)" "h5 b = Some (nb\<lparr>left := a, parent := par\<rparr>)"
    "\<And>x. x \<noteq> a \<Longrightarrow> x \<noteq> b \<Longrightarrow> x \<noteq> left nb \<Longrightarrow> h5 x = h x"
    "left nb \<noteq> 0 \<Longrightarrow> h5 (left nb) = Some ((the (h (left nb)))\<lparr>parent := a\<rparr>)"
    using neq by (auto simp: h5_def h2_def h1_def)
  have rl: "tree_at h5 a (left nb) rl"
    by (rule tree_at_moved [OF nb(5)]) (use h5(4) d in \<open>auto intro!: h5(3)\<close>)
  have out: "h5 x = h x" if "x \<in> set_tree rr \<union> set_tree l" for x
    using that h5(3) [of x] d nb(5) tree_at_nonzero [OF nb(4)] tree_at_nonzero [OF na(6)] by (cases rl) auto
  have "tree_at h5 b (right nb) rr" "tree_at h5 a (left na) l"
    using nb(4) na(6) out by (auto intro: tree_at_cong)
  with rl na nb h5 d have "sub_at h5 b (right nb) rr" "sub_at h5 b a (Node l a rl)"
    by (auto intro!: tree_at_sub simp: top_at_def)
  with rotate_finish [of h5 b "nb\<lparr>left := a, parent := par\<rparr>" par "Node l a rl" rr] h5(2) nb d ht
  obtain h' where h': "bindE (avl_update cb h5 a) (\<lambda>h6. bindE (rd h6 b) (\<lambda>k.
           bindE (avl_update cb h6 (right k)) (\<lambda>h7. bindE (avl_update cb h7 b) (\<lambda>h8. Inr (b, h8))))) =
             Inr (b, h')" "tree_at h' par b (Node (Node l a rl) b rr)"
      "frame (set_tree (Node (Node l a rl) b rr)) h5 h'"
    by auto
  have "avl_rotate_left cb h a = bindE (avl_update cb h5 a) (\<lambda>h6. bindE (rd h6 b) (\<lambda>k.
           bindE (avl_update cb h6 (right k)) (\<lambda>h7. bindE (avl_update cb h7 b) (\<lambda>h8. Inr (b, h8)))))"
    using na(1-4) nb(1,2) neq c unfolding avl_rotate_left_def h5_def h2_def h1_def
    by (auto simp: Let_def)
  moreover have "frame (set_tree (Node l a (Node rl b rr))) h h5"
    using h5 na nb neq c tree_at_alloc [OF nb(5)] by (auto simp: frame_def stat_def h5_def h2_def h1_def)
  ultimately show ?thesis using h' by (auto intro: frame_trans)
qed

lemma double_right_law:
  assumes t: "tree_at h par a (Node (Node ll b (Node x c y)) a r)" (is "tree_at h par a (Node ?l a r)")
    and d: "distinct (inorder (Node (Node ll b (Node x c y)) a r))"
    and ht: "height (Node (Node ll b (Node x c y)) a r) < 2 ^ 30"
  shows "\<exists>h'. bindE (avl_rotate_left cb h b) (\<lambda>(c, h1).
             bindE (wr h1 a (\<lambda>k. k\<lparr>left := c\<rparr>)) (\<lambda>h2. avl_rotate_right cb h2 a)) = Inr (c, h') \<and>
           tree_at h' par c (rotR (Node (rotL ?l) a r)) \<and> frame (set_tree (Node ?l a r)) h h'"
proof -
  from t obtain n where n: "a \<noteq> 0" "h a = Some n" "parent n = par" "tree_at h a (left n) ?l" "tree_at h a (right n) r"
      "valid (update n) (kept (avl_node.more n))" by auto
  have dl: "distinct (inorder ?l)" using d by (rule distinct_subtrees)
  have top: "top_at h a ll b (Node x c y)" using tree_at_top [OF n(4)] dl by auto
  from rotate_left_law [OF top dl] ht obtain h1 where
    h1: "avl_rotate_left cb h b = Inr (c, h1)" "tree_at h1 a c (Node (Node ll b x) c y)" "frame (set_tree ?l) h h1"
    by (auto simp del: tree_at.simps)
  define h2 where "h2 = h1(a \<mapsto> n\<lparr>left := c\<rparr>)"
  have h1a: "h1 a = Some n" using frame_out [OF h1(3), of a] n(2) d by auto
  have t2: "tree_at h2 a c (Node (Node ll b x) c y)"
    by (rule tree_at_cong [OF h1(2)]) (use d in \<open>auto simp: h2_def\<close>)
  have "tree_at h1 a (right n) r" by (rule tree_at_frame [OF n(5) h1(3)]) (use d in auto)
  then have r2: "tree_at h2 a (right n) r" by (rule tree_at_cong) (use d in \<open>auto simp: h2_def\<close>)
  have w: "wr h1 a (\<lambda>k. k\<lparr>left := c\<rparr>) = Inr h2" and f2: "frame {a} h1 h2"
    using h1a n(1) by (auto simp: h2_def stat_def intro: frame_upd)
  have top2: "top_at h2 par (Node (Node ll b x) c y) a r"
    using t2 r2 n d by (auto simp: top_at_def h2_def simp del: tree_at.simps)
  from rotate_right_law [OF top2] d ht obtain h' where
    h': "avl_rotate_right cb h2 a = Inr (c, h')" "tree_at h' par c (Node (Node ll b x) c (Node y a r))"
      "frame (set_tree (Node (Node (Node ll b x) c y) a r)) h2 h'" by (auto simp del: tree_at.simps)
  have "frame (set_tree (Node ?l a r)) h h'"
    by (rule frame_trans [OF frame_trans [OF h1(3) f2 order_refl] h'(3)]) auto
  with h1(1) w h' show ?thesis by (simp del: tree_at.simps)
qed

lemma double_left_law:
  assumes t: "tree_at h par a (Node l a (Node (Node x c y) b rr))" (is "tree_at h par a (Node l a ?r)")
    and d: "distinct (inorder (Node l a (Node (Node x c y) b rr)))"
    and ht: "height (Node l a (Node (Node x c y) b rr)) < 2 ^ 30"
  shows "\<exists>h'. bindE (avl_rotate_right cb h b) (\<lambda>(c, h1).
             bindE (wr h1 a (\<lambda>k. k\<lparr>right := c\<rparr>)) (\<lambda>h2. avl_rotate_left cb h2 a)) = Inr (c, h') \<and>
           tree_at h' par c (rotL (Node l a (rotR ?r))) \<and> frame (set_tree (Node l a ?r)) h h'"
proof -
  from t obtain n where n: "a \<noteq> 0" "h a = Some n" "parent n = par" "tree_at h a (left n) l" "tree_at h a (right n) ?r"
      "valid (update n) (kept (avl_node.more n))" by auto
  have dr: "distinct (inorder ?r)" using d by (rule distinct_subtrees)
  have top: "top_at h a (Node x c y) b rr" using tree_at_top [OF n(5)] dr by auto
  from rotate_right_law [OF top dr] ht obtain h1 where
    h1: "avl_rotate_right cb h b = Inr (c, h1)" "tree_at h1 a c (Node x c (Node y b rr))" "frame (set_tree ?r) h h1"
    by (auto simp del: tree_at.simps)
  define h2 where "h2 = h1(a \<mapsto> n\<lparr>right := c\<rparr>)"
  have h1a: "h1 a = Some n" using frame_out [OF h1(3), of a] n(2) d by auto
  have t2: "tree_at h2 a c (Node x c (Node y b rr))"
    by (rule tree_at_cong [OF h1(2)]) (use d in \<open>auto simp: h2_def\<close>)
  have "tree_at h1 a (left n) l" by (rule tree_at_frame [OF n(4) h1(3)]) (use d in auto)
  then have l2: "tree_at h2 a (left n) l" by (rule tree_at_cong) (use d in \<open>auto simp: h2_def\<close>)
  have w: "wr h1 a (\<lambda>k. k\<lparr>right := c\<rparr>) = Inr h2" and f2: "frame {a} h1 h2"
    using h1a n(1) by (auto simp: h2_def stat_def intro: frame_upd)
  have top2: "top_at h2 par l a (Node x c (Node y b rr))"
    using t2 l2 n d by (auto simp: top_at_def h2_def simp del: tree_at.simps)
  from rotate_left_law [OF top2] d ht obtain h' where
    h': "avl_rotate_left cb h2 a = Inr (c, h')" "tree_at h' par c (Node (Node l a x) c (Node y b rr))"
      "frame (set_tree (Node l a (Node x c (Node y b rr)))) h2 h'" by (auto simp del: tree_at.simps)
  have "frame (set_tree (Node l a ?r)) h h'"
    by (rule frame_trans [OF frame_trans [OF h1(3) f2 order_refl] h'(3)]) auto
  with h1(1) w h' show ?thesis by (simp del: tree_at.simps)
qed

text \<open>Rebalancing: a rotation never meets a missing child, because the depth fields are right.\<close>

lemma check_and_balance_law:
  assumes t: "tree_at h par a (Node l a r)" and d: "distinct (inorder (Node l a r))"
    and ht: "height (Node l a r) < 2 ^ 30"
  shows "\<exists>p h'. avl_check_and_balance cb h a = Inr (p, h') \<and> tree_at h' par p (rebal (Node l a r)) \<and>
           frame (set_tree (Node l a r)) h h'"
proof -
  have top: "top_at h par l a r" using tree_at_top [OF t] d by auto
  have bf: "avl_get_balance_factor h a = Inr (int (height l) - int (height r))"
    by (rule balance_factor_law [OF top]) (use ht in auto)
  from t obtain n where n: "a \<noteq> 0" "h a = Some n" "tree_at h a (left n) l" "tree_at h a (right n) r" by auto
  have ht31: "height (Node l a r) < 2 ^ 31" using ht by simp
  consider (even) "\<bar>int (height l) - int (height r)\<bar> < 2"
    | (left) "height l \<ge> height r + 2" | (right) "height r \<ge> height l + 2" by linarith
  then show ?thesis
  proof cases
    case even
    then show ?thesis using t bf by (auto simp: avl_check_and_balance_def rebal.simps simp del: tree_at.simps)
  next
    case left
    then obtain ll b lr where l: "l = Node ll b lr" by (cases l) auto
    have b: "left n = b" "top_at h a ll b lr" using tree_at_top [of h a "left n" ll b lr] n(3) d l by auto
    have bb: "avl_get_balance_factor h b = Inr (int (height ll) - int (height lr))"
      by (rule balance_factor_law [OF b(2)]) (use ht l in auto)
    have eq: "avl_check_and_balance cb h a =
        (if height lr < height ll then avl_rotate_right cb h a
         else bindE (avl_rotate_left cb h b) (\<lambda>(c, h1).
                bindE (wr h1 a (\<lambda>k. k\<lparr>left := c\<rparr>)) (\<lambda>h2. avl_rotate_right cb h2 a)))"
      using left bf bb b(1) n(1,2) by (simp add: avl_check_and_balance_def)
    show ?thesis
    proof (cases "height lr < height ll")
      case True
      then have "rebal (Node l a r) = rotR (Node l a r)" using left l by (simp add: rebal.simps)
      with True rotate_right_law [OF top [unfolded l] d [unfolded l] ht31 [unfolded l]] show ?thesis
        unfolding eq l by (simp del: tree_at.simps rotR.simps) blast
    next
      case False
      then obtain x c y where lr: "lr = Node x c y" using left l by (cases lr) auto
      have "rebal (Node l a r) = rotR (Node (rotL l) a r)" using False left l by (simp add: rebal.simps)
      with False double_right_law [OF t [unfolded l lr] d [unfolded l lr] ht [unfolded l lr]] show ?thesis
        unfolding eq l lr by (simp del: tree_at.simps rotR.simps rotL.simps) blast
    qed
  next
    case right
    then obtain rl b rr where r: "r = Node rl b rr" by (cases r) auto
    have b: "right n = b" "top_at h a rl b rr" using tree_at_top [of h a "right n" rl b rr] n(4) d r by auto
    have bb: "avl_get_balance_factor h b = Inr (int (height rl) - int (height rr))"
      by (rule balance_factor_law [OF b(2)]) (use ht r in auto)
    have eq: "avl_check_and_balance cb h a =
        (if height rl < height rr then avl_rotate_left cb h a
         else bindE (avl_rotate_right cb h b) (\<lambda>(c, h1).
                bindE (wr h1 a (\<lambda>k. k\<lparr>right := c\<rparr>)) (\<lambda>h2. avl_rotate_left cb h2 a)))"
      using right bf bb b(1) n(1,2) by (simp add: avl_check_and_balance_def)
    show ?thesis
    proof (cases "height rl < height rr")
      case True
      then have "rebal (Node l a r) = rotL (Node l a r)" using right r by (simp add: rebal.simps)
      with True rotate_left_law [OF top [unfolded r] d [unfolded r] ht31 [unfolded r]] show ?thesis
        unfolding eq r by (simp del: tree_at.simps rotL.simps) blast
    next
      case False
      then obtain x c y where rl: "rl = Node x c y" using right r by (cases rl) auto
      have "rebal (Node l a r) = rotL (Node l a (rotR r))" using False right r by (simp add: rebal.simps)
      with False double_left_law [OF t [unfolded r rl] d [unfolded r rl] ht [unfolded r rl]] show ?thesis
        unfolding eq r rl by (simp del: tree_at.simps rotR.simps rotL.simps) blast
    qed
  qed
qed

lemma update_and_balance_law:
  assumes top: "top_at h par l a r" and d: "distinct (inorder (Node l a r))" and ht: "height (Node l a r) < 2 ^ 30"
  shows "\<exists>p h'. bindE (avl_update cb h a) (\<lambda>h4. avl_check_and_balance cb h4 a) = Inr (p, h') \<and>
           tree_at h' par p (rebal (Node l a r)) \<and> frame (set_tree (Node l a r)) h h'"
proof -
  obtain h4 where h4: "avl_update cb h a = Inr h4" "tree_at h4 par a (Node l a r)" "frame {a} h h4"
    using avl_update_law [OF top] ht by auto
  from check_and_balance_law [OF h4(2) d ht] obtain p h' where
    h': "avl_check_and_balance cb h4 a = Inr (p, h')" "tree_at h' par p (rebal (Node l a r))"
      "frame (set_tree (Node l a r)) h4 h'" by blast
  have "frame (set_tree (Node l a r)) h h'" by (rule frame_trans [OF h4(3) h'(3)]) simp
  with h4(1) h' show ?thesis by simp
qed

lemma attach_left:
  assumes n: "h a = Some n" "a \<noteq> 0" "parent n = par" "valid (update n) (kept (avl_node.more n))"
    and sub: "tree_at h a c l" "tree_at h a (right n) r"
    and d: "distinct (inorder (Node l a r))" and ht: "height (Node l a r) < 2 ^ 30"
  shows "\<exists>p h'. bindE (avl_update cb (h(a \<mapsto> n\<lparr>left := c\<rparr>)) a) (\<lambda>h4. avl_check_and_balance cb h4 a) = Inr (p, h') \<and>
           tree_at h' par p (rebal (Node l a r)) \<and> frame (set_tree (Node l a r)) h h'"
proof -
  let ?h = "h(a \<mapsto> n\<lparr>left := c\<rparr>)"
  have fr: "frame {a} h ?h" using n by (auto simp: stat_def intro: frame_upd)
  have "top_at ?h par l a r"
    using n d sub by (auto simp: top_at_def intro!: tree_at_frame [OF _ fr])
  from update_and_balance_law [OF this d ht] obtain p h' where
    h': "bindE (avl_update cb ?h a) (\<lambda>h4. avl_check_and_balance cb h4 a) = Inr (p, h')"
      "tree_at h' par p (rebal (Node l a r))" "frame (set_tree (Node l a r)) ?h h'" by blast
  have "frame (set_tree (Node l a r)) h h'" by (rule frame_trans [OF fr h'(3)]) simp
  with h' show ?thesis by blast
qed

lemma attach_right:
  assumes n: "h a = Some n" "a \<noteq> 0" "parent n = par" "valid (update n) (kept (avl_node.more n))"
    and sub: "tree_at h a (left n) l" "tree_at h a c r"
    and d: "distinct (inorder (Node l a r))" and ht: "height (Node l a r) < 2 ^ 30"
  shows "\<exists>p h'. bindE (avl_update cb (h(a \<mapsto> n\<lparr>right := c\<rparr>)) a) (\<lambda>h4. avl_check_and_balance cb h4 a) = Inr (p, h') \<and>
           tree_at h' par p (rebal (Node l a r)) \<and> frame (set_tree (Node l a r)) h h'"
proof -
  let ?h = "h(a \<mapsto> n\<lparr>right := c\<rparr>)"
  have fr: "frame {a} h ?h" using n by (auto simp: stat_def intro: frame_upd)
  have "top_at ?h par l a r"
    using n d sub by (auto simp: top_at_def intro!: tree_at_frame [OF _ fr])
  from update_and_balance_law [OF this d ht] obtain p h' where
    h': "bindE (avl_update cb ?h a) (\<lambda>h4. avl_check_and_balance cb h4 a) = Inr (p, h')"
      "tree_at h' par p (rebal (Node l a r))" "frame (set_tree (Node l a r)) ?h h'" by blast
  have "frame (set_tree (Node l a r)) h h'" by (rule frame_trans [OF fr h'(3)]) simp
  with h' show ?thesis by blast
qed

section \<open>Contexts on the heap\<close>

fun ctx_at :: "'a heap \<Rightarrow> u64 \<Rightarrow> u64 \<Rightarrow> u64 step list \<Rightarrow> bool" where
  "ctx_at h p par [] \<longleftrightarrow> par = 0"
| "ctx_at h p par (InLeft a r # c) \<longleftrightarrow> par = a \<and> a \<noteq> 0 \<and>
     (\<exists>n. h a = Some n \<and> valid (update n) (kept (avl_node.more n)) \<and> left n = p \<and>
        tree_at h a (right n) r \<and> ctx_at h a (parent n) c)"
| "ctx_at h p par (InRight l a # c) \<longleftrightarrow> par = a \<and> a \<noteq> 0 \<and>
     (\<exists>n. h a = Some n \<and> valid (update n) (kept (avl_node.more n)) \<and> right n = p \<and>
        tree_at h a (left n) l \<and> ctx_at h a (parent n) c)"

lemma tree_at_plug:
  "tree_at h 0 rt (plug c t) \<Longrightarrow> \<exists>p par. tree_at h par p t \<and> ctx_at h p par c"
proof (induction c t rule: plug.induct)
  case (1 t)
  then show ?case by auto
next
  case (2 a r c t)
  then show ?case by fastforce
next
  case (3 l a c t)
  then show ?case by fastforce
qed

lemma ctx_at_cong:
  "ctx_at h p par c \<Longrightarrow> \<forall>x\<in>set (before c) \<union> set (after c). h' x = h x \<Longrightarrow> ctx_at h' p par c"
proof (induction c arbitrary: p par)
  case Nil
  then show ?case by simp
next
  case (Cons s c)
  then show ?case
    by (cases s) (auto intro!: tree_at_cong [where h = h and h' = h'] Cons.IH)
qed

lemma tree_at_head: "tree_at h par p t \<Longrightarrow> t \<noteq> Leaf \<Longrightarrow> p \<noteq> 0 \<and> (\<exists>n. h p = Some n \<and> parent n = par)"
  by (cases t) auto

lemma bubble_step:
  assumes top: "top_at h par l a r" and d: "distinct (inorder (Node l a r))" and ht: "height (Node l a r) < 2 ^ 30"
  shows "\<exists>p h2. tree_at h2 par p (rebal (Node l a r)) \<and> frame (set_tree (Node l a r)) h h2 \<and>
    bubble_loop (Suc fuel) cb h a =
      (if par = 0 then Inr (p, h2)
       else bindE (rd h2 par) (\<lambda>q.
         bindE (if a = left q then wr h2 par (\<lambda>k. k\<lparr>left := p\<rparr>) else wr h2 par (\<lambda>k. k\<lparr>right := p\<rparr>)) (\<lambda>h3.
           bubble_loop fuel cb h3 par)))"
proof -
  from update_and_balance_law [OF assms] obtain p h2 where
    h2: "bindE (avl_update cb h a) (\<lambda>h4. avl_check_and_balance cb h4 a) = Inr (p, h2)"
      "tree_at h2 par p (rebal (Node l a r))" "frame (set_tree (Node l a r)) h h2" by blast
  from tree_at_head [OF h2(2)] obtain n where n: "p \<noteq> 0" "h2 p = Some n" "parent n = par" by auto
  from h2(1) obtain h1 where "avl_update cb h a = Inr h1" "avl_check_and_balance cb h1 a = Inr (p, h2)"
    by (auto simp: bindE_eq_Inr)
  with n have "bubble_loop (Suc fuel) cb h a =
      (if par = 0 then Inr (p, h2)
       else bindE (rd h2 par) (\<lambda>q.
         bindE (if a = left q then wr h2 par (\<lambda>k. k\<lparr>left := p\<rparr>) else wr h2 par (\<lambda>k. k\<lparr>right := p\<rparr>)) (\<lambda>h3.
           bubble_loop fuel cb h3 par)))"
    by (simp cong: if_cong)
  with h2(2,3) show ?thesis by blast
qed

lemma bubble_left:
  assumes c: "ctx_at h a b (InLeft b u # c)" and t2: "tree_at h2 b p (rebal t)" and fr: "frame (set_tree t) h h2"
    and d: "distinct (inorder (plug c (Node t b u)))"
  shows "\<exists>n. h2 b = Some n \<and> b \<noteq> 0 \<and> left n = a \<and> tree_at h b (right n) u \<and>
           top_at (h2(b \<mapsto> n\<lparr>left := p\<rparr>)) (parent n) (rebal t) b u \<and>
           ctx_at (h2(b \<mapsto> n\<lparr>left := p\<rparr>)) b (parent n) c \<and>
           frame (set_tree (Node t b u)) h (h2(b \<mapsto> n\<lparr>left := p\<rparr>))"
proof -
  from c obtain n where n: "b \<noteq> 0" "h b = Some n" "valid (update n) (kept (avl_node.more n))" "left n = a"
      "tree_at h b (right n) u" "ctx_at h b (parent n) c" by auto
  from d have out: "b \<notin> set_tree t" "set_tree u \<inter> set_tree t = {}" "b \<notin> set_tree u"
      "b \<notin> set (before c) \<union> set (after c)" "(set (before c) \<union> set (after c)) \<inter> set_tree t = {}"
    by (auto simp: inorder_plug)
  let ?h = "h2(b \<mapsto> n\<lparr>left := p\<rparr>)"
  have n2: "h2 b = Some n" using frame_out [OF fr out(1)] n(2) by simp
  have same: "?h x = h x" if "x \<notin> set_tree t" "x \<noteq> b" for x using frame_out [OF fr that(1)] that(2) by simp
  have "tree_at ?h b p (rebal t)"
    by (rule tree_at_cong [OF t2]) (use out(1) in auto)
  moreover have "tree_at ?h b (right n) u"
    by (rule tree_at_cong [OF n(5)], rule same) (use out in blast)+
  ultimately have "top_at ?h (parent n) (rebal t) b u"
    using n out by (auto simp: top_at_def)
  moreover have "ctx_at ?h b (parent n) c"
    by (rule ctx_at_cong [OF n(6)], rule ballI, rule same) (use out in blast)+
  moreover have "frame (set_tree (Node t b u)) h ?h"
    by (rule frame_trans [OF fr frame_upd [of h2 b n "n\<lparr>left := p\<rparr>"]]) (auto simp: n2 stat_def)
  ultimately show ?thesis using n n2 by blast
qed

lemma bubble_right:
  assumes c: "ctx_at h a b (InRight u b # c)" and t2: "tree_at h2 b p (rebal t)" and fr: "frame (set_tree t) h h2"
    and d: "distinct (inorder (plug c (Node u b t)))"
  shows "\<exists>n. h2 b = Some n \<and> b \<noteq> 0 \<and> right n = a \<and> tree_at h b (left n) u \<and>
           top_at (h2(b \<mapsto> n\<lparr>right := p\<rparr>)) (parent n) u b (rebal t) \<and>
           ctx_at (h2(b \<mapsto> n\<lparr>right := p\<rparr>)) b (parent n) c \<and>
           frame (set_tree (Node u b t)) h (h2(b \<mapsto> n\<lparr>right := p\<rparr>))"
proof -
  from c obtain n where n: "b \<noteq> 0" "h b = Some n" "valid (update n) (kept (avl_node.more n))" "right n = a"
      "tree_at h b (left n) u" "ctx_at h b (parent n) c" by auto
  from d have out: "b \<notin> set_tree t" "set_tree u \<inter> set_tree t = {}" "b \<notin> set_tree u"
      "b \<notin> set (before c) \<union> set (after c)" "(set (before c) \<union> set (after c)) \<inter> set_tree t = {}"
    by (auto simp: inorder_plug)
  let ?h = "h2(b \<mapsto> n\<lparr>right := p\<rparr>)"
  have n2: "h2 b = Some n" using frame_out [OF fr out(1)] n(2) by simp
  have same: "?h x = h x" if "x \<notin> set_tree t" "x \<noteq> b" for x using frame_out [OF fr that(1)] that(2) by simp
  have "tree_at ?h b p (rebal t)"
    by (rule tree_at_cong [OF t2]) (use out(1) in auto)
  moreover have "tree_at ?h b (left n) u"
    by (rule tree_at_cong [OF n(5)], rule same) (use out in blast)+
  ultimately have "top_at ?h (parent n) u b (rebal t)"
    using n out by (auto simp: top_at_def)
  moreover have "ctx_at ?h b (parent n) c"
    by (rule ctx_at_cong [OF n(6)], rule ballI, rule same) (use out in blast)+
  moreover have "frame (set_tree (Node u b t)) h ?h"
    by (rule frame_trans [OF fr frame_upd [of h2 b n "n\<lparr>right := p\<rparr>"]]) (auto simp: n2 stat_def)
  ultimately show ?thesis using n n2 by blast
qed

lemma bubble_law:
  assumes "top_at h par l a r" and "ctx_at h a par c" and "distinct (inorder (plug c (Node l a r)))"
    and "height (plug c (Node l a r)) < 2 ^ 30" and "length c < fuel"
  shows "\<exists>p h'. bubble_loop fuel cb h a = Inr (p, h') \<and> tree_at h' 0 p (up c (Node l a r)) \<and>
           frame (set_tree (plug c (Node l a r))) h h'"
  using assms
proof (induction c arbitrary: h par l a r fuel)
  case Nil
  then obtain f where f: "fuel = Suc f" by (cases fuel) auto
  with Nil bubble_step [of h par l a r f] show ?case by auto
next
  case (Cons s c)
  let ?t = "Node l a r"
  obtain f where f: "fuel = Suc f" using Cons.prems(5) by (cases fuel) auto
  have dt: "distinct (inorder ?t)" and hgt: "height ?t < 2 ^ 30"
    using Cons.prems(3,4) height_plug [of ?t "s # c"] by (auto simp: inorder_plug)
  obtain p h2 where h2: "tree_at h2 par p (rebal ?t)" "frame (set_tree ?t) h h2"
      "bubble_loop fuel cb h a = (if par = 0 then Inr (p, h2)
       else bindE (rd h2 par) (\<lambda>q.
         bindE (if a = left q then wr h2 par (\<lambda>k. k\<lparr>left := p\<rparr>) else wr h2 par (\<lambda>k. k\<lparr>right := p\<rparr>)) (\<lambda>h3.
           bubble_loop f cb h3 par)))"
    using bubble_step [OF Cons.prems(1) dt hgt, of f] f by blast
  have a0: "a \<noteq> 0" using Cons.prems(1) by (simp add: top_at_def)
  show ?case
  proof (cases s)
    case (InLeft b u)
    then have b: "par = b" and dd: "distinct (inorder (plug c (Node ?t b u)))" using Cons.prems(2,3) by auto
    from bubble_left [OF Cons.prems(2) [unfolded InLeft b] h2(1) [unfolded b] h2(2) dd] obtain n where
      n: "h2 b = Some n" "b \<noteq> 0" "left n = a" and top: "top_at (h2(b \<mapsto> n\<lparr>left := p\<rparr>)) (parent n) (rebal ?t) b u"
      and ctx: "ctx_at (h2(b \<mapsto> n\<lparr>left := p\<rparr>)) b (parent n) c"
      and fr: "frame (set_tree (Node ?t b u)) h (h2(b \<mapsto> n\<lparr>left := p\<rparr>))" by blast
    have "height (plug c (Node (rebal ?t) b u)) \<le> height (plug c (Node ?t b u))"
      by (rule height_plug_mono) (use height_rebal [of ?t] in auto)
    then have "height (plug c (Node (rebal ?t) b u)) < 2 ^ 30" using Cons.prems(4) InLeft by simp
    moreover have "distinct (inorder (plug c (Node (rebal ?t) b u)))" using dd by (simp add: inorder_plug)
    moreover have "length c < f" using Cons.prems(5) f by simp
    ultimately obtain q h' where
      h': "bubble_loop f cb (h2(b \<mapsto> n\<lparr>left := p\<rparr>)) b = Inr (q, h')" "tree_at h' 0 q (up (s # c) ?t)"
        "frame (set_tree (plug c (Node (rebal ?t) b u))) (h2(b \<mapsto> n\<lparr>left := p\<rparr>)) h'"
      using Cons.IH [OF top ctx] unfolding InLeft up.simps by blast
    have "frame (set_tree (plug (s # c) ?t)) h h'"
      by (rule frame_trans [OF fr h'(3)]) (auto simp: InLeft simp flip: set_inorder simp: inorder_plug)
    moreover have "bubble_loop fuel cb h a = bubble_loop f cb (h2(b \<mapsto> n\<lparr>left := p\<rparr>)) b"
      using h2(3) n b by simp
    ultimately show ?thesis using h' by simp
  next
    case (InRight u b)
    then have b: "par = b" and dd: "distinct (inorder (plug c (Node u b ?t)))" using Cons.prems(2,3) by auto
    from bubble_right [OF Cons.prems(2) [unfolded InRight b] h2(1) [unfolded b] h2(2) dd] obtain n where
      n: "h2 b = Some n" "b \<noteq> 0" and u: "tree_at h b (left n) u"
      and top: "top_at (h2(b \<mapsto> n\<lparr>right := p\<rparr>)) (parent n) u b (rebal ?t)"
      and ctx: "ctx_at (h2(b \<mapsto> n\<lparr>right := p\<rparr>)) b (parent n) c"
      and fr: "frame (set_tree (Node u b ?t)) h (h2(b \<mapsto> n\<lparr>right := p\<rparr>))" by blast
    have "height (plug c (Node u b (rebal ?t))) \<le> height (plug c (Node u b ?t))"
      by (rule height_plug_mono) (use height_rebal [of ?t] in auto)
    then have "height (plug c (Node u b (rebal ?t))) < 2 ^ 30" using Cons.prems(4) InRight by simp
    moreover have "distinct (inorder (plug c (Node u b (rebal ?t))))" using dd by (simp add: inorder_plug)
    moreover have "length c < f" using Cons.prems(5) f by simp
    ultimately obtain q h' where
      h': "bubble_loop f cb (h2(b \<mapsto> n\<lparr>right := p\<rparr>)) b = Inr (q, h')" "tree_at h' 0 q (up (s # c) ?t)"
        "frame (set_tree (plug c (Node u b (rebal ?t)))) (h2(b \<mapsto> n\<lparr>right := p\<rparr>)) h'"
      using Cons.IH [OF top ctx] unfolding InRight up.simps by blast
    have "frame (set_tree (plug (s # c) ?t)) h h'"
      by (rule frame_trans [OF fr h'(3)]) (auto simp: InRight simp flip: set_inorder simp: inorder_plug)
    moreover have "a \<noteq> left n"
      using tree_at_alloc [OF u] a0 dd by (auto simp: inorder_plug)
    then have "bubble_loop fuel cb h a = bubble_loop f cb (h2(b \<mapsto> n\<lparr>right := p\<rparr>)) b"
      using h2(3) n b by simp
    ultimately show ?thesis using h' by simp
  qed
qed

lemma unlink_left:
  assumes x: "h x = Some nx" "x \<noteq> 0" "parent nx = b" and c: "ctx_at h x b (InLeft b u # c)"
    and ch: "tree_at h x cp ch" and cp: "cp = (if left nx \<noteq> 0 then left nx else right nx)" "left nx = 0 \<or> right nx = 0"
    and d: "distinct (inorder (plug c (Node t b u)))" and sub: "x \<notin> set_tree ch" "set_tree ch \<subseteq> set_tree t" "x \<in> set_tree t"
      "distinct (inorder ch)" and rt: "root T \<noteq> 0"
  shows "\<exists>par h1. top_at h1 par ch b u \<and> ctx_at h1 b par c \<and> frame (set_tree (Node t b u)) h h1 \<and>
    avl_remove_rec (Suc f) cb T h x =
      bindE (avl_bubble_update_and_balance cb h1 b) (\<lambda>(new_root, h2). Inr (T\<lparr>root := new_root\<rparr>, h2))"
proof -
  from c obtain n where n: "b \<noteq> 0" "h b = Some n" "valid (update n) (kept (avl_node.more n))" "left n = x"
      "tree_at h b (right n) u" "ctx_at h b (parent n) c" by auto
  from d sub have out: "b \<notin> set_tree ch" "b \<noteq> x" "b \<notin> set_tree u" "set_tree u \<inter> set_tree ch = {}" "x \<notin> set_tree u"
      "b \<notin> set (before c) \<union> set (after c)" "(set (before c) \<union> set (after c)) \<inter> set_tree ch = {}"
    by (auto simp: inorder_plug)
  define h0 where "h0 = (if cp \<noteq> 0 then h(cp \<mapsto> (the (h cp))\<lparr>parent := b\<rparr>) else h)"
  define h1 where "h1 = h0(b \<mapsto> n\<lparr>left := cp\<rparr>)"
  have alloc: "cp \<in> set_tree ch \<and> (\<exists>m. h cp = Some m)" if "cp \<noteq> 0" using tree_at_alloc [OF ch that] .
  have n0: "h0 b = Some n" using n(2) alloc out(1) by (auto simp: h0_def)
  have same: "h1 y = h y" if "y \<notin> set_tree ch" "y \<noteq> b" for y using that alloc by (auto simp: h1_def h0_def)
  have "tree_at h1 b cp ch"
    by (rule tree_at_moved [OF ch sub(4)]) (use out(1) alloc in \<open>auto simp: h1_def h0_def\<close>)
  moreover have "tree_at h1 b (right n) u"
    by (rule tree_at_cong [OF n(5)], rule same) (use out in blast)+
  ultimately have "top_at h1 (parent n) ch b u" using n out by (auto simp: top_at_def h1_def)
  moreover have "ctx_at h1 b (parent n) c"
    by (rule ctx_at_cong [OF n(6)], rule ballI, rule same) (use out in blast)+
  moreover have "frame (set_tree (Node t b u)) h h1"
    using n alloc sub(2) by (auto simp: frame_def stat_def h1_def h0_def)
  moreover have "left n = x \<longleftrightarrow> True"
    using n(4,5) tree_at_alloc [of h b "left n" u] out(5) x(2) by auto
  then have "avl_remove_rec (Suc f) cb T h x =
      bindE (avl_bubble_update_and_balance cb h1 b) (\<lambda>(new_root, h2). Inr (T\<lparr>root := new_root\<rparr>, h2))"
    using n(1,2) x rt cp alloc n0 unfolding h1_def h0_def by (cases "cp = 0") (auto simp: Let_def split: if_splits)
  ultimately show ?thesis by blast
qed

lemma unlink_right:
  assumes x: "h x = Some nx" "x \<noteq> 0" "parent nx = b" and c: "ctx_at h x b (InRight u b # c)"
    and ch: "tree_at h x cp ch" and cp: "cp = (if left nx \<noteq> 0 then left nx else right nx)" "left nx = 0 \<or> right nx = 0"
    and d: "distinct (inorder (plug c (Node u b t)))" and sub: "x \<notin> set_tree ch" "set_tree ch \<subseteq> set_tree t" "x \<in> set_tree t"
      "distinct (inorder ch)" and rt: "root T \<noteq> 0"
  shows "\<exists>par h1. top_at h1 par u b ch \<and> ctx_at h1 b par c \<and> frame (set_tree (Node u b t)) h h1 \<and>
    avl_remove_rec (Suc f) cb T h x =
      bindE (avl_bubble_update_and_balance cb h1 b) (\<lambda>(new_root, h2). Inr (T\<lparr>root := new_root\<rparr>, h2))"
proof -
  from c obtain n where n: "b \<noteq> 0" "h b = Some n" "valid (update n) (kept (avl_node.more n))" "right n = x"
      "tree_at h b (left n) u" "ctx_at h b (parent n) c" by auto
  from d sub have out: "b \<notin> set_tree ch" "b \<noteq> x" "b \<notin> set_tree u" "set_tree u \<inter> set_tree ch = {}" "x \<notin> set_tree u"
      "b \<notin> set (before c) \<union> set (after c)" "(set (before c) \<union> set (after c)) \<inter> set_tree ch = {}"
    by (auto simp: inorder_plug)
  define h0 where "h0 = (if cp \<noteq> 0 then h(cp \<mapsto> (the (h cp))\<lparr>parent := b\<rparr>) else h)"
  define h1 where "h1 = h0(b \<mapsto> n\<lparr>right := cp\<rparr>)"
  have alloc: "cp \<in> set_tree ch \<and> (\<exists>m. h cp = Some m)" if "cp \<noteq> 0" using tree_at_alloc [OF ch that] .
  have n0: "h0 b = Some n" using n(2) alloc out(1) by (auto simp: h0_def)
  have same: "h1 y = h y" if "y \<notin> set_tree ch" "y \<noteq> b" for y using that alloc by (auto simp: h1_def h0_def)
  have "tree_at h1 b cp ch"
    by (rule tree_at_moved [OF ch sub(4)]) (use out(1) alloc in \<open>auto simp: h1_def h0_def\<close>)
  moreover have "tree_at h1 b (left n) u"
    by (rule tree_at_cong [OF n(5)], rule same) (use out in blast)+
  ultimately have "top_at h1 (parent n) u b ch" using n out by (auto simp: top_at_def h1_def)
  moreover have "ctx_at h1 b (parent n) c"
    by (rule ctx_at_cong [OF n(6)], rule ballI, rule same) (use out in blast)+
  moreover have "frame (set_tree (Node u b t)) h h1"
    using n alloc sub(2) by (auto simp: frame_def stat_def h1_def h0_def)
  moreover have "left n = x \<longleftrightarrow> False"
    using n(4,5) tree_at_alloc [of h b "left n" u] out(5) x(2) by auto
  then have "avl_remove_rec (Suc f) cb T h x =
      bindE (avl_bubble_update_and_balance cb h1 b) (\<lambda>(new_root, h2). Inr (T\<lparr>root := new_root\<rparr>, h2))"
    using n(1,2) x rt cp alloc n0 unfolding h1_def h0_def by (cases "cp = 0") (auto simp: Let_def split: if_splits)
  ultimately show ?thesis by blast
qed

text \<open>Removal of a node that has a parent and at most one child.\<close>

lemma remove_law:
  assumes t: "tree_at h 0 (root T) (plug (s # c) (Node l x r))" and lr: "l = Leaf \<or> r = Leaf"
    and d: "distinct (inorder (plug (s # c) (Node l x r)))" and ht: "height (plug (s # c) (Node l x r)) < 2 ^ 30"
  shows "\<exists>T' h'. avl_remove cb T h x = Inr (T', h') \<and> tree_at h' 0 (root T') (up c (step_node s (only_child l r))) \<and>
           frame (set_tree (plug (s # c) (Node l x r))) h h'"
proof -
  let ?t = "Node l x r" and ?ch = "only_child l r"
  from tree_at_plug [OF t] obtain p b where p: "tree_at h b p ?t" "ctx_at h p b (s # c)" by blast
  then obtain nx where nx: "p = x" "x \<noteq> 0" "h x = Some nx" "parent nx = b" "tree_at h x (left nx) l" "tree_at h x (right nx) r"
    by auto
  let ?cp = "if left nx \<noteq> 0 then left nx else right nx"
  have one: "left nx = 0 \<or> right nx = 0" and ch: "tree_at h x ?cp ?ch"
    using nx(5,6) lr tree_at_root [OF nx(5)] tree_at_root [OF nx(6)] by (auto simp: only_child_def)
  have dt: "distinct (inorder ?t)" using d unfolding inorder_plug by (simp only: distinct_append)
  then have sub: "x \<notin> set_tree ?ch" "set_tree ?ch \<subseteq> set_tree ?t" "x \<in> set_tree ?t" "distinct (inorder ?ch)"
    by (auto simp: only_child_def)
  have rt: "root T \<noteq> 0" using tree_at_root [OF t] size_plug [of ?t "s # c"] by (auto simp del: plug.simps)
  obtain f where f: "AVL_FUEL = Suc f" using AVL_FUEL_Suc by blast
  obtain par h1 l' b' r' where h1: "top_at h1 par l' b' r'" "ctx_at h1 b' par c" "step_node s ?ch = Node l' b' r'"
      "frame (set_tree (step_node s ?t)) h h1"
      "avl_remove cb T h x = bindE (avl_bubble_update_and_balance cb h1 b') (\<lambda>(new_root, h2). Inr (T\<lparr>root := new_root\<rparr>, h2))"
  proof (cases s)
    case (InLeft b' u)
    have b: "b = b'" using p(2) InLeft by simp
    from unlink_left [OF nx(3,2) nx(4) [unfolded b] p(2) [unfolded nx(1) InLeft b] ch refl one d [unfolded plug.simps InLeft] sub rt, of f]
    show ?thesis using that InLeft unfolding avl_remove_def f step_node_def by fastforce
  next
    case (InRight u b')
    have b: "b = b'" using p(2) InRight by simp
    from unlink_right [OF nx(3,2) nx(4) [unfolded b] p(2) [unfolded nx(1) InRight b] ch refl one d [unfolded plug.simps InRight] sub rt, of f]
    show ?thesis using that InRight unfolding avl_remove_def f step_node_def by fastforce
  qed
  have dd: "distinct (inorder (plug c (Node l' b' r')))"
    unfolding h1(3) [symmetric] plug_Cons [symmetric] using d sub(2,4) by (auto simp: inorder_plug)
  have "height ?ch \<le> height ?t" by (auto simp: only_child_def)
  then have "height (plug c (Node l' b' r')) < 2 ^ 30"
    unfolding h1(3) [symmetric] plug_Cons [symmetric] using height_plug_mono [of ?ch ?t "s # c"] ht by simp
  moreover have "length c < AVL_FUEL"
    using size_plug [of ?t "s # c"] size_addr_tree [OF d tree_at_nonzero [OF t]] by (simp add: AVL_FUEL_def)
  moreover have "b' \<noteq> 0" using h1(1) by (simp add: top_at_def)
  ultimately obtain q h2 where h2: "avl_bubble_update_and_balance cb h1 b' = Inr (q, h2)"
      "tree_at h2 0 q (up c (Node l' b' r'))" "frame (set_tree (plug c (Node l' b' r'))) h1 h2"
    using bubble_law [OF h1(1,2) dd, of AVL_FUEL] unfolding avl_bubble_update_and_balance_def by auto
  have "frame (set_tree (plug (s # c) ?t)) h h2"
    by (rule frame_trans [OF h1(4) h2(3)])
       (use set_tree_step_node [OF sub(2), of s] in \<open>auto simp: plug_Cons set_tree_plug h1(3) [symmetric] simp del: plug.simps\<close>)
  with h1(3,5) h2 show ?thesis by simp
qed

section \<open>Lookup and traversal\<close>

lemma leftmost_law:
  "tree_at h par p t \<Longrightarrow> t \<noteq> Leaf \<Longrightarrow> height t \<le> fuel \<Longrightarrow> leftmost fuel h p = Inr (hd (inorder t))"
proof (induction t arbitrary: par p fuel)
  case Leaf
  then show ?case by simp
next
  case (Node l a r)
  then obtain f n where f: "fuel = Suc f" and n: "p = a" "a \<noteq> 0" "h a = Some n" "tree_at h a (left n) l"
    by (cases fuel) auto
  show ?case
  proof (cases "l = Leaf")
    case True
    then show ?thesis using n f by simp
  next
    case False
    then have "leftmost f h (left n) = Inr (hd (inorder l))" using Node.IH(1) [OF n(4)] Node.prems(3) f by simp
    with False n f tree_at_root [OF n(4)] show ?thesis by simp
  qed
qed

lemma rightmost_law:
  "tree_at h par p t \<Longrightarrow> t \<noteq> Leaf \<Longrightarrow> height t \<le> fuel \<Longrightarrow> rightmost fuel h p = Inr (last (inorder t))"
proof (induction t arbitrary: par p fuel)
  case Leaf
  then show ?case by simp
next
  case (Node l a r)
  then obtain f n where f: "fuel = Suc f" and n: "p = a" "a \<noteq> 0" "h a = Some n" "tree_at h a (right n) r"
    by (cases fuel) auto
  show ?case
  proof (cases "r = Leaf")
    case True
    then show ?thesis using n f by simp
  next
    case False
    then have "rightmost f h (right n) = Inr (last (inorder r))" using Node.IH(2) [OF n(4)] Node.prems(3) f by simp
    with False n f tree_at_root [OF n(4)] show ?thesis by simp
  qed
qed

definition hd0 :: "u64 list \<Rightarrow> u64" where
  "hd0 xs = (case xs of [] \<Rightarrow> 0 | x # _ \<Rightarrow> x)"

lemma climb_from_right_law:
  assumes "ctx_at h p par c" and "p \<noteq> 0" and "length c < fuel" and "distinct (before c @ p # after c)"
  shows "climb_from_right fuel h p par = Inr (hd0 (after c))"
  using assms
proof (induction c arbitrary: p par fuel)
  case Nil
  then obtain f where "fuel = Suc f" by (cases fuel) auto
  with Nil show ?case by (simp add: hd0_def)
next
  case (Cons s c)
  then obtain f where f: "fuel = Suc f" by (cases fuel) auto
  show ?case
  proof (cases s)
    case (InLeft a r)
    then obtain n where n: "par = a" "a \<noteq> 0" "h a = Some n" "left n = p" "tree_at h a (right n) r"
      using Cons.prems(1) by auto
    have "right n \<noteq> p" using tree_at_alloc [OF n(5)] Cons.prems(2,4) InLeft by auto
    with n f InLeft show ?thesis by (simp add: hd0_def)
  next
    case (InRight l a)
    then obtain n where n: "par = a" "a \<noteq> 0" "h a = Some n" "right n = p" "ctx_at h a (parent n) c"
      using Cons.prems(1) by auto
    have "climb_from_right f h a (parent n) = Inr (hd0 (after c))"
      by (rule Cons.IH [OF n(5,2)]) (use Cons.prems(3,4) f InRight in auto)
    with n f InRight show ?thesis by simp
  qed
qed

lemma climb_from_left_law:
  assumes "ctx_at h p par c" and "p \<noteq> 0" and "length c < fuel" and "distinct (before c @ p # after c)"
  shows "climb_from_left fuel h p par = Inr (hd0 (rev (before c)))"
  using assms
proof (induction c arbitrary: p par fuel)
  case Nil
  then obtain f where "fuel = Suc f" by (cases fuel) auto
  with Nil show ?case by (simp add: hd0_def)
next
  case (Cons s c)
  then obtain f where f: "fuel = Suc f" by (cases fuel) auto
  show ?case
  proof (cases s)
    case (InRight l a)
    then obtain n where n: "par = a" "a \<noteq> 0" "h a = Some n" "right n = p" "tree_at h a (left n) l"
      using Cons.prems(1) by auto
    have "left n \<noteq> p" using tree_at_alloc [OF n(5)] Cons.prems(2,4) InRight by auto
    with n f InRight show ?thesis by (simp add: hd0_def)
  next
    case (InLeft a r)
    then obtain n where n: "par = a" "a \<noteq> 0" "h a = Some n" "left n = p" "ctx_at h a (parent n) c"
      using Cons.prems(1) by auto
    have "climb_from_left f h a (parent n) = Inr (hd0 (rev (before c)))"
      by (rule Cons.IH [OF n(5,2)]) (use Cons.prems(3,4) f InLeft in auto)
    with n f InLeft show ?thesis by simp
  qed
qed

lemma next_law:
  assumes t: "tree_at h 0 rt (plug c (Node l a r))" and d: "distinct (inorder (plug c (Node l a r)))"
  shows "avl_next h a = Inr (hd0 (inorder r @ after c))"
proof -
  from tree_at_plug [OF t] obtain p par where p: "tree_at h par p (Node l a r)" "ctx_at h p par c" by blast
  then obtain n where n: "p = a" "a \<noteq> 0" "h a = Some n" "parent n = par" "tree_at h a (right n) r" by auto
  have sz: "size (Node l a r) + length c < 2 ^ 64"
    using size_plug [of "Node l a r" c] size_addr_tree [OF d tree_at_nonzero [OF t]] by linarith
  show ?thesis
  proof (cases "r = Leaf")
    case True
    have "climb_from_right AVL_FUEL h a par = Inr (hd0 (after c))"
      by (rule climb_from_right_law [OF p(2) [unfolded n(1)] n(2)])
         (use sz d in \<open>auto simp: AVL_FUEL_def inorder_plug\<close>)
    with True n show ?thesis by (simp add: avl_next_def avl_get_successor_def)
  next
    case False
    have "height r \<le> size r" by (rule height_le_size_tree)
    then have "leftmost AVL_FUEL h (right n) = Inr (hd (inorder r))"
      using sz False by (intro leftmost_law [OF n(5)]) (simp_all add: AVL_FUEL_def)
    with False n tree_at_root [OF n(5)] show ?thesis
      by (cases "inorder r") (auto simp: avl_next_def avl_get_successor_def hd0_def)
  qed
qed

lemma prev_law:
  assumes t: "tree_at h 0 rt (plug c (Node l a r))" and d: "distinct (inorder (plug c (Node l a r)))"
  shows "avl_prev h a = Inr (hd0 (rev (before c @ inorder l)))"
proof -
  from tree_at_plug [OF t] obtain p par where p: "tree_at h par p (Node l a r)" "ctx_at h p par c" by blast
  then obtain n where n: "p = a" "a \<noteq> 0" "h a = Some n" "parent n = par" "tree_at h a (left n) l" by auto
  have sz: "size (Node l a r) + length c < 2 ^ 64"
    using size_plug [of "Node l a r" c] size_addr_tree [OF d tree_at_nonzero [OF t]] by linarith
  show ?thesis
  proof (cases "l = Leaf")
    case True
    have "climb_from_left AVL_FUEL h a par = Inr (hd0 (rev (before c)))"
      by (rule climb_from_left_law [OF p(2) [unfolded n(1)] n(2)])
         (use sz d in \<open>auto simp: AVL_FUEL_def inorder_plug\<close>)
    with True n show ?thesis by (simp add: avl_prev_def avl_get_predecessor_def)
  next
    case False
    have "height l \<le> size l" by (rule height_le_size_tree)
    then have "rightmost AVL_FUEL h (left n) = Inr (last (inorder l))"
      using sz False by (intro rightmost_law [OF n(5)]) (simp_all add: AVL_FUEL_def)
    with False n tree_at_root [OF n(5)] show ?thesis
      by (cases "inorder l" rule: rev_cases) (auto simp: avl_prev_def avl_get_predecessor_def hd0_def)
  qed
qed

text \<open>
  Lookup with any comparator whose answers \<open>c\<close> on the nodes of the tree are consistent with their
  order.
\<close>

definition search_order :: "(u64 \<Rightarrow> int) \<Rightarrow> u64 \<Rightarrow> u64 \<Rightarrow> bool" where
  "search_order c a b \<longleftrightarrow> (c a > 0 \<longrightarrow> c b > 0) \<and> (c b < 0 \<longrightarrow> c a < 0)"

lemma get_node_rec_law:
  assumes "tree_at h par p t" and "height t < fuel" and "\<forall>a\<in>set_tree t. compare h a key = Inr (c a)"
    and "sorted_wrt (search_order c) (inorder t)"
  shows "\<exists>q. avl_get_node_rec fuel compare h p key = Inr q \<and>
           (q = 0 \<and> (\<forall>a\<in>set_tree t. c a \<noteq> 0) \<or> q \<in> set_tree t \<and> c q = 0)"
  using assms
proof (induction t arbitrary: par p fuel)
  case Leaf
  then obtain f where "fuel = Suc f" by (cases fuel) auto
  with Leaf show ?case by simp
next
  case (Node l a r)
  obtain f n where f: "fuel = Suc f" and n: "p = a" "a \<noteq> 0" "h a = Some n" "tree_at h a (left n) l" "tree_at h a (right n) r"
    using Node.prems(1,2) by (cases fuel) auto
  have s: "sorted_wrt (search_order c) (inorder l)" "sorted_wrt (search_order c) (inorder r)"
    "\<forall>b\<in>set_tree l. search_order c b a" "\<forall>b\<in>set_tree r. search_order c a b"
    using Node.prems(4) unfolding inorder.simps sorted_wrt_append set_append set_inorder list.set sorted_wrt.simps
    by blast+
  consider "c a = 0" | "c a > 0" | "c a < 0" by linarith
  then show ?case
  proof cases
    case 1
    then show ?thesis using n f Node.prems(3) by simp
  next
    case 2
    then have "\<forall>b\<in>set_tree r. c b \<noteq> 0" using s(4) by (fastforce simp: search_order_def)
    with 2 Node.IH(1) [OF n(4), of f] s(1) n f Node.prems(2,3) show ?thesis by auto
  next
    case 3
    then have "\<forall>b\<in>set_tree l. c b \<noteq> 0" using s(3) by (fastforce simp: search_order_def)
    with 3 Node.IH(2) [OF n(5), of f] s(2) n f Node.prems(2,3) show ?thesis by auto
  qed
qed

lemma get_node_law:
  assumes "tree_at h 0 (root T) t" and "distinct (inorder t)" and "\<forall>a\<in>set_tree t. compare h a key = Inr (c a)"
    and "sorted_wrt (search_order c) (inorder t)"
  shows "\<exists>q. avl_get_node compare T h key = Inr q \<and>
           (q = 0 \<and> (\<forall>a\<in>set_tree t. c a \<noteq> 0) \<or> q \<in> set_tree t \<and> c q = 0)"
proof -
  have "height t < AVL_FUEL"
    using height_le_size_tree [of t] size_addr_tree [OF assms(2) tree_at_nonzero [OF assms(1)]]
    by (simp add: AVL_FUEL_def)
  from get_node_rec_law [where compare = compare and key = key and c = c, OF assms(1) this assms(3,4)]
    tree_at_root [OF assms(1)]
  show ?thesis unfolding avl_get_node_def by auto
qed

end

text \<open>A client that also orders its nodes by their keys.\<close>

locale avl_client = avl_callbacks cb aug kept valid
  for cb :: "'a callback" and aug and kept :: "'a \<Rightarrow> 'k" and valid +
  fixes compare :: "'a comparator"
    and cmp :: "'k \<Rightarrow> 'k \<Rightarrow> int"
  assumes compare_law: "h a = Some n \<Longrightarrow> h b = Some m \<Longrightarrow> a \<noteq> 0 \<Longrightarrow> b \<noteq> 0 \<Longrightarrow>
      compare h a b = Inr (cmp (kept (avl_node.more n)) (kept (avl_node.more m)))"
begin

definition keyof :: "'a heap \<Rightarrow> u64 \<Rightarrow> 'k" where
  "keyof h a = kept (avl_node.more (the (h a)))"

lemma keyof_frame: "frame A h h' \<Longrightarrow> h a = Some n \<Longrightarrow> keyof h' a = keyof h a"
  using frame_Some [of A h h' a n] by (auto simp: keyof_def stat_def)

text \<open>
  A tree in which the nodes on the way that \<open>g\<close> takes may be out of date: an insertion along this
  way brings all of them up to date.
\<close>

fun path_at :: "(u64 \<Rightarrow> bool) \<Rightarrow> 'a heap \<Rightarrow> u64 \<Rightarrow> u64 \<Rightarrow> u64 tree \<Rightarrow> bool" where
  "path_at g h par p Leaf \<longleftrightarrow> p = 0"
| "path_at g h par p (Node l a r) \<longleftrightarrow> p = a \<and> a \<noteq> 0 \<and>
     (\<exists>n. h a = Some n \<and> parent n = par \<and> valid (update n) (kept (avl_node.more n)) \<and>
        (if g a then path_at g h a (left n) l \<and> tree_at h a (right n) r
         else tree_at h a (left n) l \<and> path_at g h a (right n) r))"

lemma tree_at_path: "tree_at h par p t \<Longrightarrow> path_at g h par p t"
  by (induction t arbitrary: par p) auto

lemma path_at_root: "path_at g h par p t \<Longrightarrow> p = 0 \<longleftrightarrow> t = Leaf"
  by (cases t) auto

lemma path_at_nonzero: "path_at g h par p t \<Longrightarrow> 0 \<notin> set_tree t"
  by (induction t arbitrary: par p) (auto dest: tree_at_nonzero split: if_splits)

lemma path_at_frame: "path_at g h par p t \<Longrightarrow> frame A h h' \<Longrightarrow> set_tree t \<inter> A = {} \<Longrightarrow> path_at g h' par p t"
proof (induction t arbitrary: par p)
  case (Node l a r)
  then have "h' a = h a" by (auto simp: frame_out)
  moreover have "set_tree l \<inter> A = {}" "set_tree r \<inter> A = {}" using Node.prems(3) by auto
  ultimately show ?case
    using Node.prems(1,2) Node.IH by (auto intro: tree_at_frame split: if_splits)
qed simp

text \<open>
  Such trees arise when one node is changed without a change to its links, and \<open>g\<close> then leads to the
  place next to that node.
\<close>

lemma path_at_changed:
  assumes "tree_at h par p t" and "distinct (inorder t)" and "h a = Some n" and "a \<in> set_tree t"
    and "parent n' = parent n" "left n' = left n" "right n' = right n" "valid (update n') (kept (avl_node.more n'))"
    and "sorted_wrt (\<lambda>x y. k x < k y) (inorder t)"
    and "\<forall>b\<in>set_tree t. b \<noteq> a \<longrightarrow> (g b \<longleftrightarrow> (k a :: int) < k b)"
  shows "path_at g (h(a \<mapsto> n')) par p t"
  using assms
proof (induction t arbitrary: par p)
  case (Node l b r)
  define h1 where "h1 = h(a \<mapsto> n')"
  have h1: "h1 a = Some n'" "\<And>x. x \<noteq> a \<Longrightarrow> h1 x = h x" by (simp_all add: h1_def)
  from Node.prems(1) obtain m where m: "p = b" "b \<noteq> 0" "h b = Some m" "parent m = par"
      "valid (update m) (kept (avl_node.more m))" "tree_at h b (left m) l" "tree_at h b (right m) r" by auto
  have keep: "tree_at h1 q c s" if "tree_at h q c s" "a \<notin> set_tree s" for q c s
    using that by (auto simp: h1_def intro: tree_at_cong)
  have ord: "\<forall>x\<in>set_tree l. k x < k b" "\<forall>x\<in>set_tree r. k b < k x"
    using Node.prems(9) by (auto simp: sorted_wrt_append)
  consider "a = b" | "a \<in> set_tree l" "a \<noteq> b" | "a \<in> set_tree r" "a \<noteq> b" using Node.prems(4) by auto
  then show ?case
  proof cases
    case 1
    then have "tree_at h1 b (left m) l" "tree_at h1 b (right m) r"
      using keep [OF m(6)] keep [OF m(7)] Node.prems(2) 1 by auto
    then show ?thesis using 1 m h1 Node.prems(3,5-8) unfolding h1_def [symmetric] by (auto intro: tree_at_path)
  next
    case 2
    then have "path_at g h1 b (left m) l"
      unfolding h1_def using Node.prems m(6) by (intro Node.IH(1)) (auto simp: sorted_wrt_append)
    moreover have "g b" using 2 ord Node.prems(10) by auto
    moreover have "tree_at h1 b (right m) r" using 2 keep [OF m(7)] Node.prems(2) by auto
    ultimately show ?thesis using 2 m h1(2) unfolding h1_def [symmetric] by auto
  next
    case 3
    then have "path_at g h1 b (right m) r"
      unfolding h1_def using Node.prems m(7) by (intro Node.IH(2)) (auto simp: sorted_wrt_append)
    moreover have "\<not> g b" using 3 ord Node.prems(10) by fastforce
    moreover have "tree_at h1 b (left m) l" using 3 keep [OF m(6)] Node.prems(2) by auto
    ultimately show ?thesis using 3 m h1(2) unfolding h1_def [symmetric] by auto
  qed
qed simp

text \<open>One level of the descent, on either side.\<close>

lemma insert_rec_law:
  assumes "path_at g h par p t" and "t \<noteq> Leaf" and "distinct (inorder t)" and "x \<notin> set_tree t"
    and "tree_at h q x (Node Leaf x Leaf)" and "height t < 2 ^ 30 - 1" and "height t \<le> fuel"
    and "\<And>a. a \<in> set_tree t \<Longrightarrow> g a \<longleftrightarrow> cmp (keyof h a) (keyof h x) > 0"
  shows "\<exists>p' h'. avl_insert_rec fuel cb compare h p x = Inr (p', h') \<and> tree_at h' par p' (ins g x t) \<and>
           frame (insert x (set_tree t)) h h'"
  using assms
proof (induction t arbitrary: h par p q fuel)
  case Leaf
  then show ?case by simp
next
  case (Node l a r)
  from Node.prems(7) obtain f where f: "fuel = Suc f" by (cases fuel) auto
  from Node.prems(1) obtain n where n: "p = a" "a \<noteq> 0" "h a = Some n" "parent n = par"
      "valid (update n) (kept (avl_node.more n))"
      "if g a then path_at g h a (left n) l \<and> tree_at h a (right n) r
       else tree_at h a (left n) l \<and> path_at g h a (right n) r" by auto
  from Node.prems(5) obtain nx where nx: "h x = Some nx" "x \<noteq> 0" by auto
  have ax: "a \<noteq> x" using Node.prems(4) by auto
  define h1 where "h1 = h(x \<mapsto> nx\<lparr>parent := a\<rparr>)"
  have w1: "wr h x (\<lambda>k. k\<lparr>parent := a\<rparr>) = Inr h1" using nx by (simp add: h1_def)
  have fr1: "frame {x} h h1" using nx by (auto simp: h1_def stat_def intro: frame_upd)
  have x1: "tree_at h1 a x (Node Leaf x Leaf)"
    by (rule tree_at_reparent [OF Node.prems(5) nx(1)]) (simp_all add: h1_def)
  have n1: "h1 a = Some n" using n(3) ax by (simp add: h1_def)
  have x1': "h1 x = Some (nx\<lparr>parent := a\<rparr>)" by (simp add: h1_def)
  have out: "set_tree l \<inter> {x} = {}" "set_tree r \<inter> {x} = {}" using Node.prems(4) by auto
  have sub1: "if g a then path_at g h1 a (left n) l \<and> tree_at h1 a (right n) r
       else tree_at h1 a (left n) l \<and> path_at g h1 a (right n) r"
    using n(6) out by (auto intro: tree_at_frame [OF _ fr1] path_at_frame [OF _ fr1] split: if_splits)
  have cmp1: "compare h1 a x = Inr (cmp (keyof h a) (keyof h x))"
    using compare_law [of h1 a n x "nx\<lparr>parent := a\<rparr>"] n1 nx n(2,3) by (simp add: h1_def keyof_def)
  have key1: "keyof h1 b = keyof h b" for b
    using nx by (simp add: keyof_def h1_def)
  have child: "\<exists>c h2. (if c0 \<noteq> 0 then avl_insert_rec f cb compare h1 c0 x else Inr (x, h1)) = Inr (c, h2) \<and>
      tree_at h2 a c (ins g x s) \<and> frame (insert x (set_tree s)) h1 h2"
    if s: "s = l \<and> c0 = left n \<and> g a \<or> s = r \<and> c0 = right n \<and> \<not> g a" for s c0
  proof (cases "s = Leaf")
    case True
    then show ?thesis using s sub1 x1 by auto
  next
    case False
    then have "c0 \<noteq> 0" using s sub1 by (auto dest: path_at_root)
    moreover have "height s < 2 ^ 30 - 1" "height s \<le> f" "x \<notin> set_tree s" "distinct (inorder s)"
      using s Node.prems(3,4,6,7) f by auto
    moreover have "g b \<longleftrightarrow> cmp (keyof h1 b) (keyof h1 x) > 0" if "b \<in> set_tree s" for b
      using Node.prems(8) [of b] that s key1 by auto
    ultimately show ?thesis
      using Node.IH(1) [of h1 a c0 a f] Node.IH(2) [of h1 a c0 a f] s False sub1 x1 by auto
  qed
  have g: "g a \<longleftrightarrow> cmp (keyof h a) (keyof h x) > 0" using Node.prems(8) by simp
  show ?case
  proof (cases "g a")
    case True
    from child [of l "left n"] True obtain c h2 where
      c: "(if left n \<noteq> 0 then avl_insert_rec f cb compare h1 (left n) x else Inr (x, h1)) = Inr (c, h2)"
        "tree_at h2 a c (ins g x l)" "frame (insert x (set_tree l)) h1 h2" by blast
    have n2: "h2 a = Some n" using frame_out [OF c(3), of a] n1 ax Node.prems(3) by auto
    have r2: "tree_at h2 a (right n) r"
      by (rule tree_at_frame [OF _ c(3)]) (use Node.prems(3,4) sub1 True in auto)
    have "distinct (inorder (Node (ins g x l) a r))" "height (Node (ins g x l) a r) < 2 ^ 30"
      using distinct_ins [of l x g] height_ins [of g x l] Node.prems(3,4,6) by auto
    from attach_left [OF n2 n(2,4,5) c(2) r2 this] obtain p' h' where
      h': "bindE (avl_update cb (h2(a \<mapsto> n\<lparr>left := c\<rparr>)) a) (\<lambda>h4. avl_check_and_balance cb h4 a) = Inr (p', h')"
        "tree_at h' par p' (rebal (Node (ins g x l) a r))" "frame (set_tree (Node (ins g x l) a r)) h2 h'" by blast
    have "h1(a \<mapsto> n\<lparr>left := x\<rparr>, x \<mapsto> nx\<lparr>parent := a\<rparr>) = h1(a \<mapsto> n\<lparr>left := x\<rparr>)"
      using ax by (auto simp: h1_def)
    then have "avl_insert_rec fuel cb compare h p x =
        bindE (avl_update cb (h2(a \<mapsto> n\<lparr>left := c\<rparr>)) a) (\<lambda>h4. avl_check_and_balance cb h4 a)"
      using c(1) w1 nx(2) n(1,2) n1 n2 cmp1 True g ax f x1' by (cases "left n = 0") auto
    moreover have "frame (insert x (set_tree (Node l a r))) h h'"
      by (rule frame_trans [OF frame_trans [OF fr1 c(3) order_refl] h'(3)]) auto
    ultimately show ?thesis using h' True by simp
  next
    case False
    from child [of r "right n"] False obtain c h2 where
      c: "(if right n \<noteq> 0 then avl_insert_rec f cb compare h1 (right n) x else Inr (x, h1)) = Inr (c, h2)"
        "tree_at h2 a c (ins g x r)" "frame (insert x (set_tree r)) h1 h2" by blast
    have n2: "h2 a = Some n" using frame_out [OF c(3), of a] n1 ax Node.prems(3) by auto
    have l2: "tree_at h2 a (left n) l"
      by (rule tree_at_frame [OF _ c(3)]) (use Node.prems(3,4) sub1 False in auto)
    have "distinct (inorder (Node l a (ins g x r)))" "height (Node l a (ins g x r)) < 2 ^ 30"
      using distinct_ins [of r x g] height_ins [of g x r] Node.prems(3,4,6) by auto
    from attach_right [OF n2 n(2,4,5) l2 c(2) this] obtain p' h' where
      h': "bindE (avl_update cb (h2(a \<mapsto> n\<lparr>right := c\<rparr>)) a) (\<lambda>h4. avl_check_and_balance cb h4 a) = Inr (p', h')"
        "tree_at h' par p' (rebal (Node l a (ins g x r)))" "frame (set_tree (Node l a (ins g x r))) h2 h'" by blast
    have "h1(a \<mapsto> n\<lparr>right := x\<rparr>, x \<mapsto> nx\<lparr>parent := a\<rparr>) = h1(a \<mapsto> n\<lparr>right := x\<rparr>)"
      using ax by (auto simp: h1_def)
    then have "avl_insert_rec fuel cb compare h p x =
        bindE (avl_update cb (h2(a \<mapsto> n\<lparr>right := c\<rparr>)) a) (\<lambda>h4. avl_check_and_balance cb h4 a)"
      using c(1) w1 nx(2) n(1,2) n1 n2 cmp1 False g ax f x1' by (cases "right n = 0") auto
    moreover have "frame (insert x (set_tree (Node l a r))) h h'"
      by (rule frame_trans [OF frame_trans [OF fr1 c(3) order_refl] h'(3)]) auto
    ultimately show ?thesis using h' False by simp
  qed
qed

text \<open>Insertion into a balanced tree.\<close>

definition goes_left :: "'a heap \<Rightarrow> u64 \<Rightarrow> u64 \<Rightarrow> bool" where
  "goes_left h x a \<longleftrightarrow> cmp (keyof h a) (keyof h x) > 0"

lemma insert_law:
  assumes t: "path_at (goes_left h x) h 0 (root T) t" and d: "distinct (inorder t)" and "avl t" and x: "x \<notin> set_tree t"
    and leaf: "tree_at h 0 x (Node Leaf x Leaf)"
  shows "\<exists>T' h'. avl_insert cb compare T h x = Inr (T', h') \<and> tree_at h' 0 (root T') (ins (goes_left h x) x t) \<and>
           avl_size T' = avl_size T \<and> frame (insert x (set_tree t)) h h'"
proof (cases "t = Leaf")
  case True
  then show ?thesis using t leaf by (auto simp: avl_insert_def)
next
  case False
  have "height t \<le> 129" using height_addr_tree [OF assms(3) d path_at_nonzero [OF t]] .
  then have "height t < 2 ^ 30 - 1" "height t \<le> AVL_FUEL" by (simp_all add: AVL_FUEL_def)
  from insert_rec_law [OF t False d x leaf this] obtain p' h' where
    "avl_insert_rec AVL_FUEL cb compare h (root T) x = Inr (p', h')" "tree_at h' 0 p' (ins (goes_left h x) x t)"
    "frame (insert x (set_tree t)) h h'" by (auto simp: goes_left_def)
  with False path_at_root [OF t] show ?thesis by (simp add: avl_insert_def)
qed

text \<open>
  On a set of nodes on which the comparator agrees with an integer rank of the keys, insertion keeps
  the ranks of the in-order sequence sorted.
\<close>

definition ranked :: "('k \<Rightarrow> int) \<Rightarrow> 'a heap \<Rightarrow> u64 set \<Rightarrow> bool" where
  "ranked rank h A \<longleftrightarrow> (\<forall>a\<in>A. \<forall>b\<in>A. cmp (keyof h a) (keyof h b) > 0 \<longleftrightarrow> rank (keyof h a) > rank (keyof h b))"

lemma ins_ranks:
  assumes "sorted_wrt (\<le>) (map (rank \<circ> keyof h) (inorder t))" and "ranked rank h (insert x (set_tree t))"
  shows "sorted_wrt (\<le>) (map (rank \<circ> keyof h) (inorder (ins (goes_left h x) x t)))"
proof -
  let ?g = "goes_left h x" and ?k = "rank \<circ> keyof h"
  have g: "?g a \<longleftrightarrow> ?k a > ?k x" if "a \<in> set_tree t" for a
    using assms(2) that by (auto simp: goes_left_def ranked_def)
  have s: "sorted_wrt (\<lambda>a b. ?k a \<le> ?k b) (inorder t)" using assms(1) by (simp add: sorted_wrt_map)
  then have "sorted_wrt (\<lambda>a b. ?g a \<longrightarrow> ?g b) (inorder t)"
    by (rule sorted_wrt_mono_rel [rotated]) (use g in force)
  then have "inorder (ins ?g x t) = filter (\<lambda>a. \<not> ?g a) (inorder t) @ x # filter ?g (inorder t)"
    by (rule inorder_ins)
  moreover have "sorted_wrt (\<lambda>a b. ?k a \<le> ?k b) (filter (\<lambda>a. \<not> ?g a) (inorder t))"
    "sorted_wrt (\<lambda>a b. ?k a \<le> ?k b) (filter ?g (inorder t))" using s by (auto intro: sorted_wrt_filter)
  ultimately show ?thesis
    using g by (fastforce simp: sorted_wrt_map sorted_wrt_append)
qed

end

section \<open>Properties\<close>

text \<open>The examples of the properties: a node without client fields and without a callback.\<close>

definition plain_node :: "u64 \<Rightarrow> u64 \<Rightarrow> u64 \<Rightarrow> u64 \<Rightarrow> avl_node" where
  "plain_node par l r d = \<lparr>parent = par, left = l, right = r, subtree_max_depth = d, update = 0\<rparr>"

text \<open>C34: Removing a root that has exactly one child dereferences its NULL parent, after the child was made
  the root.\<close>

theorem avl_remove_root_with_one_child:
  assumes "h x = Some n" and "x \<noteq> 0" and "parent n = 0" and "root tree \<noteq> 0"
    and "left n = 0 \<longleftrightarrow> right n \<noteq> 0" and "child = (if left n \<noteq> 0 then left n else right n)" and "h child \<noteq> None"
  shows "avl_remove cb tree h x = Inl NullDeref"
proof -
  obtain f where f: "AVL_FUEL = Suc f" using AVL_FUEL_Suc by blast
  from assms(7) obtain m where m: "h child = Some m" by blast
  then have "wr h child (\<lambda>k. k\<lparr>parent := 0\<rparr>) = Inr (h(child \<mapsto> m\<lparr>parent := 0\<rparr>))" using assms(5,6) by (intro wr_Some) auto
  then show ?thesis using assms by (auto simp: avl_remove_def f)
qed

theorem avl_remove_root_with_one_child_witness:
  "avl_remove (\<lambda>_ h _. Inr h) \<lparr>root = 0x10, avl_size = 0\<rparr>
     [0x10 \<mapsto> plain_node 0 0x20 0 1, 0x20 \<mapsto> plain_node 0x10 0 0 0] 0x10 = Inl NullDeref"
  by (rule avl_remove_root_with_one_child [where n = "plain_node 0 0x20 0 1" and child = "0x20"]) (simp_all add: plain_node_def)

text \<open>Removing a root both of whose children are leaves dereferences NULL as well: the successor is unlinked
  first, which clears the right pointer that is then followed.\<close>

theorem avl_remove_root_with_two_leaves:
  assumes "h x = Some \<lparr>parent = 0, left = l, right = r, subtree_max_depth = 1, update = 0\<rparr>"
    and "h l = Some \<lparr>parent = x, left = 0, right = 0, subtree_max_depth = 0, update = 0\<rparr>"
    and "h r = Some \<lparr>parent = x, left = 0, right = 0, subtree_max_depth = 0, update = 0\<rparr>"
    and "distinct [0, x, l, r]" and "root tree = x"
  shows "avl_remove cb tree h x = Inl NullDeref"
proof -
  obtain f where f: "AVL_FUEL = Suc (Suc f)" using AVL_FUEL_Suc2 by blast
  have ne: "x \<noteq> 0" "l \<noteq> 0" "r \<noteq> 0" "x \<noteq> l" "x \<noteq> r" "l \<noteq> r" using assms(4) by auto
  show ?thesis
    using assms ne by (simp add: avl_remove_def f avl_get_successor_def avl_bubble_update_and_balance_def avl_update_def child_depth_def
      avl_check_and_balance_def avl_get_balance_factor_def to_int_def)
qed

theorem avl_remove_root_with_two_leaves_witness:
  "avl_remove (\<lambda>_ h _. Inr h) \<lparr>root = 0x10, avl_size = 0\<rparr>
     [0x10 \<mapsto> plain_node 0 0x20 0x30 1, 0x20 \<mapsto> plain_node 0x10 0 0 0, 0x30 \<mapsto> plain_node 0x10 0 0 0] 0x10 = Inl NullDeref"
  by (rule avl_remove_root_with_two_leaves [where l = "0x20" and r = "0x30"]) (simp_all add: plain_node_def)

end
