(* ===== verification/Vma.thy ===== *)
theory Vma
  imports Vmm Avl Interrupts
begin

text \<open>
  Virtual memory areas, \<^verbatim>\<open>memory/vma.c\<close>: two AVL trees of address ranges (kernel heap and memory-mapped
  devices), worst-fit allocation, release with coalescing, a slab of tree nodes that replenishes
  itself from the heap tree, and demand paging, together with the two functions of \<^verbatim>\<open>memory/vmm.c\<close>
  that call demand paging. Nodes are records on a heap of their own, indexed by virtual address. The
  first write to a page that is not present goes through the page-fault handler.
\<close>

section \<open>Definitions\<close>

datatype vm_node_type = VMA_FREE | VMA_REGULAR | VMA_FILE_BACKED | VMA_HARDWARE_MMIO | VMA_UNMANAGED_MAPPING

datatype vma_unmanaged_tree_t = VMA_TREE_KHEAP | VMA_TREE_KMMIO | VMA_TREE_USER

text \<open>
  The union \<^verbatim>\<open>vma_backing\<close>: the members \<^verbatim>\<open>file.file_ptr\<close> and \<^verbatim>\<open>mmio.physical_start\<close> share the first
  word; the enumeration \<^verbatim>\<open>unmanaged.tree\<close> is kept apart since no code reads it as another member.
\<close>

record vma_backing =
  backing_word0 :: u64
  backing_word1 :: u64
  backing_tree :: vma_unmanaged_tree_t

record vm_ds_node = avl_node +
  start_addr :: u64
  node_size :: u64
  node_type :: vm_node_type
  node_flags :: u32
  backing :: vma_backing
  subtree_max_free_slot :: u64

type_synonym vm_more = "unit vm_ds_node_ext"

type_synonym vm_heap = "u64 \<Rightarrow> vm_ds_node option"

record vma_state = vmm_state +
  kernel_vma_heap_tree :: avl_tree
  kernel_vma_mmio_tree :: avl_tree
  free_list :: u64
  free_node_count :: u64
  in_replenish_cycle :: u8
  vm_nodes :: vm_heap

definition MINIMUM_AVAILABLE_NODES :: u64 where "MINIMUM_AVAILABLE_NODES = 5"

definition KERNEL_STACK_BASE :: u64 where "KERNEL_STACK_BASE = 0xFFFFFFFF80000000"
definition KERNEL_STACK_SIZE :: u64 where "KERNEL_STACK_SIZE = 2 * 1024 * 1024"
definition KERNEL_STACK_LIMIT :: u64 where "KERNEL_STACK_LIMIT = KERNEL_STACK_BASE - KERNEL_STACK_SIZE"
definition KERNEL_HEAP_SIZE :: u64 where "KERNEL_HEAP_SIZE = 16 * 1024 * 1024 * 1024"
definition KERNEL_HEAP_LIMIT :: u64 where "KERNEL_HEAP_LIMIT = KERNEL_STACK_LIMIT - 4096"
definition KERNEL_HEAP_START :: u64 where "KERNEL_HEAP_START = KERNEL_HEAP_LIMIT - KERNEL_HEAP_SIZE"
definition KERNEL_MMIO_SIZE :: u64 where "KERNEL_MMIO_SIZE = 16 * 1024 * 1024 * 1024"
definition KERNEL_MMIO_LIMIT :: u64 where "KERNEL_MMIO_LIMIT = KERNEL_HEAP_START - 4096"
definition KERNEL_MMIO_START :: u64 where "KERNEL_MMIO_START = KERNEL_MMIO_LIMIT - KERNEL_MMIO_SIZE"

definition PT_WRITEABLE :: u64 where "PT_WRITEABLE = 0x1"
definition PT_WRITE_THROUGH :: u64 where "PT_WRITE_THROUGH = 0x4"
definition PT_DISABLE_CACHING :: u64 where "PT_DISABLE_CACHING = 0x8"
definition PT_GLOBAL :: u64 where "PT_GLOBAL = 0x20"
definition PT_NX :: u64 where "PT_NX = 0x40"

text \<open>\<^verbatim>\<open>sizeof(vm_ds_node)\<close> is 88: five words, two words, a one-byte enumeration padded to four bytes, four
  bytes, the two-word union and one word.\<close>

definition NODE_BYTES :: u64 where "NODE_BYTES = 88"

definition node_per_page :: nat where "node_per_page = 46"

definition zero_node :: vm_ds_node where
  "zero_node = \<lparr>parent = 0, left = 0, right = 0, subtree_max_depth = 0, update = 0,
     start_addr = 0, node_size = 0, node_type = VMA_FREE, node_flags = 0,
     backing = \<lparr>backing_word0 = 0, backing_word1 = 0, backing_tree = VMA_TREE_KHEAP\<rparr>,
     subtree_max_free_slot = 0\<rparr>"

text \<open>The address of \<^verbatim>\<open>vm_avl_update\<close>, any non-zero value, and of the automatic variable \<^verbatim>\<open>temp_key\<close>,
  any address of the kernel stack.\<close>

definition VM_AVL_UPDATE :: u64 where "VM_AVL_UPDATE = 0xFFFFFFFF80001000"

definition TEMP_KEY :: u64 where "TEMP_KEY = 0xFFFFFFFF7FFFFF00"

subsection \<open>Comparators and the update callback\<close>

definition vm_avl_update :: "vm_heap \<Rightarrow> u64 \<Rightarrow> vm_heap res" where
  "vm_avl_update h node =
     bindE (rd h node) (\<lambda>complete_node.
     bindE (if left complete_node \<noteq> 0
            then bindE (rd h (left complete_node)) (\<lambda>l. Inr (subtree_max_free_slot l)) else Inr 0) (\<lambda>max_size_left_subtree.
     bindE (if right complete_node \<noteq> 0
            then bindE (rd h (right complete_node)) (\<lambda>r. Inr (subtree_max_free_slot r)) else Inr 0) (\<lambda>max_size_right_subtree.
     let node_size_to_be_considered =
           (if node_type complete_node = VMA_FREE then node_size complete_node else 0)
     in wr h node (\<lambda>n. n\<lparr>subtree_max_free_slot :=
          max (max max_size_left_subtree max_size_right_subtree) node_size_to_be_considered\<rparr>))))"

definition vm_callbacks :: "u64 \<Rightarrow> vm_heap \<Rightarrow> u64 \<Rightarrow> vm_heap res" where
  "vm_callbacks f h node = (if f = VM_AVL_UPDATE then vm_avl_update h node else Inl WildDeref)"

definition vm_avl_comp_addr :: "vm_heap \<Rightarrow> u64 \<Rightarrow> u64 \<Rightarrow> int res" where
  "vm_avl_comp_addr h node_a node_b =
     bindE (rd h node_a) (\<lambda>a. bindE (rd h node_b) (\<lambda>b. Inr (to_int (start_addr a - start_addr b))))"

definition vm_avl_comp_addr_space :: "vm_heap \<Rightarrow> u64 \<Rightarrow> u64 \<Rightarrow> int res" where
  "vm_avl_comp_addr_space h node_a node_b =
     bindE (rd h node_a) (\<lambda>a. bindE (rd h node_b) (\<lambda>b.
       if start_addr a \<le> start_addr b \<and> start_addr a + node_size a > start_addr b then Inr 0
       else if start_addr a > start_addr b then Inr 1
       else Inr (-1)))"

definition vm_avl_comp_max_free_slot :: "vm_heap \<Rightarrow> u64 \<Rightarrow> u64 \<Rightarrow> int res" where
  "vm_avl_comp_max_free_slot h node_a node_b =
     bindE (rd h node_a) (\<lambda>a.
       if node_size a = subtree_max_free_slot a \<and> node_type a = VMA_FREE then Inr 0
       else
         bindE (if left a \<noteq> 0
                then bindE (rd h (left a)) (\<lambda>l. Inr (subtree_max_free_slot l = subtree_max_free_slot a))
                else Inr False) (\<lambda>go_left.
           if go_left then Inr 1 else Inr (-1)))"

text \<open>A lookup whose key is the automatic variable \<^verbatim>\<open>temp_key\<close> with its \<^verbatim>\<open>start_addr\<close> set.\<close>

definition get_node_by_addr :: "vm_more comparator \<Rightarrow> avl_tree \<Rightarrow> u64 \<Rightarrow> 'a vma_state_scheme \<Rightarrow> u64 res" where
  "get_node_by_addr compare tree addr s =
     avl_get_node compare tree ((vm_nodes s)(TEMP_KEY \<mapsto> zero_node\<lparr>start_addr := addr\<rparr>)) TEMP_KEY"

subsection \<open>Demand paging and the page-fault handler\<close>

definition vma_demand_paging :: "u64 \<Rightarrow> 'a vma_state_scheme \<Rightarrow> (u8 \<times> 'a vma_state_scheme) res" where
  "vma_demand_paging fault_addr s =
     bindE (if fault_addr \<le> 0x00007FFFFFFFFFFF then Inr 0
            else get_node_by_addr vm_avl_comp_addr_space (kernel_vma_heap_tree s) fault_addr s) (\<lambda>node_for_address.
       if node_for_address = 0 then Inr (1, s)
       else
         bindE (rd (vm_nodes s) node_for_address) (\<lambda>n.
           if node_type n \<noteq> VMA_REGULAR then Inr (1, s)
           else
             bindE (pmm_allocate_frames 1 4096 s) (\<lambda>(physical_frame, s1).
             bindE (vmm_map fault_addr physical_frame 1 (ucast (node_flags n)) s1) (\<lambda>(_, s2).
               Inr (0, s2)))))"

definition vmm_page_fault_callback :: "interrupt_frame \<Rightarrow> 'a vma_state_scheme \<Rightarrow> 'a vma_state_scheme res" where
  "vmm_page_fault_callback iframe s =
     (let is_present = fr_error_code iframe AND 0x1
      in if is_present = 0 then
           bindE (vma_demand_paging (fr_cr2 iframe) s) (\<lambda>(r, s1).
             if r = 0 then Inr s1 else Inl (Panic ''Page fault! Invalid address access''))
         else Inl (Panic ''Page fault! Invalid address access''))"

text \<open>A supervisor write to \<open>v\<close>: a page fault with error code 2 when the page is not present.\<close>

definition touch :: "u64 \<Rightarrow> 'a vma_state_scheme \<Rightarrow> 'a vma_state_scheme res" where
  "touch v s =
     (case hw_translate v s of
        Some _ \<Rightarrow> Inr s
      | None \<Rightarrow> vmm_page_fault_callback (fault_frame 14 2 v) s)"

fun pin_loop :: "nat \<Rightarrow> u64 \<Rightarrow> u64 \<Rightarrow> u8 \<Rightarrow> 'a vma_state_scheme \<Rightarrow> (int \<times> 'a vma_state_scheme) res" where
  "pin_loop 0 page end_page write_access s = Inl OutOfFuel"
| "pin_loop (Suc fuel) page end_page write_access s =
     (if page \<le> end_page then
        bindE (vmm_get_pte page s) (\<lambda>(pte, s1).
        bindE
          (if pte_present (mem_rd pte s1) = 0 then
             (if write_access = 0 then Inr (Inl (- EFAULT), s1)
              else
                bindE (vma_demand_paging page s1) (\<lambda>(r, s2).
                  if r = 0 then Inr (Inl (- EFAULT), s2)
                  else bindE (vmm_get_pte page s2) (\<lambda>(pte', s3). Inr (Inr pte', s3))))
           else Inr (Inr pte, s1)) (\<lambda>(r, s4).
          case r of
            Inl err \<Rightarrow> Inr (err, s4)
          | Inr pte' \<Rightarrow>
              if write_access \<noteq> 0 \<and> pte_writeable (mem_rd pte' s4) = 0 then Inr (- EFAULT, s4)
              else pin_loop fuel (page + 0x1000) end_page write_access s4))
      else Inr (0, s))"

text \<open>There are 2 to the power 52 pages, so a loop that visits more of them than that never ends.\<close>

definition PAGE_FUEL :: nat where "PAGE_FUEL = 2 ^ 52 + 1"

definition vmm_pin_pages :: "u64 \<Rightarrow> u64 \<Rightarrow> u8 \<Rightarrow> 'a vma_state_scheme \<Rightarrow> (int \<times> 'a vma_state_scheme) res" where
  "vmm_pin_pages v_addr count write_access s =
     (if v_addr < 0xFFF then Inr (- EFAULT, s)
      else if count = 0 then Inr (- EINVAL, s)
      else
        let start_page = v_addr AND NOT 0xFFF;
            end_page = (start_page + count - 1) AND NOT 0xFFF
        in pin_loop PAGE_FUEL start_page end_page write_access s)"

subsection \<open>The slab of tree nodes\<close>

definition free_vm_ds_node :: "u64 \<Rightarrow> 'a vma_state_scheme \<Rightarrow> 'a vma_state_scheme res" where
  "free_vm_ds_node node s =
     bindE (wr (vm_nodes s) node (\<lambda>n. n\<lparr>start_addr := free_list s\<rparr>)) (\<lambda>h.
       Inr (s\<lparr>vm_nodes := h, free_list := node, free_node_count := free_node_count s + 1\<rparr>))"

definition init_vm_ds_node ::
  "u64 \<Rightarrow> u64 \<Rightarrow> u64 \<Rightarrow> vm_node_type \<Rightarrow> u64 \<Rightarrow> 'a vma_state_scheme \<Rightarrow> 'a vma_state_scheme res" where
  "init_vm_ds_node node start sz type update_callback s =
     bindE (wr (vm_nodes s) node (\<lambda>n. n\<lparr>start_addr := start, node_size := sz, node_type := type,
                                       subtree_max_free_slot := sz\<rparr>)) (\<lambda>h.
     bindE (avl_init h node update_callback) (\<lambda>h1.
       Inr (s\<lparr>vm_nodes := h1\<rparr>)))"

text \<open>The first part of \<^verbatim>\<open>alloc_vm_ds_node\<close>, which is all of it during a replenish cycle.\<close>

definition pop_vm_ds_node :: "'a vma_state_scheme \<Rightarrow> (u64 \<times> 'a vma_state_scheme) res" where
  "pop_vm_ds_node s =
     bindE (rd (vm_nodes s) (free_list s)) (\<lambda>n.
       Inr (free_list s,
            s\<lparr>free_list := start_addr n, free_node_count := free_node_count s - 1,
              vm_nodes := (vm_nodes s)(free_list s \<mapsto> zero_node)\<rparr>))"

text \<open>The nodes of a fresh page, each linked to the next one; the last link is given.\<close>

fun slab_nodes :: "nat \<Rightarrow> u64 \<Rightarrow> u64 \<Rightarrow> vm_heap \<Rightarrow> vm_heap" where
  "slab_nodes 0 base last_link h = h"
| "slab_nodes (Suc 0) base last_link h = h(base \<mapsto> zero_node\<lparr>start_addr := last_link\<rparr>)"
| "slab_nodes (Suc (Suc k)) base last_link h =
     slab_nodes (Suc k) (base + NODE_BYTES) last_link (h(base \<mapsto> zero_node\<lparr>start_addr := base + NODE_BYTES\<rparr>))"

subsection \<open>Allocation\<close>

datatype tree_ref = HEAP_TREE | MMIO_TREE

definition get_tree :: "tree_ref \<Rightarrow> 'a vma_state_scheme \<Rightarrow> avl_tree" where
  "get_tree t s = (case t of HEAP_TREE \<Rightarrow> kernel_vma_heap_tree s | MMIO_TREE \<Rightarrow> kernel_vma_mmio_tree s)"

definition set_tree_ref :: "tree_ref \<Rightarrow> avl_tree \<Rightarrow> 'a vma_state_scheme \<Rightarrow> 'a vma_state_scheme" where
  "set_tree_ref t T s =
     (case t of HEAP_TREE \<Rightarrow> s\<lparr>kernel_vma_heap_tree := T\<rparr> | MMIO_TREE \<Rightarrow> s\<lparr>kernel_vma_mmio_tree := T\<rparr>)"

definition avl_insert_in :: "tree_ref \<Rightarrow> u64 \<Rightarrow> 'a vma_state_scheme \<Rightarrow> 'a vma_state_scheme res" where
  "avl_insert_in t node s =
     bindE (avl_insert vm_callbacks vm_avl_comp_addr (get_tree t s) (vm_nodes s) node) (\<lambda>(T, h).
       Inr (set_tree_ref t T (s\<lparr>vm_nodes := h\<rparr>)))"

definition avl_remove_in :: "tree_ref \<Rightarrow> u64 \<Rightarrow> 'a vma_state_scheme \<Rightarrow> 'a vma_state_scheme res" where
  "avl_remove_in t node s =
     bindE (avl_remove vm_callbacks (get_tree t s) (vm_nodes s) node) (\<lambda>(T, h).
       Inr (set_tree_ref t T (s\<lparr>vm_nodes := h\<rparr>)))"

definition wr_node :: "u64 \<Rightarrow> (vm_ds_node \<Rightarrow> vm_ds_node) \<Rightarrow> 'a vma_state_scheme \<Rightarrow> 'a vma_state_scheme res" where
  "wr_node p f s = bindE (wr (vm_nodes s) p f) (\<lambda>h. Inr (s\<lparr>vm_nodes := h\<rparr>))"

definition rd_backing :: "vma_backing option \<Rightarrow> vma_backing res" where
  "rd_backing b = (case b of None \<Rightarrow> Inl NullDeref | Some x \<Rightarrow> Inr x)"

text \<open>
  \<^verbatim>\<open>vma_allocate_memory_from_tree\<close>, \<^verbatim>\<open>alloc_vm_ds_node\<close> and \<^verbatim>\<open>replenish_slab_from_tree\<close> call each other.
  The flag \<^verbatim>\<open>in_replenish_cycle\<close> cuts the recursion: while it is set, \<^verbatim>\<open>alloc_vm_ds_node\<close> only pops the
  free list. The allocation is therefore a function of the node allocator it calls, and the
  replenishing uses it with the plain pop.
\<close>

definition allocate_with ::
  "('a vma_state_scheme \<Rightarrow> (u64 \<times> 'a vma_state_scheme) res) \<Rightarrow> tree_ref \<Rightarrow> u64 \<Rightarrow> vm_node_type \<Rightarrow> u32 \<Rightarrow>
   vma_backing option \<Rightarrow> 'a vma_state_scheme \<Rightarrow> (u64 \<times> 'a vma_state_scheme) res" where
  "allocate_with alloc_node tree sz allocation_type flags allocation_backing s =
     (if allocation_type = VMA_FREE then Inr (0, s)
      else
        bindE (avl_get_node vm_avl_comp_max_free_slot (get_tree tree s) (vm_nodes s) 0) (\<lambda>node_for_request.
        if node_for_request = 0 then Inr (0, s)
        else
          bindE (rd (vm_nodes s) node_for_request) (\<lambda>n.
          bindE
            (if sz = node_size n then
               wr_node node_for_request (\<lambda>k. k\<lparr>node_type := allocation_type, node_flags := flags\<rparr>) s
             else
               bindE (alloc_node s) (\<lambda>(node_for_leftover, s1).
               bindE (rd (vm_nodes s1) node_for_request) (\<lambda>n1.
               bindE (init_vm_ds_node node_for_leftover (start_addr n1 + sz) (node_size n1 - sz) VMA_FREE VM_AVL_UPDATE s1) (\<lambda>s2.
               bindE (wr_node node_for_request (\<lambda>k. k\<lparr>node_type := allocation_type, node_flags := flags,
                                                        node_size := sz\<rparr>) s2) (\<lambda>s3.
                 avl_insert_in tree node_for_leftover s3))))) (\<lambda>s4.
          bindE (rd (vm_nodes s4) node_for_request) (\<lambda>n4.
          bindE
            (case allocation_type of
               VMA_HARDWARE_MMIO \<Rightarrow>
                 bindE (rd_backing allocation_backing) (\<lambda>b.
                 bindE (wr_node node_for_request (\<lambda>k. k\<lparr>backing := (backing k)\<lparr>backing_word0 := backing_word0 b\<rparr>\<rparr>) s4) (\<lambda>s5.
                 bindE (vmm_map (start_addr n4) (backing_word0 b) (sz div 4096) (ucast flags) s5) (\<lambda>(_, s6).
                   Inr s6)))
             | VMA_FILE_BACKED \<Rightarrow>
                 bindE (rd_backing allocation_backing) (\<lambda>b.
                   wr_node node_for_request (\<lambda>k. k\<lparr>backing := (backing k)\<lparr>backing_word0 := backing_word0 b,
                                                                            backing_word1 := backing_word0 b\<rparr>\<rparr>) s4)
             | VMA_UNMANAGED_MAPPING \<Rightarrow>
                 bindE (rd_backing allocation_backing) (\<lambda>b.
                   wr_node node_for_request (\<lambda>k. k\<lparr>backing := (backing k)\<lparr>backing_tree := backing_tree b\<rparr>\<rparr>) s4)
             | _ \<Rightarrow> Inr s4) (\<lambda>s7.
            Inr (start_addr n4, s7)))))))"

definition replenish_slab_from_tree :: "'a vma_state_scheme \<Rightarrow> 'a vma_state_scheme res" where
  "replenish_slab_from_tree s =
     bindE (allocate_with pop_vm_ds_node HEAP_TREE 4096 VMA_REGULAR (ucast (PT_GLOBAL OR PT_WRITEABLE OR PT_NX)) None s)
       (\<lambda>(start_of_page, s1).
     bindE (touch start_of_page s1) (\<lambda>s2.
       Inr (s2\<lparr>vm_nodes := slab_nodes node_per_page start_of_page (free_list s2) (vm_nodes s2),
               free_node_count := free_node_count s2 + of_nat node_per_page,
               free_list := start_of_page\<rparr>)))"

definition alloc_vm_ds_node :: "'a vma_state_scheme \<Rightarrow> (u64 \<times> 'a vma_state_scheme) res" where
  "alloc_vm_ds_node s =
     bindE (pop_vm_ds_node s) (\<lambda>(node_to_allocate, s1).
       if free_node_count s1 < MINIMUM_AVAILABLE_NODES \<and> in_replenish_cycle s1 = 0 then
         bindE (replenish_slab_from_tree (s1\<lparr>in_replenish_cycle := 1\<rparr>)) (\<lambda>s2.
           Inr (node_to_allocate, s2\<lparr>in_replenish_cycle := 0\<rparr>))
       else Inr (node_to_allocate, s1))"

definition vma_allocate_memory_from_tree ::
  "tree_ref \<Rightarrow> u64 \<Rightarrow> vm_node_type \<Rightarrow> u32 \<Rightarrow> vma_backing option \<Rightarrow> 'a vma_state_scheme \<Rightarrow>
   (u64 \<times> 'a vma_state_scheme) res" where
  "vma_allocate_memory_from_tree = allocate_with alloc_vm_ds_node"

definition vma_allocate_memory_from_ktree ::
  "u64 \<Rightarrow> vm_node_type \<Rightarrow> u32 \<Rightarrow> vma_backing option \<Rightarrow> 'a vma_state_scheme \<Rightarrow> (u64 \<times> 'a vma_state_scheme) res" where
  "vma_allocate_memory_from_ktree sz allocation_type flags allocation_backing s =
     bindE (if allocation_type = VMA_UNMANAGED_MAPPING
            then bindE (rd_backing allocation_backing) (\<lambda>b. Inr (backing_tree b = VMA_TREE_KMMIO))
            else Inr False) (\<lambda>unmanaged_mmio.
       if unmanaged_mmio then vma_allocate_memory_from_tree MMIO_TREE sz allocation_type flags allocation_backing s
       else if allocation_type = VMA_HARDWARE_MMIO
       then vma_allocate_memory_from_tree MMIO_TREE sz allocation_type flags allocation_backing s
       else vma_allocate_memory_from_tree HEAP_TREE sz allocation_type flags allocation_backing s)"

definition vma_allocate_memory_from_utree ::
  "u64 \<Rightarrow> vm_node_type \<Rightarrow> u32 \<Rightarrow> vma_backing option \<Rightarrow> 'a vma_state_scheme \<Rightarrow> (u64 \<times> 'a vma_state_scheme) res" where
  "vma_allocate_memory_from_utree sz allocation_type flags allocation_backing s = Inr (0, s)"

subsection \<open>Release\<close>

fun free_pages_loop :: "nat \<Rightarrow> u64 \<Rightarrow> u64 \<Rightarrow> 'a vma_state_scheme \<Rightarrow> 'a vma_state_scheme res" where
  "free_pages_loop 0 current_v_addr end_addr s = Inl OutOfFuel"
| "free_pages_loop (Suc fuel) current_v_addr end_addr s =
     (if current_v_addr < end_addr then
        bindE (vmm_get_physical_from_virtual current_v_addr s) (\<lambda>(phys_addr, s1).
        bindE (pmm_free_frames phys_addr 1 s1) (\<lambda>s2.
          free_pages_loop fuel (current_v_addr + 0x1000) end_addr s2))
      else Inr s)"

definition release_backing :: "vm_ds_node \<Rightarrow> 'a vma_state_scheme \<Rightarrow> 'a vma_state_scheme res" where
  "release_backing n s =
     (if node_type n = VMA_HARDWARE_MMIO then
        bindE (vmm_unmap (start_addr n) (node_size n div 4096) s) (\<lambda>(_, s1). Inr s1)
      else if node_type n = VMA_FILE_BACKED \<or> node_type n = VMA_REGULAR then
        bindE (free_pages_loop PAGE_FUEL (start_addr n) (start_addr n + node_size n) s) (\<lambda>s1.
        bindE (vmm_unmap (start_addr n) (node_size n div 4096) s1) (\<lambda>(_, s2). Inr s2))
      else Inr s)"

definition is_free_node :: "u64 \<Rightarrow> 'a vma_state_scheme \<Rightarrow> bool res" where
  "is_free_node p s =
     (if p \<noteq> 0 then bindE (rd (vm_nodes s) p) (\<lambda>n. Inr (node_type n = VMA_FREE)) else Inr False)"

definition vma_free_memory_from_tree :: "tree_ref \<Rightarrow> u64 \<Rightarrow> 'a vma_state_scheme \<Rightarrow> 'a vma_state_scheme res" where
  "vma_free_memory_from_tree tree start s =
     bindE (get_node_by_addr vm_avl_comp_addr (get_tree tree s) start s) (\<lambda>node_to_free.
     bindE (rd (vm_nodes s) node_to_free) (\<lambda>n.
     bindE (release_backing n s) (\<lambda>s1.
     bindE (avl_next (vm_nodes s1) node_to_free) (\<lambda>successor.
     bindE (avl_prev (vm_nodes s1) node_to_free) (\<lambda>predecessor.
     bindE (is_free_node successor s1) (\<lambda>suc_free.
     bindE (is_free_node predecessor s1) (\<lambda>pre_free.
       if suc_free \<and> pre_free then
         bindE (rd (vm_nodes s1) successor) (\<lambda>sn.
         bindE (wr_node predecessor (\<lambda>k. k\<lparr>node_size := node_size sn + node_size k + node_size n\<rparr>) s1) (\<lambda>s2.
         bindE (avl_remove_in tree successor s2) (\<lambda>s3.
         bindE (avl_remove_in tree node_to_free s3) (\<lambda>s4.
         bindE (wr_node successor (\<lambda>k. k\<lparr>start_addr := node_to_free\<rparr>) s4) (\<lambda>s5.
         bindE (wr_node node_to_free (\<lambda>k. k\<lparr>start_addr := free_list s5\<rparr>) s5) (\<lambda>s6.
           Inr (s6\<lparr>free_list := successor, free_node_count := free_node_count s6 + 2\<rparr>)))))))
       else if pre_free then
         bindE (wr_node predecessor (\<lambda>k. k\<lparr>node_size := node_size k + node_size n\<rparr>) s1) (\<lambda>s2.
         bindE (avl_remove_in tree node_to_free s2) (\<lambda>s3.
         bindE (wr_node node_to_free (\<lambda>k. k\<lparr>start_addr := free_list s3\<rparr>) s3) (\<lambda>s4.
           Inr (s4\<lparr>free_list := node_to_free, free_node_count := free_node_count s4 + 1\<rparr>))))
       else if suc_free then
         bindE (rd (vm_nodes s1) successor) (\<lambda>sn.
         bindE (wr_node node_to_free (\<lambda>k. k\<lparr>node_size := node_size sn + node_size n, node_type := VMA_FREE\<rparr>) s1) (\<lambda>s2.
         bindE (avl_remove_in tree successor s2) (\<lambda>s3.
         bindE (wr_node successor (\<lambda>k. k\<lparr>start_addr := free_list s3\<rparr>) s3) (\<lambda>s4.
           Inr (s4\<lparr>free_list := successor, free_node_count := free_node_count s4 + 1\<rparr>)))))
       else wr_node node_to_free (\<lambda>k. k\<lparr>node_type := VMA_FREE\<rparr>) s1)))))))"

definition vma_free_memory_from_ktree :: "u64 \<Rightarrow> 'a vma_state_scheme \<Rightarrow> 'a vma_state_scheme res" where
  "vma_free_memory_from_ktree start s =
     (if start \<ge> KERNEL_HEAP_START \<and> start < KERNEL_HEAP_LIMIT then vma_free_memory_from_tree HEAP_TREE start s
      else if start \<ge> KERNEL_MMIO_START \<and> start < KERNEL_MMIO_LIMIT then vma_free_memory_from_tree MMIO_TREE start s
      else Inr s)"

definition vma_free_memory_from_utree :: "u64 \<Rightarrow> 'a vma_state_scheme \<Rightarrow> 'a vma_state_scheme res" where
  "vma_free_memory_from_utree start s = Inr s"

definition vma_init :: "'a vma_state_scheme \<Rightarrow> 'a vma_state_scheme res" where
  "vma_init s =
     bindE (pmm_allocate_frames 1 4096 s) (\<lambda>(phys_addr, s1).
     bindE (vmm_map KERNEL_HEAP_START phys_addr 1 (PT_GLOBAL OR PT_WRITEABLE OR PT_NX) s1) (\<lambda>(_, s2).
     let s3 = s2\<lparr>vm_nodes := slab_nodes node_per_page KERNEL_HEAP_START 0 (vm_nodes s2),
                 free_node_count := free_node_count s2 + of_nat node_per_page,
                 free_list := KERNEL_HEAP_START\<rparr> in
     bindE (alloc_vm_ds_node s3) (\<lambda>(kernel_vma_heap_tree_root, s4).
     bindE (init_vm_ds_node kernel_vma_heap_tree_root KERNEL_HEAP_START 4096 VMA_REGULAR VM_AVL_UPDATE s4) (\<lambda>s5.
     bindE (wr_node kernel_vma_heap_tree_root (\<lambda>k. k\<lparr>node_flags := ucast (PT_GLOBAL OR PT_WRITEABLE OR PT_NX)\<rparr>) s5) (\<lambda>s6.
     let s7 = s6\<lparr>kernel_vma_heap_tree := (kernel_vma_heap_tree s6)\<lparr>root := kernel_vma_heap_tree_root\<rparr>\<rparr> in
     bindE (alloc_vm_ds_node s7) (\<lambda>(kheap_remaining, s8).
     bindE (init_vm_ds_node kheap_remaining (KERNEL_HEAP_START + 4096) (KERNEL_HEAP_SIZE - 4096) VMA_FREE VM_AVL_UPDATE s8) (\<lambda>s9.
     bindE (avl_insert_in HEAP_TREE kheap_remaining s9) (\<lambda>s10.
     bindE (alloc_vm_ds_node s10) (\<lambda>(kernel_vma_mmio_tree_root, s11).
     bindE (init_vm_ds_node kernel_vma_mmio_tree_root KERNEL_MMIO_START KERNEL_MMIO_SIZE VMA_FREE VM_AVL_UPDATE s11) (\<lambda>s12.
       Inr (s12\<lparr>kernel_vma_mmio_tree := (kernel_vma_mmio_tree s12)\<lparr>root := kernel_vma_mmio_tree_root\<rparr>\<rparr>)))))))))))"

end
