(* ===== verification/Kmalloc.thy ===== *)
theory Kmalloc
  imports Vma
begin

text \<open>
  The kernel heap, \<^verbatim>\<open>memory/kmalloc.c\<close>: seven buckets of power-of-two blocks, each with a list of pages
  that have free blocks and a list of full pages, page-sized allocations passed to the virtual memory
  areas, and the mappings for device memory. Page descriptors are records at the address of their
  page; \<open>kmem\<close> holds the 64-bit words of the kernel heap, which is where free blocks are linked. A
  page that is touched for the first time is mapped by the page-fault handler and reads as zeros.
\<close>

section \<open>Definitions\<close>

record kmalloc_page_descriptor =
  bucket_index :: u8
  blocks_in_use :: u16
  total_blocks :: u16
  block_list :: u64
  next_page_descriptor :: u64
  prev_page_descriptor :: u64

record kmalloc_bucket =
  bucket_size :: u32
  free_page_list :: u64
  full_page_list :: u64

record kmalloc_state = vma_state +
  buckets :: "kmalloc_bucket list"
  page_descs :: "u64 \<Rightarrow> kmalloc_page_descriptor option"
  kmem :: "u64 \<Rightarrow> u64"

record dma_block =
  dma_virtual_addr :: u64
  dma_physical_addr :: u64
  dma_page_count :: u64

text \<open>\<^verbatim>\<open>physical_addrs\<close> and \<^verbatim>\<open>page_count\<close> are indeterminate in a block that reports a failure; they are 0 here.\<close>

record dma_scatter_block =
  sc_virtual_addr :: u64
  sc_physical_addrs :: u64
  sc_page_count :: u64

datatype mmio_flags_t = MMIO_DEFAULT | MMIO_WRITE_COMBINING

definition SMALL_BUCKET_AGGREGATES :: int where "SMALL_BUCKET_AGGREGATES = 4"

definition DESCRIPTOR_BYTES :: u64 where "DESCRIPTOR_BYTES = 32"

subsection \<open>Buckets\<close>

definition upd_bucket ::
  "u64 \<Rightarrow> (kmalloc_bucket \<Rightarrow> kmalloc_bucket) \<Rightarrow> 'a kmalloc_state_scheme \<Rightarrow> 'a kmalloc_state_scheme res" where
  "upd_bucket i f s =
     bindE (arr_get (buckets s) i) (\<lambda>b. bindE (arr_set (buckets s) i (f b)) (\<lambda>bs. Inr (s\<lparr>buckets := bs\<rparr>)))"

definition upd_desc ::
  "u64 \<Rightarrow> (kmalloc_page_descriptor \<Rightarrow> kmalloc_page_descriptor) \<Rightarrow> 'a kmalloc_state_scheme \<Rightarrow>
   'a kmalloc_state_scheme res" where
  "upd_desc p f s = bindE (wr (page_descs s) p f) (\<lambda>d. Inr (s\<lparr>page_descs := d\<rparr>))"

definition kmalloc_init :: "'a kmalloc_state_scheme \<Rightarrow> 'a kmalloc_state_scheme res" where
  "kmalloc_init s =
     bindE (upd_bucket 0 (\<lambda>b. b\<lparr>bucket_size := 16\<rparr>) s) (\<lambda>s.
     bindE (upd_bucket 1 (\<lambda>b. b\<lparr>bucket_size := 32\<rparr>) s) (\<lambda>s.
     bindE (upd_bucket 2 (\<lambda>b. b\<lparr>bucket_size := 64\<rparr>) s) (\<lambda>s.
     bindE (upd_bucket 3 (\<lambda>b. b\<lparr>bucket_size := 128\<rparr>) s) (\<lambda>s.
     bindE (upd_bucket 4 (\<lambda>b. b\<lparr>bucket_size := 256\<rparr>) s) (\<lambda>s.
     bindE (upd_bucket 5 (\<lambda>b. b\<lparr>bucket_size := 512\<rparr>) s) (\<lambda>s.
       upd_bucket 6 (\<lambda>b. b\<lparr>bucket_size := 1024\<rparr>) s))))))"

text \<open>\<^verbatim>\<open>__builtin_clzll\<close> and \<^verbatim>\<open>__builtin_ctzll\<close> on a non-zero argument.\<close>

definition clz64 :: "u64 \<Rightarrow> int" where
  "clz64 w = int (length (takeWhile (\<lambda>i. \<not> bit w i) (rev [0..<64])))"

definition ctz64 :: "u64 \<Rightarrow> int" where
  "ctz64 w = int (length (takeWhile (\<lambda>i. \<not> bit w i) [0..<64]))"

definition get_bucket_from_size :: "u64 \<Rightarrow> u8" where
  "get_bucket_from_size sz =
     (if sz > 1024 then 255
      else if sz < 16 then 0
      else
        let leading_zeros = clz64 sz; trailing_zeros = ctz64 sz
        in if leading_zeros + trailing_zeros + 1 = 64
           then word_of_int (trailing_zeros - SMALL_BUCKET_AGGREGATES)
           else let exponent = word_of_int (64 - leading_zeros) :: u8
                in word_of_int (uint exponent - SMALL_BUCKET_AGGREGATES))"

text \<open>First access to a page of the heap.\<close>

definition touch_page :: "u64 \<Rightarrow> 'a kmalloc_state_scheme \<Rightarrow> 'a kmalloc_state_scheme res" where
  "touch_page v s =
     (case hw_translate v s of
        Some _ \<Rightarrow> Inr s
      | None \<Rightarrow> bindE (touch v s) (\<lambda>s1.
          Inr (s1\<lparr>kmem := (\<lambda>a. if a AND NOT 0xFFF = v AND NOT 0xFFF then 0 else kmem s1 a)\<rparr>)))"

text \<open>The loop that links the holes of a new page: \<open>total - 1\<close> links of the given stride.\<close>

fun link_holes :: "nat \<Rightarrow> u64 \<Rightarrow> u64 \<Rightarrow> (u64 \<Rightarrow> u64) \<Rightarrow> u64 \<Rightarrow> u64" where
  "link_holes 0 hole stride m = m"
| "link_holes (Suc n) hole stride m = link_holes n (hole + stride) stride (m(hole := hole + stride))"

definition allocate_page_for_bucket :: "u8 \<Rightarrow> 'a kmalloc_state_scheme \<Rightarrow> (u8 \<times> 'a kmalloc_state_scheme) res" where
  "allocate_page_for_bucket bucket_id s =
     bindE (vma_allocate_memory_from_ktree 4096 VMA_REGULAR (ucast (PT_WRITEABLE OR PT_NX OR PT_GLOBAL)) None s)
       (\<lambda>(new_page, s1).
     if new_page = 0 then Inr (1, s1)
     else
       bindE (touch_page new_page s1) (\<lambda>s2.
       bindE (arr_get (buckets s2) (ucast bucket_id)) (\<lambda>b.
       let bsize = ucast (bucket_size b) :: u64;
           header = max bsize DESCRIPTOR_BYTES in
       if bsize = 0 then Inl DivByZero
       else
         let total = ucast ((4096 - header) div bsize) :: u16;
             first_hole = new_page + header;
             s3 = s2\<lparr>page_descs := (page_descs s2)(new_page \<mapsto>
                       \<lparr>bucket_index = bucket_id, blocks_in_use = 0, total_blocks = total, block_list = first_hole,
                        next_page_descriptor = 0, prev_page_descriptor = 0\<rparr>),
                     kmem := link_holes (unat total - 1) first_hole bsize (kmem s2)\<rparr> in
         bindE (if free_page_list b \<noteq> 0
                then upd_desc (free_page_list b) (\<lambda>d. d\<lparr>prev_page_descriptor := new_page\<rparr>) s3
                else Inr s3) (\<lambda>s4.
         bindE (upd_desc new_page (\<lambda>d. d\<lparr>prev_page_descriptor := 0, next_page_descriptor := free_page_list b\<rparr>) s4) (\<lambda>s5.
         bindE (upd_bucket (ucast bucket_id) (\<lambda>b. b\<lparr>free_page_list := new_page\<rparr>) s5) (\<lambda>s6.
           Inr (0, s6)))))))"

subsection \<open>Allocation and release\<close>

text \<open>A page that became full moves from the free list of its bucket to the full list.\<close>

definition move_to_full :: "u8 \<Rightarrow> u64 \<Rightarrow> 'a kmalloc_state_scheme \<Rightarrow> 'a kmalloc_state_scheme res" where
  "move_to_full bucket_id full_page s =
     bindE (rd (page_descs s) full_page) (\<lambda>d.
     bindE (upd_bucket (ucast bucket_id) (\<lambda>b. b\<lparr>free_page_list := next_page_descriptor d\<rparr>) s) (\<lambda>s1.
     bindE (if next_page_descriptor d \<noteq> 0
            then upd_desc (next_page_descriptor d) (\<lambda>e. e\<lparr>prev_page_descriptor := 0\<rparr>) s1 else Inr s1) (\<lambda>s2.
     bindE (arr_get (buckets s2) (ucast bucket_id)) (\<lambda>b.
     bindE (if full_page_list b \<noteq> 0
            then upd_desc (full_page_list b) (\<lambda>e. e\<lparr>prev_page_descriptor := full_page\<rparr>) s2 else Inr s2) (\<lambda>s3.
     bindE (upd_desc full_page (\<lambda>e. e\<lparr>prev_page_descriptor := 0, next_page_descriptor := full_page_list b\<rparr>) s3) (\<lambda>s4.
       upd_bucket (ucast bucket_id) (\<lambda>b. b\<lparr>full_page_list := full_page\<rparr>) s4))))))"

definition take_block :: "u8 \<Rightarrow> 'a kmalloc_state_scheme \<Rightarrow> (u64 \<times> 'a kmalloc_state_scheme) res" where
  "take_block bucket_id s =
     bindE (arr_get (buckets s) (ucast bucket_id)) (\<lambda>b.
     bindE (rd (page_descs s) (free_page_list b)) (\<lambda>d.
     let alloc_addr = block_list d in
     if alloc_addr = 0 then Inl NullDeref
     else
     bindE (upd_desc (free_page_list b) (\<lambda>e. e\<lparr>blocks_in_use := blocks_in_use e + 1,
                                                block_list := kmem s (block_list e)\<rparr>) s) (\<lambda>s1.
     bindE (rd (page_descs s1) (free_page_list b)) (\<lambda>d1.
     bindE (if blocks_in_use d1 = total_blocks d1 then move_to_full bucket_id (free_page_list b) s1 else Inr s1) (\<lambda>s2.
       Inr (alloc_addr, s2))))))"

definition kmalloc :: "u64 \<Rightarrow> 'a kmalloc_state_scheme \<Rightarrow> (u64 \<times> 'a kmalloc_state_scheme) res" where
  "kmalloc sz s =
     (if sz = 0 then Inr (0, s)
      else
        let bucket_id = get_bucket_from_size sz
        in if bucket_id = 255 then
             let remainder = sz mod 4096;
                 rounded_size = (if remainder = 0 then sz else sz + (4096 - remainder))
             in vma_allocate_memory_from_ktree rounded_size VMA_REGULAR (ucast (PT_WRITEABLE OR PT_NX OR PT_GLOBAL)) None s
           else
             bindE (arr_get (buckets s) (ucast bucket_id)) (\<lambda>b.
             bindE (if free_page_list b = 0 then allocate_page_for_bucket bucket_id s else Inr (0, s)) (\<lambda>(failed, s1).
               if failed \<noteq> 0 then Inr (0, s1) else take_block bucket_id s1)))"

text \<open>The unlinking of a page from one of the two lists of its bucket, whose head is given by a setter.\<close>

definition unlink_page ::
  "(u64 \<Rightarrow> kmalloc_bucket \<Rightarrow> kmalloc_bucket) \<Rightarrow> u64 \<Rightarrow> kmalloc_page_descriptor \<Rightarrow> 'a kmalloc_state_scheme \<Rightarrow>
   'a kmalloc_state_scheme res" where
  "unlink_page set_head i d s =
     bindE (if prev_page_descriptor d = 0 then upd_bucket i (set_head (next_page_descriptor d)) s
            else upd_desc (prev_page_descriptor d) (\<lambda>e. e\<lparr>next_page_descriptor := next_page_descriptor d\<rparr>) s) (\<lambda>s1.
       if next_page_descriptor d \<noteq> 0
       then upd_desc (next_page_descriptor d) (\<lambda>e. e\<lparr>prev_page_descriptor := prev_page_descriptor d\<rparr>) s1
       else Inr s1)"

definition kfree :: "u64 \<Rightarrow> 'a kmalloc_state_scheme \<Rightarrow> 'a kmalloc_state_scheme res" where
  "kfree v_addr s =
     (if v_addr AND 0xFFF = 0 then vma_free_memory_from_ktree v_addr s
      else
        let page = v_addr AND NOT 0xFFF in
        bindE (rd (page_descs s) page) (\<lambda>d.
        let i = ucast (bucket_index d) :: u64;
            s0 = s\<lparr>kmem := (kmem s)(v_addr := block_list d)\<rparr> in
        bindE (upd_desc page (\<lambda>e. e\<lparr>block_list := v_addr, blocks_in_use := blocks_in_use e - 1\<rparr>) s0) (\<lambda>s1.
        bindE (rd (page_descs s1) page) (\<lambda>d1.
          if unat (blocks_in_use d1) + 1 = unat (total_blocks d1) then
            bindE (unlink_page (\<lambda>p b. b\<lparr>full_page_list := p\<rparr>) i d1 s1) (\<lambda>s2.
            bindE (arr_get (buckets s2) i) (\<lambda>b.
            bindE (if free_page_list b \<noteq> 0
                   then upd_desc (full_page_list b) (\<lambda>e. e\<lparr>prev_page_descriptor := page\<rparr>) s2 else Inr s2) (\<lambda>s3.
            bindE (arr_get (buckets s3) 0) (\<lambda>b0.
            bindE (upd_desc page (\<lambda>e. e\<lparr>prev_page_descriptor := 0, next_page_descriptor := full_page_list b0\<rparr>) s3) (\<lambda>s4.
              upd_bucket 0 (\<lambda>b. b\<lparr>full_page_list := page\<rparr>) s4)))))
          else if blocks_in_use d1 = 0 then
            bindE (unlink_page (\<lambda>p b. b\<lparr>free_page_list := p\<rparr>) i d1 s1) (\<lambda>s2.
            bindE (vma_free_memory_from_ktree page s2) (\<lambda>s3.
              Inr (s3\<lparr>page_descs := (page_descs s3)(page := None)\<rparr>)))
          else Inr s1))))"

subsection \<open>Device memory\<close>

definition kmap_mmio :: "u64 \<Rightarrow> u64 \<Rightarrow> mmio_flags_t \<Rightarrow> 'a kmalloc_state_scheme \<Rightarrow> (u64 \<times> 'a kmalloc_state_scheme) res" where
  "kmap_mmio physical_address sz mmio_flag s =
     (let vmm_flags = (if mmio_flag = MMIO_DEFAULT then PT_GLOBAL OR PT_WRITEABLE OR PT_DISABLE_CACHING
                       else PT_GLOBAL OR PT_WRITEABLE);
          page_offset = physical_address AND 0xFFF;
          sz1 = (sz + page_offset + 0xFFF) AND NOT 0xFFF;
          base = physical_address AND NOT 0xFFF
      in bindE (vma_allocate_memory_from_ktree sz1 VMA_HARDWARE_MMIO (ucast vmm_flags)
                  (Some \<lparr>backing_word0 = base, backing_word1 = 0, backing_tree = VMA_TREE_KHEAP\<rparr>) s) (\<lambda>(virtual_base, s1).
           if virtual_base = 0 then Inr (0, s1) else Inr (virtual_base + page_offset, s1)))"

definition kunmap_mmio :: "u64 \<Rightarrow> 'a kmalloc_state_scheme \<Rightarrow> 'a kmalloc_state_scheme res" where
  "kunmap_mmio virtual_address s = vma_free_memory_from_ktree virtual_address s"

definition kallocate_dma :: "u64 \<Rightarrow> 'a kmalloc_state_scheme \<Rightarrow> (dma_block \<times> 'a kmalloc_state_scheme) res" where
  "kallocate_dma page_count s =
     bindE (pmm_allocate_frames page_count 0x1000 s) (\<lambda>(physical_address, s1).
       if physical_address = 0 then
         Inr (\<lparr>dma_virtual_addr = 0, dma_physical_addr = physical_address, dma_page_count = page_count\<rparr>, s1)
       else
         bindE (kmap_mmio physical_address (4096 * page_count) MMIO_DEFAULT s1) (\<lambda>(v, s2).
           Inr (\<lparr>dma_virtual_addr = v, dma_physical_addr = physical_address, dma_page_count = page_count\<rparr>, s2)))"

definition kfree_dma :: "dma_block \<Rightarrow> 'a kmalloc_state_scheme \<Rightarrow> 'a kmalloc_state_scheme res" where
  "kfree_dma block s =
     bindE (pmm_free_frames (dma_physical_addr block) (dma_page_count block) s) (\<lambda>s1.
       vma_free_memory_from_ktree (dma_virtual_addr block) s1)"

definition failed_scatter :: dma_scatter_block where
  "failed_scatter = \<lparr>sc_virtual_addr = 0, sc_physical_addrs = 0, sc_page_count = 0\<rparr>"

text \<open>The result tells whether a frame was found for every page.\<close>

function scatter_loop ::
  "u64 \<Rightarrow> u64 \<Rightarrow> u64 \<Rightarrow> u64 \<Rightarrow> 'a kmalloc_state_scheme \<Rightarrow> (bool \<times> 'a kmalloc_state_scheme) res" where
  "scatter_loop page page_count current_v_address physical_addresses s =
     (if page < page_count then
        bindE (pmm_allocate_frames 1 0x1000 s) (\<lambda>(new_frame, s1).
          if new_frame = 0 then
            bindE (kfree physical_addresses s1) (\<lambda>s2. Inr (False, s2))
          else
            bindE (vmm_map current_v_address new_frame 1 (PT_GLOBAL OR PT_WRITEABLE OR PT_DISABLE_CACHING) s1) (\<lambda>(_, s2).
            bindE (touch_page (physical_addresses + 8 * page) s2) (\<lambda>s3.
              scatter_loop (page + 1) page_count (current_v_address + 0x1000) physical_addresses
                (s3\<lparr>kmem := (kmem s3)(physical_addresses + 8 * page := new_frame)\<rparr>))))
      else Inr (True, s))"
  by pat_completeness auto
termination
  by (relation "measure (\<lambda>(page, page_count, v, p, s). unat page_count - unat page)")
     (auto simp: unat_Suc_less word_less_nat_alt)

definition kallocate_scatter_dma ::
  "u64 \<Rightarrow> 'a kmalloc_state_scheme \<Rightarrow> (dma_scatter_block \<times> 'a kmalloc_state_scheme) res" where
  "kallocate_scatter_dma page_count s =
     (if page_count = 0 then Inr (failed_scatter, s)
      else
        bindE (kmalloc (8 * page_count) s) (\<lambda>(physical_addresses, s1).
          if physical_addresses = 0 then Inr (failed_scatter, s1)
          else
            bindE (vma_allocate_memory_from_ktree (page_count * 0x1000) VMA_UNMANAGED_MAPPING 0
                     (Some \<lparr>backing_word0 = 0, backing_word1 = 0, backing_tree = VMA_TREE_KMMIO\<rparr>) s1) (\<lambda>(virtual_address, s2).
              if virtual_address = 0 then
                bindE (kfree physical_addresses s2) (\<lambda>s3. Inr (failed_scatter, s3))
              else
                bindE (scatter_loop 0 page_count virtual_address physical_addresses s2) (\<lambda>(ok, s3).
                  if ok then
                    Inr (\<lparr>sc_virtual_addr = virtual_address, sc_physical_addrs = physical_addresses,
                          sc_page_count = page_count\<rparr>, s3)
                  else Inr (failed_scatter, s3)))))"

function free_scatter_loop :: "u64 \<Rightarrow> dma_scatter_block \<Rightarrow> 'a kmalloc_state_scheme \<Rightarrow> 'a kmalloc_state_scheme res" where
  "free_scatter_loop page block s =
     (if page < sc_page_count block then
        bindE (pmm_free_frames (kmem s (sc_physical_addrs block + 8 * page)) 1 s) (\<lambda>s1.
          free_scatter_loop (page + 1) block s1)
      else Inr s)"
  by pat_completeness auto
termination
  by (relation "measure (\<lambda>(page, block, s). unat (sc_page_count block) - unat page)")
     (auto simp: unat_Suc_less word_less_nat_alt)

definition kfree_scatter_dma :: "dma_scatter_block \<Rightarrow> 'a kmalloc_state_scheme \<Rightarrow> 'a kmalloc_state_scheme res" where
  "kfree_scatter_dma block s =
     bindE (vma_free_memory_from_ktree (sc_virtual_addr block) s) (\<lambda>s1.
     bindE (free_scatter_loop 0 block s1) (\<lambda>s2.
       kfree (sc_physical_addrs block) s2))"

declare scatter_loop.simps [simp del] free_scatter_loop.simps [simp del]

end
