(* ===== verification/Vfs.thy ===== *)
theory Vfs
  imports Stdstr Kmalloc
begin

text \<open>
  The virtual file system, \<^verbatim>\<open>kernel/vfs.c\<close>: a cache of nodes in an AVL tree ordered by mount point and
  inode, the operations that check their arguments and pass a request to the driver behind a node,
  path lookup, mounting and unmounting. A driver is a table of functions found at the address that a
  node's \<^verbatim>\<open>operations\<close> field holds; the parameter \<open>drv\<close> of the operations gives the table at an
  address. The buffer of a read or write, a path and a directory entry are values passed in and
  out; no operation keeps a pointer to them.
\<close>

section \<open>Definitions\<close>

datatype vfs_node_type_t = VFS_NODE_FILE | VFS_NODE_DIRECTORY | VFS_NODE_MOUNTPOINT

record vfs_node_t = avl_node +
  vn_name :: "u8 list"
  inode :: u32
  vn_type :: vfs_node_type_t
  ref_count :: u32
  mountpoint :: u64
  mount_ptr :: u64
  operations :: u64

type_synonym vfs_more = "unit vfs_node_t_ext"

type_synonym vfs_heap = "u64 \<Rightarrow> vfs_node_t option"

record vfs_dirent_t =
  de_name :: "u8 list"
  de_inode :: u64
  de_type :: vfs_node_type_t
  de_size :: u64

record vfs_node_data_t =
  nd_inode :: u32
  nd_type :: vfs_node_type_t
  nd_operations :: u64

record 's vfs_ops_t =
  op_read :: "(u64 \<Rightarrow> u64 \<Rightarrow> u64 \<Rightarrow> u8 list \<Rightarrow> 's \<Rightarrow> (int \<times> u8 list \<times> 's) res) option"
  op_write :: "(u64 \<Rightarrow> u64 \<Rightarrow> u64 \<Rightarrow> u8 list \<Rightarrow> 's \<Rightarrow> (int \<times> 's) res) option"
  op_close :: "(u64 \<Rightarrow> 's \<Rightarrow> (int \<times> 's) res) option"
  op_open :: "(u64 \<Rightarrow> 's \<Rightarrow> (int \<times> 's) res) option"
  op_finddir :: "(u64 \<Rightarrow> u8 list \<Rightarrow> u64 \<Rightarrow> 's \<Rightarrow> (vfs_node_data_t \<times> 's) res) option"
  op_readdir :: "(u64 \<Rightarrow> u32 \<Rightarrow> vfs_dirent_t \<Rightarrow> 's \<Rightarrow> (int \<times> vfs_dirent_t \<times> 's) res) option"
  op_create :: "(u64 \<Rightarrow> u8 list \<Rightarrow> vfs_node_type_t \<Rightarrow> 's \<Rightarrow> (int \<times> 's) res) option"
  op_ioctl :: "(u64 \<Rightarrow> u32 \<Rightarrow> u64 \<Rightarrow> 's \<Rightarrow> (int \<times> 's) res) option"

type_synonym 's drivers = "u64 \<Rightarrow> 's vfs_ops_t option"

record vfs_state = kmalloc_state +
  vfs_tree :: avl_tree
  vfs_root_node :: u64
  vfs_nodes :: vfs_heap

text \<open>\<^verbatim>\<open>sizeof(vfs_node_t)\<close>, and the address of the automatic variable \<^verbatim>\<open>key_node\<close>.\<close>

definition VFS_NODE_BYTES :: u64 where "VFS_NODE_BYTES = 208"

definition KEY_NODE :: u64 where "KEY_NODE = 0xFFFFFFFF7FFFFE00"

definition zero_vfs_node :: vfs_node_t where
  "zero_vfs_node = \<lparr>parent = 0, left = 0, right = 0, subtree_max_depth = 0, update = 0,
     vn_name = replicate 128 0, inode = 0, vn_type = VFS_NODE_FILE, ref_count = 0,
     mountpoint = 0, mount_ptr = 0, operations = 0\<rparr>"

text \<open>
  Nodes are blocks of the kernel heap. The heap does not clear a block: a new node shows what was
  there before, and its first word, \<^verbatim>\<open>avl.parent\<close>, is the link to the next free block. Releasing a node
  writes that link, and the nodes of a page that the heap gives back are gone.
\<close>

definition alloc_vfs_node :: "'a vfs_state_scheme \<Rightarrow> (u64 \<times> 'a vfs_state_scheme) res" where
  "alloc_vfs_node s =
     bindE (kmalloc VFS_NODE_BYTES s) (\<lambda>(p, s1).
       if p = 0 then Inr (0, s1)
       else
         let old = (case vfs_nodes s1 p of Some n \<Rightarrow> n | None \<Rightarrow> zero_vfs_node)
         in Inr (p, s1\<lparr>vfs_nodes := (vfs_nodes s1)(p \<mapsto> old\<lparr>parent := kmem s1 p\<rparr>)\<rparr>))"

definition kfree_vfs_node :: "u64 \<Rightarrow> 'a vfs_state_scheme \<Rightarrow> 'a vfs_state_scheme res" where
  "kfree_vfs_node p s =
     bindE (kfree p s) (\<lambda>s1.
       let page = p AND NOT 0xFFF;
           gone = (page_descs s1 page = None)
       in Inr (s1\<lparr>vfs_nodes := (\<lambda>a.
            if gone \<and> a AND NOT 0xFFF = page then None
            else if a = p then map_option (\<lambda>n. n\<lparr>parent := kmem s1 p\<rparr>) (vfs_nodes s1 p)
            else vfs_nodes s1 a)\<rparr>))"

definition upd_vnode :: "u64 \<Rightarrow> (vfs_node_t \<Rightarrow> vfs_node_t) \<Rightarrow> 'a vfs_state_scheme \<Rightarrow> 'a vfs_state_scheme res" where
  "upd_vnode p f s = bindE (wr (vfs_nodes s) p f) (\<lambda>h. Inr (s\<lparr>vfs_nodes := h\<rparr>))"

text \<open>The driver function that \<^verbatim>\<open>node->operations\<close> offers, if any.\<close>

definition get_op :: "'s drivers \<Rightarrow> ('s vfs_ops_t \<Rightarrow> 'f option) \<Rightarrow> vfs_node_t \<Rightarrow> 'f option res" where
  "get_op drv sel n =
     (if operations n = 0 then Inr None
      else case drv (operations n) of None \<Rightarrow> Inl WildDeref | Some ops \<Rightarrow> Inr (sel ops))"

subsection \<open>Requests passed to the driver\<close>

definition vfs_read ::
  "'a vfs_state_scheme drivers \<Rightarrow> u64 \<Rightarrow> u64 \<Rightarrow> u64 \<Rightarrow> u8 list \<Rightarrow> 'a vfs_state_scheme \<Rightarrow>
   (int \<times> u8 list \<times> 'a vfs_state_scheme) res" where
  "vfs_read drv node offset sz buffer s =
     (if node = 0 then Inr (- EINVAL, buffer, s)
      else if sz = 0 then Inr (0, buffer, s)
      else
        bindE (rd (vfs_nodes s) node) (\<lambda>n.
          if vn_type n = VFS_NODE_DIRECTORY then Inr (- EISDIR, buffer, s)
          else
            bindE (get_op drv op_read n) (\<lambda>f.
              case f of None \<Rightarrow> Inr (- EPERM, buffer, s)
              | Some g \<Rightarrow> g node offset sz buffer s)))"

definition vfs_write ::
  "'a vfs_state_scheme drivers \<Rightarrow> u64 \<Rightarrow> u64 \<Rightarrow> u64 \<Rightarrow> u8 list \<Rightarrow> 'a vfs_state_scheme \<Rightarrow>
   (int \<times> 'a vfs_state_scheme) res" where
  "vfs_write drv node offset sz buffer s =
     (if node = 0 then Inr (- EINVAL, s)
      else if sz = 0 then Inr (0, s)
      else
        bindE (rd (vfs_nodes s) node) (\<lambda>n.
          if vn_type n = VFS_NODE_DIRECTORY then Inr (- EISDIR, s)
          else
            bindE (get_op drv op_write n) (\<lambda>f.
              case f of None \<Rightarrow> Inr (- EPERM, s)
              | Some g \<Rightarrow> g node offset sz buffer s)))"

text \<open>\<^verbatim>\<open>node->ref_count += d; node->mountpoint->ref_count += d\<close> in the order of the code.\<close>

definition add_refs :: "u32 \<Rightarrow> u64 \<Rightarrow> 'a vfs_state_scheme \<Rightarrow> 'a vfs_state_scheme res" where
  "add_refs d node s =
     bindE (upd_vnode node (\<lambda>n. n\<lparr>ref_count := ref_count n + d\<rparr>) s) (\<lambda>s1.
     bindE (rd (vfs_nodes s1) node) (\<lambda>n.
       upd_vnode (mountpoint n) (\<lambda>m. m\<lparr>ref_count := ref_count m + d\<rparr>) s1))"

text \<open>\<^verbatim>\<open>vfs_close\<close> has no return statement for a node that is still referenced: \<open>None\<close>.\<close>

definition vfs_close ::
  "'a vfs_state_scheme drivers \<Rightarrow> u64 \<Rightarrow> 'a vfs_state_scheme \<Rightarrow> (int option \<times> 'a vfs_state_scheme) res" where
  "vfs_close drv node s =
     (if node = 0 then Inr (Some (- EINVAL), s)
      else
        bindE (add_refs (- 1) node s) (\<lambda>s1.
        bindE (rd (vfs_nodes s1) node) (\<lambda>n.
          if ref_count n = 0 then
            bindE (get_op drv op_close n) (\<lambda>f.
            bindE (case f of None \<Rightarrow> Inr (0, s1) | Some g \<Rightarrow> g node s1) (\<lambda>(driver_status, s2).
            bindE (kfree_vfs_node node s2) (\<lambda>s3.
              Inr (Some driver_status, s3))))
          else Inr (None, s1))))"

definition vfs_open ::
  "'a vfs_state_scheme drivers \<Rightarrow> u64 \<Rightarrow> 'a vfs_state_scheme \<Rightarrow> (int \<times> 'a vfs_state_scheme) res" where
  "vfs_open drv node s =
     (if node = 0 then Inr (- EINVAL, s)
      else
        bindE (add_refs 1 node s) (\<lambda>s1.
        bindE (rd (vfs_nodes s1) node) (\<lambda>n.
        bindE (get_op drv op_open n) (\<lambda>f.
          case f of None \<Rightarrow> Inr (0, s1)
          | Some g \<Rightarrow>
              bindE (g node s1) (\<lambda>(driver_status, s2).
                if driver_status \<noteq> 0 then
                  bindE (add_refs (- 1) node s2) (\<lambda>s3. Inr (driver_status, s3))
                else Inr (driver_status, s2))))))"

text \<open>A request on a mount point goes to the node that its \<^verbatim>\<open>mountpoint\<close> field names.\<close>

definition through_mountpoint :: "u64 \<Rightarrow> 'a vfs_state_scheme \<Rightarrow> u64 res" where
  "through_mountpoint node s =
     bindE (rd (vfs_nodes s) node) (\<lambda>n.
       Inr (if vn_type n = VFS_NODE_MOUNTPOINT \<and> mountpoint n \<noteq> 0 then mountpoint n else node))"

definition vfs_compare :: "vfs_heap \<Rightarrow> u64 \<Rightarrow> u64 \<Rightarrow> int res" where
  "vfs_compare h node_a node_b =
     bindE (rd h node_a) (\<lambda>a. bindE (rd h node_b) (\<lambda>b.
       if mountpoint a > mountpoint b then Inr 1
       else if mountpoint a < mountpoint b then Inr (-1)
       else if inode a > inode b then Inr 1
       else if inode a < inode b then Inr (-1)
       else Inr 0))"

text \<open>No node of this tree is given an update callback, so calling one is a jump to a wild address.\<close>

definition vfs_callbacks :: "u64 \<Rightarrow> vfs_heap \<Rightarrow> u64 \<Rightarrow> vfs_heap res" where
  "vfs_callbacks f h node = Inl WildDeref"

definition find_cached :: "u64 \<Rightarrow> u32 \<Rightarrow> 'a vfs_state_scheme \<Rightarrow> u64 res" where
  "find_cached mp ino s =
     avl_get_node vfs_compare (vfs_tree s)
       ((vfs_nodes s)(KEY_NODE \<mapsto> zero_vfs_node\<lparr>mountpoint := mp, inode := ino\<rparr>)) KEY_NODE"

definition create_cached ::
  "u64 \<Rightarrow> u8 list \<Rightarrow> u64 \<Rightarrow> vfs_node_data_t \<Rightarrow> 'a vfs_state_scheme \<Rightarrow> (u64 \<times> 'a vfs_state_scheme) res" where
  "create_cached node name len node_data s =
     bindE (alloc_vfs_node s) (\<lambda>(new_node, s1).
     bindE (upd_vnode new_node (\<lambda>n. n\<lparr>inode := nd_inode node_data\<rparr>) s1) (\<lambda>s2.
     bindE (rd (vfs_nodes s2) new_node) (\<lambda>n.
     bindE (str_ncpy name (vn_name n) len) (\<lambda>(_, copied_name).
     bindE (rd (vfs_nodes s2) node) (\<lambda>d.
     bindE (upd_vnode new_node (\<lambda>n. n\<lparr>vn_name := copied_name, operations := nd_operations node_data, mount_ptr := 0,
                                       mountpoint := mountpoint d, vn_type := nd_type node_data\<rparr>) s2) (\<lambda>s3.
     bindE (avl_insert vfs_callbacks vfs_compare (vfs_tree s3) (vfs_nodes s3) new_node) (\<lambda>(T, h).
       Inr (new_node, s3\<lparr>vfs_tree := T, vfs_nodes := h\<rparr>))))))))"

definition vfs_finddir ::
  "'a vfs_state_scheme drivers \<Rightarrow> u64 \<Rightarrow> u8 list option \<Rightarrow> u64 \<Rightarrow> 'a vfs_state_scheme \<Rightarrow>
   (u64 \<times> 'a vfs_state_scheme) res" where
  "vfs_finddir drv node0 name len s =
     (if node0 = 0 then Inr (0, s)
      else case name of None \<Rightarrow> Inr (0, s) | Some nm \<Rightarrow>
        if len = 0 then Inr (0, s)
        else
          bindE (through_mountpoint node0 s) (\<lambda>node.
          bindE (rd (vfs_nodes s) node) (\<lambda>n.
            if vn_type n \<noteq> VFS_NODE_DIRECTORY then Inr (0, s)
            else
              bindE (get_op drv op_finddir n) (\<lambda>f.
                case f of None \<Rightarrow> Inr (0, s)
                | Some g \<Rightarrow>
                    bindE (g node nm len s) (\<lambda>(node_data, s1).
                      if nd_operations node_data = 0 then Inr (0, s1)
                      else
                        bindE (rd (vfs_nodes s1) node) (\<lambda>d.
                        bindE (find_cached (mountpoint d) (nd_inode node_data) s1) (\<lambda>found_node.
                          if found_node = 0 then create_cached node nm len node_data s1
                          else Inr (found_node, s1))))))))"

definition vfs_readdir ::
  "'a vfs_state_scheme drivers \<Rightarrow> u64 \<Rightarrow> u32 \<Rightarrow> vfs_dirent_t option \<Rightarrow> 'a vfs_state_scheme \<Rightarrow>
   (int \<times> vfs_dirent_t option \<times> 'a vfs_state_scheme) res" where
  "vfs_readdir drv node0 index dirent s =
     (if node0 = 0 then Inr (0, dirent, s)
      else case dirent of None \<Rightarrow> Inr (0, dirent, s) | Some de \<Rightarrow>
        bindE (through_mountpoint node0 s) (\<lambda>node.
        bindE (rd (vfs_nodes s) node) (\<lambda>n.
          if vn_type n \<noteq> VFS_NODE_DIRECTORY then Inr (0, dirent, s)
          else
            bindE (get_op drv op_readdir n) (\<lambda>f.
              case f of None \<Rightarrow> Inr (0, dirent, s)
              | Some g \<Rightarrow> bindE (g node index de s) (\<lambda>(r, de', s1). Inr (r, Some de', s1))))))"

definition vfs_create ::
  "'a vfs_state_scheme drivers \<Rightarrow> u64 \<Rightarrow> u8 list option \<Rightarrow> vfs_node_type_t \<Rightarrow> 'a vfs_state_scheme \<Rightarrow>
   (int \<times> 'a vfs_state_scheme) res" where
  "vfs_create drv par name type s =
     (if par = 0 then Inr (- EINVAL, s)
      else case name of None \<Rightarrow> Inr (- EINVAL, s) | Some nm \<Rightarrow>
        bindE (rd (vfs_nodes s) par) (\<lambda>n.
          if vn_type n \<noteq> VFS_NODE_DIRECTORY then Inr (0, s)
          else
            bindE (get_op drv op_create n) (\<lambda>f.
              case f of None \<Rightarrow> Inr (0, s) | Some g \<Rightarrow> g par nm type s)))"

definition vfs_ioctl ::
  "'a vfs_state_scheme drivers \<Rightarrow> u64 \<Rightarrow> u32 \<Rightarrow> u64 \<Rightarrow> 'a vfs_state_scheme \<Rightarrow> (int \<times> 'a vfs_state_scheme) res" where
  "vfs_ioctl drv node command_id args s =
     (if node = 0 then Inr (- EINVAL, s)
      else
        bindE (rd (vfs_nodes s) node) (\<lambda>n.
          if vn_type n = VFS_NODE_DIRECTORY then Inr (- ENOTTY, s)
          else
            bindE (get_op drv op_ioctl n) (\<lambda>f.
              case f of None \<Rightarrow> Inr (- ENOTTY, s) | Some g \<Rightarrow> g node command_id args s)))"

subsection \<open>Paths\<close>

definition SLASH :: u8 where "SLASH = 0x2F"

text \<open>
  The indices into the path are 32-bit; a scan that took more than 2 to the power 32 steps would be
  back where it started.
\<close>

definition PATH_FUEL :: nat where "PATH_FUEL = 2 ^ 32 + 1"

fun scan_name :: "nat \<Rightarrow> u8 list \<Rightarrow> u32 \<Rightarrow> u32 res" where
  "scan_name 0 path right_ptr = Inl OutOfFuel"
| "scan_name (Suc fuel) path right_ptr =
     bindE (arr_get path (ucast right_ptr)) (\<lambda>c.
       if c \<noteq> SLASH \<and> c \<noteq> 0 then scan_name fuel path (right_ptr + 1) else Inr right_ptr)"

fun lookup_loop ::
  "nat \<Rightarrow> 'a vfs_state_scheme drivers \<Rightarrow> u8 list \<Rightarrow> u32 \<Rightarrow> u32 \<Rightarrow> u64 \<Rightarrow> 'a vfs_state_scheme \<Rightarrow>
   (u64 \<times> 'a vfs_state_scheme) res" where
  "lookup_loop 0 drv path left_ptr right_ptr0 current_node s = Inl OutOfFuel"
| "lookup_loop (Suc fuel) drv path left_ptr right_ptr0 current_node s =
     bindE (scan_name PATH_FUEL path right_ptr0) (\<lambda>right_ptr.
     bindE
       (if left_ptr - right_ptr > 1 then
          bindE (vfs_finddir drv current_node (Some (drop (unat left_ptr) path)) (ucast (right_ptr - left_ptr)) s)
            (\<lambda>(new_node, s1).
          bindE (rd (vfs_nodes s1) current_node) (\<lambda>n.
          bindE (if ref_count n = 0 then kfree_vfs_node current_node s1 else Inr s1) (\<lambda>s2.
            Inr (new_node, s2))))
        else Inr (current_node, s)) (\<lambda>(node, s3).
       if node = 0 then Inr (0, s3)
       else
         bindE (arr_get path (ucast right_ptr)) (\<lambda>c.
           if c = 0 then Inr (node, s3)
           else lookup_loop fuel drv path (right_ptr + 1) (right_ptr + 1) node s3)))"

definition vfs_lookup ::
  "'a vfs_state_scheme drivers \<Rightarrow> u8 list option \<Rightarrow> 'a vfs_state_scheme \<Rightarrow> (u64 \<times> 'a vfs_state_scheme) res" where
  "vfs_lookup drv path s =
     (case path of None \<Rightarrow> Inr (0, s) | Some p \<Rightarrow>
        bindE (str_len p) (\<lambda>path_len.
          if path_len = 0 then Inr (0, s)
          else
            bindE (arr_get p 0) (\<lambda>c.
              if c = SLASH then lookup_loop PATH_FUEL drv p 1 1 (vfs_root_node s) s
              else Inr (0, s))))"

subsection \<open>Mounting\<close>

text \<open>The call of \<^verbatim>\<open>fs_root->operations->open\<close> is not guarded.\<close>

definition call_open ::
  "'a vfs_state_scheme drivers \<Rightarrow> u64 \<Rightarrow> 'a vfs_state_scheme \<Rightarrow> 'a vfs_state_scheme res" where
  "call_open drv node s =
     bindE (rd (vfs_nodes s) node) (\<lambda>n.
     bindE (rd drv (operations n)) (\<lambda>ops.
       case op_open ops of None \<Rightarrow> Inl NullDeref
       | Some g \<Rightarrow> bindE (g node s) (\<lambda>(_, s1). Inr s1)))"

definition vfs_mount ::
  "'a vfs_state_scheme drivers \<Rightarrow> u8 list option \<Rightarrow> u64 \<Rightarrow> 'a vfs_state_scheme \<Rightarrow> (int \<times> 'a vfs_state_scheme) res" where
  "vfs_mount drv mount_path fs_root s =
     (if fs_root = 0 then Inr (- EINVAL, s)
      else case mount_path of None \<Rightarrow> Inr (- EINVAL, s) | Some path \<Rightarrow>
        bindE (vfs_lookup drv (Some path) s) (\<lambda>(mount_stub, s1).
        bindE (rd (vfs_nodes s1) mount_stub) (\<lambda>n.
          if vn_type n \<noteq> VFS_NODE_DIRECTORY then Inr (- ENOTDIR, s1)
          else
            bindE (upd_vnode mount_stub (\<lambda>k. k\<lparr>vn_type := VFS_NODE_MOUNTPOINT, mount_ptr := fs_root\<rparr>) s1) (\<lambda>s2.
            bindE (upd_vnode fs_root (\<lambda>k. k\<lparr>mount_ptr := mount_stub\<rparr>) s2) (\<lambda>s3.
            bindE (add_refs 1 mount_stub s3) (\<lambda>s4.
            bindE (upd_vnode fs_root (\<lambda>k. k\<lparr>ref_count := ref_count k + 1\<rparr>) s4) (\<lambda>s5.
            bindE (call_open drv fs_root s5) (\<lambda>s6.
              Inr (0, s6)))))))))"

text \<open>The result is that of \<^verbatim>\<open>vfs_close\<close>, which may be indeterminate.\<close>

definition vfs_unmount ::
  "'a vfs_state_scheme drivers \<Rightarrow> u8 list option \<Rightarrow> 'a vfs_state_scheme \<Rightarrow> (int option \<times> 'a vfs_state_scheme) res" where
  "vfs_unmount drv path s =
     (case path of None \<Rightarrow> Inr (Some (- EINVAL), s) | Some p \<Rightarrow>
        bindE (vfs_lookup drv (Some p) s) (\<lambda>(fs_root, s1).
          if fs_root = 0 then Inr (Some (- ENOENT), s1)
          else
            bindE (rd (vfs_nodes s1) fs_root) (\<lambda>r.
            let mount_stub = mount_ptr r in
            bindE (if mount_stub = 0 then Inr True
                   else bindE (rd (vfs_nodes s1) mount_stub) (\<lambda>m. Inr (vn_type m \<noteq> VFS_NODE_MOUNTPOINT))) (\<lambda>invalid.
              if invalid then Inr (Some (- EINVAL), s1)
              else if ref_count r > 1 then Inr (Some (- EBUSY), s1)
              else
                bindE (add_refs (- 1) mount_stub s1) (\<lambda>s2.
                bindE (kfree_vfs_node mount_stub s2) (\<lambda>s3.
                  vfs_close drv fs_root s3))))))"

definition vfs_init :: "u64 \<Rightarrow> 'a vfs_state_scheme \<Rightarrow> 'a vfs_state_scheme res" where
  "vfs_init root_node s =
     upd_vnode root_node (\<lambda>n. n\<lparr>ref_count := ref_count n + 1\<rparr>) (s\<lparr>vfs_root_node := root_node\<rparr>)"

end
