(* ===== verification/Console.thy ===== *)
theory Console
  imports Stdstr
begin

text \<open>
  Port input and output, the serial console, formatted output, log messages and the time-stamp
  counter (\<^verbatim>\<open>drivers/io.h\<close>, \<^verbatim>\<open>drivers/serial.c\<close>, \<^verbatim>\<open>common/printf.c\<close>, \<^verbatim>\<open>common/logging.c\<close>, \<^verbatim>\<open>kernel/time.c\<close>). What the
  devices do on an access is not part of the program: the record \<open>machine\<close> gives, for hardware
  states of any type, the effect of every instruction that the inline functions of \<^verbatim>\<open>io.h\<close> execute.
  A loop that polls a device takes the number of polls it may do.
\<close>

section \<open>Definitions\<close>

record 'h machine =
  inb :: "u16 \<Rightarrow> 'h \<Rightarrow> u8 \<times> 'h"
  inw :: "u16 \<Rightarrow> 'h \<Rightarrow> u16 \<times> 'h"
  inl :: "u16 \<Rightarrow> 'h \<Rightarrow> u32 \<times> 'h"
  outb :: "u16 \<Rightarrow> u8 \<Rightarrow> 'h \<Rightarrow> 'h"
  outw :: "u16 \<Rightarrow> u16 \<Rightarrow> 'h \<Rightarrow> 'h"
  outl :: "u16 \<Rightarrow> u32 \<Rightarrow> 'h \<Rightarrow> 'h"
  tsc_halves :: "'h \<Rightarrow> u32 \<times> u32 \<times> 'h"

text \<open>The instruction leaves the low half in one register and the high half in another.\<close>

definition rdtsc :: "'h machine \<Rightarrow> 'h \<Rightarrow> u64 \<times> 'h" where
  "rdtsc m h = (case tsc_halves m h of (low, high, h') \<Rightarrow> (push_bit 32 (ucast high) OR ucast low, h'))"

subsection \<open>Serial port\<close>

definition COM1 :: u16 where "COM1 = 0x3F8"

definition serial_init :: "'h machine \<Rightarrow> 'h \<Rightarrow> 'h" where
  "serial_init m h =
     outb m (COM1 + 2) 0xC7
    (outb m (COM1 + 3) 0x03
    (outb m (COM1 + 1) 0x00
    (outb m (COM1 + 0) 0x03
    (outb m (COM1 + 3) 0x80
    (outb m (COM1 + 1) 0x00 h)))))"

fun wait_transmit :: "nat \<Rightarrow> 'h machine \<Rightarrow> 'h \<Rightarrow> 'h res" where
  "wait_transmit 0 m h = Inl OutOfFuel"
| "wait_transmit (Suc polls) m h =
     (case inb m (COM1 + 5) h of (status, h1) \<Rightarrow>
        if status AND 0x20 = 0 then wait_transmit polls m h1 else Inr h1)"

definition serial_putc :: "nat \<Rightarrow> 'h machine \<Rightarrow> u8 \<Rightarrow> 'h \<Rightarrow> 'h res" where
  "serial_putc polls m c h = bindE (wait_transmit polls m h) (\<lambda>h1. Inr (outb m COM1 c h1))"

fun serial_puts :: "nat \<Rightarrow> 'h machine \<Rightarrow> u8 list \<Rightarrow> 'h \<Rightarrow> 'h res" where
  "serial_puts polls m [] h = Inl OutOfBounds"
| "serial_puts polls m (c # cs) h =
     (if c \<noteq> 0 then bindE (serial_putc polls m c h) (\<lambda>h1. serial_puts polls m cs h1) else Inr h)"

subsection \<open>Formatted output\<close>

text \<open>
  A variadic argument is a 64-bit slot or a pointer to a string. Reading one with the wrong type and
  reading one that was not passed are faults.
\<close>

datatype va_arg = ArgWord u64 | ArgStr "u8 list option"

definition va_u64 :: "va_arg list \<Rightarrow> (u64 \<times> va_arg list) res" where
  "va_u64 args = (case args of [] \<Rightarrow> Inl OutOfBounds | a # as \<Rightarrow>
     (case a of ArgWord w \<Rightarrow> Inr (w, as) | ArgStr _ \<Rightarrow> Inl WildDeref))"

definition va_str :: "va_arg list \<Rightarrow> (u8 list option \<times> va_arg list) res" where
  "va_str args = (case args of [] \<Rightarrow> Inl OutOfBounds | a # as \<Rightarrow>
     (case a of ArgStr s \<Rightarrow> Inr (s, as) | ArgWord _ \<Rightarrow> Inl WildDeref))"

text \<open>\<^verbatim>\<open>va_arg(args, uint64_t)\<close> or \<^verbatim>\<open>va_arg(args, unsigned int)\<close>.\<close>

definition va_number :: "bool \<Rightarrow> va_arg list \<Rightarrow> (u64 \<times> va_arg list) res" where
  "va_number is_long args =
     bindE (va_u64 args) (\<lambda>(w, as). Inr (if is_long then w else ucast (ucast w :: u32), as))"

definition put_buffer :: "nat \<Rightarrow> 'h machine \<Rightarrow> u8 list option \<Rightarrow> 'h \<Rightarrow> (u8 list \<times> 'h) res" where
  "put_buffer polls m b h =
     (case b of None \<Rightarrow> Inl NullDeref
      | Some buf \<Rightarrow> bindE (serial_puts polls m buf h) (\<lambda>h1. Inr (buf, h1)))"

text \<open>One conversion: the character after \<^verbatim>\<open>%\<close> or \<^verbatim>\<open>%l\<close>. The static buffer is threaded through.\<close>

definition conversion ::
  "nat \<Rightarrow> 'h machine \<Rightarrow> bool \<Rightarrow> u8 \<Rightarrow> va_arg list \<Rightarrow> u8 list \<Rightarrow> 'h \<Rightarrow> (va_arg list \<times> u8 list \<times> 'h) res" where
  "conversion polls m is_long c args buffer h =
     (if c = 0x63 then
        bindE (va_u64 args) (\<lambda>(w, as).
        bindE (serial_putc polls m (ucast w) h) (\<lambda>h1. Inr (as, buffer, h1)))
      else if c = 0x73 then
        bindE (va_str args) (\<lambda>(s, as).
          case s of None \<Rightarrow> Inr (as, buffer, h)
          | Some str \<Rightarrow> bindE (serial_puts polls m str h) (\<lambda>h1. Inr (as, buffer, h1)))
      else if c = 0x75 then
        bindE (va_number is_long args) (\<lambda>(v, as).
        bindE (ultoa v (Some buffer) 21) (\<lambda>(_, b).
        bindE (put_buffer polls m b h) (\<lambda>(buffer', h1). Inr (as, buffer', h1))))
      else if c = 0x78 then
        bindE (va_number is_long args) (\<lambda>(v, as).
        bindE (ultox v (Some buffer) 21) (\<lambda>(_, b).
        bindE (put_buffer polls m b h) (\<lambda>(buffer', h1). Inr (as, buffer', h1))))
      else if c = 0x25 then
        bindE (serial_putc polls m 0x25 h) (\<lambda>h1. Inr (args, buffer, h1))
      else
        bindE (serial_putc polls m 0x25 h) (\<lambda>h1.
        bindE (serial_putc polls m c h1) (\<lambda>h2. Inr (args, buffer, h2))))"

fun vkprintf_loop ::
  "nat \<Rightarrow> 'h machine \<Rightarrow> u8 list \<Rightarrow> va_arg list \<Rightarrow> u8 list \<Rightarrow> 'h \<Rightarrow> (u8 list \<times> 'h) res" where
  "vkprintf_loop polls m [] args buffer h = Inl OutOfBounds"
| "vkprintf_loop polls m (p # fmt) args buffer h =
     (if p = 0 then Inr (buffer, h)
      else if p \<noteq> 0x25 then bindE (serial_putc polls m p h) (\<lambda>h1. vkprintf_loop polls m fmt args buffer h1)
      else case fmt of [] \<Rightarrow> Inl OutOfBounds | q # fmt1 \<Rightarrow>
        if q = 0x6C then
          (case fmt1 of [] \<Rightarrow> Inl OutOfBounds | r # fmt2 \<Rightarrow>
            bindE (conversion polls m True r args buffer h) (\<lambda>(as, buffer', h1).
              vkprintf_loop polls m fmt2 as buffer' h1))
        else
          bindE (conversion polls m False q args buffer h) (\<lambda>(as, buffer', h1).
            vkprintf_loop polls m fmt1 as buffer' h1))"

record console_state =
  printf_buffer :: "u8 list"
  subsystem_mask :: u32
  tsc_tick_per_ms :: u64

definition vkprintf ::
  "nat \<Rightarrow> 'h machine \<Rightarrow> u8 list \<Rightarrow> va_arg list \<Rightarrow> 'a console_state_scheme \<Rightarrow> 'h \<Rightarrow>
   (int \<times> 'a console_state_scheme \<times> 'h) res" where
  "vkprintf polls m fmt args k h =
     bindE (vkprintf_loop polls m fmt args (printf_buffer k) h) (\<lambda>(buffer, h1).
       Inr (0, k\<lparr>printf_buffer := buffer\<rparr>, h1))"

definition kprintf ::
  "nat \<Rightarrow> 'h machine \<Rightarrow> u8 list \<Rightarrow> va_arg list \<Rightarrow> 'a console_state_scheme \<Rightarrow> 'h \<Rightarrow>
   (int \<times> 'a console_state_scheme \<times> 'h) res" where
  "kprintf polls m fmt args k h =
     bindE (vkprintf polls m fmt args k h) (\<lambda>(_, k1, h1). Inr (0, k1, h1))"

subsection \<open>Time\<close>

fun wait_pit :: "nat \<Rightarrow> 'h machine \<Rightarrow> 'h \<Rightarrow> 'h res" where
  "wait_pit 0 m h = Inl OutOfFuel"
| "wait_pit (Suc polls) m h =
     (case inb m 0x61 h of (v, h1) \<Rightarrow> if v AND 0x20 = 0 then wait_pit polls m h1 else Inr h1)"

definition tsc_timer_init ::
  "nat \<Rightarrow> 'h machine \<Rightarrow> 'a console_state_scheme \<Rightarrow> 'h \<Rightarrow> ('a console_state_scheme \<times> 'h) res" where
  "tsc_timer_init polls m k h =
     (let h1 = outb m 0x43 0xB0 h;
          pit_count = 11931 :: u16;
          h2 = outb m 0x42 (ucast (pit_count AND 0xFF)) h1;
          h3 = outb m 0x42 (ucast (drop_bit 8 pit_count AND 0xFF)) h2
      in case inb m 0x61 h3 of (gate, h4) \<Rightarrow>
         let h5 = outb m 0x61 ((gate AND NOT 0x2) OR 0x1) h4
         in case rdtsc m h5 of (start_tsc, h6) \<Rightarrow>
            bindE (wait_pit polls m h6) (\<lambda>h7.
              case rdtsc m h7 of (end_tsc, h8) \<Rightarrow>
                Inr (k\<lparr>tsc_tick_per_ms := (end_tsc - start_tsc) div 10\<rparr>, h8)))"

definition tsc_timer_get_ms :: "'h machine \<Rightarrow> 'a console_state_scheme \<Rightarrow> 'h \<Rightarrow> (u64 \<times> 'h) res" where
  "tsc_timer_get_ms m k h =
     (case rdtsc m h of (tsc, h1) \<Rightarrow>
        if tsc_tick_per_ms k = 0 then Inl DivByZero else Inr (tsc div tsc_tick_per_ms k, h1))"

fun sleep_loop :: "nat \<Rightarrow> 'h machine \<Rightarrow> u64 \<Rightarrow> u64 \<Rightarrow> 'h \<Rightarrow> 'h res" where
  "sleep_loop 0 m start_tsc goal_tsc h = Inl OutOfFuel"
| "sleep_loop (Suc polls) m start_tsc goal_tsc h =
     (case rdtsc m h of (now, h1) \<Rightarrow>
        if now - start_tsc < goal_tsc then sleep_loop polls m start_tsc goal_tsc h1 else Inr h1)"

definition tsc_sleep_ms :: "nat \<Rightarrow> 'h machine \<Rightarrow> u64 \<Rightarrow> 'a console_state_scheme \<Rightarrow> 'h \<Rightarrow> 'h res" where
  "tsc_sleep_ms polls m ms k h =
     (case rdtsc m h of (start_tsc, h1) \<Rightarrow> sleep_loop polls m start_tsc (ms * tsc_tick_per_ms k) h1)"

subsection \<open>Log messages\<close>

datatype log_level_t = LOG_INFO | LOG_WARN | LOG_ERROR | LOG_DEBUG

text \<open>A value of \<^verbatim>\<open>log_subsystem_t\<close> is a 32-bit mask.\<close>

definition LOG_SYS_STORAGE :: u32 where "LOG_SYS_STORAGE = push_bit 3 1"
definition LOG_SYS_VFS :: u32 where "LOG_SYS_VFS = push_bit 8 1"

definition log_enable_subsystem_debug :: "u32 \<Rightarrow> 'a console_state_scheme \<Rightarrow> 'a console_state_scheme" where
  "log_enable_subsystem_debug subsystem_bit k = k\<lparr>subsystem_mask := subsystem_mask k OR subsystem_bit\<rparr>"

definition log_disable_subsystem_debug :: "u32 \<Rightarrow> 'a console_state_scheme \<Rightarrow> 'a console_state_scheme" where
  "log_disable_subsystem_debug subsystem_bit k = k\<lparr>subsystem_mask := subsystem_mask k AND NOT subsystem_bit\<rparr>"

definition log_is_subsystem_debug_enabled :: "u32 \<Rightarrow> 'a console_state_scheme \<Rightarrow> u8" where
  "log_is_subsystem_debug_enabled subsystem_bit k = ucast (subsystem_mask k AND subsystem_bit)"

definition c_string :: "string \<Rightarrow> u8 list" where
  "c_string str = map of_char str @ [0]"

definition log_level_txt :: "log_level_t \<Rightarrow> u8 list" where
  "log_level_txt log_level =
     c_string (case log_level of LOG_INFO \<Rightarrow> ''INFO'' | LOG_WARN \<Rightarrow> ''WARN'' | LOG_ERROR \<Rightarrow> ''ERROR'' | LOG_DEBUG \<Rightarrow> ''DEBUG'')"

definition log_message ::
  "nat \<Rightarrow> 'h machine \<Rightarrow> log_level_t \<Rightarrow> u32 \<Rightarrow> u8 list \<Rightarrow> u8 list \<Rightarrow> va_arg list \<Rightarrow> 'a console_state_scheme \<Rightarrow> 'h \<Rightarrow>
   ('a console_state_scheme \<times> 'h) res" where
  "log_message polls m log_level subsystem component_name fmt args k h =
     (if log_level = LOG_DEBUG \<and> log_is_subsystem_debug_enabled subsystem k = 0 then Inr (k, h)
      else
        bindE (tsc_timer_get_ms m k h) (\<lambda>(millisecond, h1).
        let hour = ucast (millisecond div 3600000) :: u32;
            minutes = ucast ((millisecond mod 3600000) div 60000) :: u8;
            seconds = ucast ((millisecond mod 60000) div 1000) :: u8;
            ms = ucast (millisecond mod 1000) :: u16 in
        bindE (kprintf polls m (c_string ''[%u:%u:%u.%u] [%s-'')
                 [ArgWord (ucast hour), ArgWord (ucast minutes), ArgWord (ucast seconds), ArgWord (ucast ms),
                  ArgStr (Some component_name)] k h1) (\<lambda>(_, k2, h2).
        bindE (kprintf polls m (c_string ''%s] '') [ArgStr (Some (log_level_txt log_level))] k2 h2) (\<lambda>(_, k3, h3).
        bindE (vkprintf polls m fmt args k3 h3) (\<lambda>(_, k4, h4).
          Inr (k4, h4))))))"

end
