(* ===== verification/Ramfs.thy ===== *)
theory Ramfs
  imports Vfs Console
begin

text \<open>
  The read-only file system in memory, \<^verbatim>\<open>drivers/fs/ramfs.c\<close>: one file, two directories and two
  directory entries in static arrays, with the file's contents and the arrays of entry pointers in
  the kernel heap, and the two operation tables that the virtual file system calls.
\<close>

section \<open>Definitions\<close>

record ramfs_dirent_t =
  rd_name :: "u8 list"
  rd_type :: u8
  rd_index :: u16

record ramfs_file_t =
  data_ptr :: u64
  file_size :: u64

record ramfs_dir_t =
  dircont :: u64
  contcount :: u64

record ramfs_state = vfs_state +
  ram_files :: "ramfs_file_t list"
  ram_dirs :: "ramfs_dir_t list"
  ram_dirents :: "ramfs_dirent_t list"

definition DIRCUTOFF :: u32 where "DIRCUTOFF = 0x10000"
definition FILETYPE :: u8 where "FILETYPE = 0"
definition DIRTYPE :: u8 where "DIRTYPE = 1"

text \<open>The addresses of the static objects \<^verbatim>\<open>file_ops\<close>, \<^verbatim>\<open>dir_ops\<close> and \<^verbatim>\<open>dirent\<close>, whose elements take 16 bytes.\<close>

definition FILE_OPS :: u64 where "FILE_OPS = 0xFFFFFFFF80010000"
definition DIR_OPS :: u64 where "DIR_OPS = 0xFFFFFFFF80010040"
definition DIRENTS :: u64 where "DIRENTS = 0xFFFFFFFF80010080"

definition dirent_at :: "u64 \<Rightarrow> 'a ramfs_state_scheme \<Rightarrow> ramfs_dirent_t res" where
  "dirent_at p s =
     (if p = 0 then Inl NullDeref
      else if (p - DIRENTS) mod 16 = 0 \<and> unat ((p - DIRENTS) div 16) < length (ram_dirents s)
      then Inr (ram_dirents s ! unat ((p - DIRENTS) div 16))
      else Inl WildDeref)"

definition kmem_byte :: "u64 \<Rightarrow> 'a kmalloc_state_scheme \<Rightarrow> u8" where
  "kmem_byte a s = ucast (drop_bit (8 * unat (a AND 7)) (kmem s (a AND NOT 7)))"

definition kmem_store :: "u64 \<Rightarrow> u64 \<Rightarrow> 'a kmalloc_state_scheme \<Rightarrow> 'a kmalloc_state_scheme res" where
  "kmem_store p v s = (if p = 0 then Inl NullDeref else Inr (s\<lparr>kmem := (kmem s)(p := v)\<rparr>))"

definition ramfs_init :: "'a ramfs_state_scheme \<Rightarrow> 'a ramfs_state_scheme res" where
  "ramfs_init s =
     (let s0 = s\<lparr>ram_dirents := [\<lparr>rd_name = c_string ''subdirtest'', rd_type = DIRTYPE, rd_index = 1\<rparr>,
                              \<lparr>rd_name = c_string ''test'', rd_type = FILETYPE, rd_index = 0\<rparr>]\<rparr> in
      bindE (kmalloc 8 s0) (\<lambda>(p, s1).
      bindE (kmem_store p 0xABCDEF (s1\<lparr>ram_files := [\<lparr>data_ptr = p, file_size = 8\<rparr>]\<rparr>)) (\<lambda>s2.
      bindE (kmalloc (8 * 1) s2) (\<lambda>(d0, s3).
      bindE (kmem_store d0 DIRENTS s3) (\<lambda>s4.
      bindE (kmalloc (8 * 1) s4) (\<lambda>(d1, s5).
      bindE (kmem_store d1 (DIRENTS + 16) s5) (\<lambda>s6.
        Inr (s6\<lparr>ram_dirs := [\<lparr>dircont = d0, contcount = 1\<rparr>, \<lparr>dircont = d1, contcount = 1\<rparr>]\<rparr>))))))))"

definition ramfs_get_fs :: "'a ramfs_state_scheme \<Rightarrow> (u64 \<times> 'a ramfs_state_scheme) res" where
  "ramfs_get_fs s =
     bindE (alloc_vfs_node s) (\<lambda>(new_node, s1).
     bindE (upd_vnode new_node (\<lambda>n. n\<lparr>inode := DIRCUTOFF\<rparr>) s1) (\<lambda>s2.
     bindE (rd (vfs_nodes s2) new_node) (\<lambda>n.
     bindE (str_ncpy (c_string ''ramfs_root'') (vn_name n) 10) (\<lambda>(_, copied_name).
     bindE (upd_vnode new_node (\<lambda>n. n\<lparr>vn_name := copied_name, operations := DIR_OPS, mount_ptr := 0,
                                       mountpoint := new_node, vn_type := VFS_NODE_DIRECTORY\<rparr>) s2) (\<lambda>s3.
       Inr (new_node, s3))))))"

function ramfs_copy :: "u64 \<Rightarrow> u64 \<Rightarrow> u64 \<Rightarrow> u8 list \<Rightarrow> 'a kmalloc_state_scheme \<Rightarrow> u8 list res" where
  "ramfs_copy counter sz next_bs buffer s =
     (if counter < sz then
        bindE (arr_set buffer counter (kmem_byte next_bs s)) (\<lambda>buffer'.
          ramfs_copy (counter + 1) sz (next_bs + 1) buffer' s)
      else Inr buffer)"
  by pat_completeness auto
termination
  by (relation "measure (\<lambda>(counter, sz, p, buffer, s). unat sz - unat counter)")
     (auto simp: unat_Suc_less word_less_nat_alt)

declare ramfs_copy.simps [simp del]

definition ramfs_read ::
  "u64 \<Rightarrow> u64 \<Rightarrow> u64 \<Rightarrow> u8 list \<Rightarrow> 'a ramfs_state_scheme \<Rightarrow> (int \<times> u8 list \<times> 'a ramfs_state_scheme) res" where
  "ramfs_read node offset sz buffer s =
     bindE (rd (vfs_nodes s) node) (\<lambda>n.
     bindE (arr_get (ram_files s) (ucast (inode n))) (\<lambda>file.
       if offset + sz > file_size file then Inr (- 1, buffer, s)
       else
         bindE (ramfs_copy 0 sz (data_ptr file + offset) buffer s) (\<lambda>buffer'.
           Inr (0, buffer', s))))"

fun kfree_all :: "u64 list \<Rightarrow> 'a kmalloc_state_scheme \<Rightarrow> 'a kmalloc_state_scheme res" where
  "kfree_all [] s = Inr s"
| "kfree_all (p # ps) s = bindE (kfree p s) (\<lambda>s1. kfree_all ps s1)"

text \<open>The two arrays have as many elements as the two loops have rounds, and releasing does not change them.\<close>

definition ramfs_close :: "u64 \<Rightarrow> 'a ramfs_state_scheme \<Rightarrow> (int \<times> 'a ramfs_state_scheme) res" where
  "ramfs_close node s =
     bindE (rd (vfs_nodes s) node) (\<lambda>n.
       if inode n \<noteq> DIRCUTOFF then Inr (0, s)
       else
         bindE (kfree_all (map data_ptr (ram_files s)) s) (\<lambda>s1.
         bindE (kfree_all (map dircont (ram_dirs s)) s1) (\<lambda>s2.
           Inr (0, s2))))"

fun finddir_loop ::
  "nat \<Rightarrow> u32 \<Rightarrow> ramfs_dir_t \<Rightarrow> u8 list \<Rightarrow> u64 \<Rightarrow> 'a ramfs_state_scheme \<Rightarrow> vfs_node_data_t res" where
  "finddir_loop 0 dir_ent dir name len s = Inl OutOfFuel"
| "finddir_loop (Suc fuel) dir_ent dir name len s =
     (if ucast dir_ent < contcount dir then
        bindE (dirent_at (kmem s (dircont dir + 8 * ucast dir_ent)) s) (\<lambda>e.
        bindE (str_len (rd_name e)) (\<lambda>entry_len.
        bindE (str_ncmp (rd_name e) name entry_len len) (\<lambda>r.
          if r = 0 then
            (if rd_type e = DIRTYPE
             then Inr \<lparr>nd_inode = ucast (rd_index e) + DIRCUTOFF, nd_type = VFS_NODE_DIRECTORY, nd_operations = DIR_OPS\<rparr>
             else Inr \<lparr>nd_inode = ucast (rd_index e), nd_type = VFS_NODE_FILE, nd_operations = FILE_OPS\<rparr>)
          else finddir_loop fuel (dir_ent + 1) dir name len s)))
      else Inr \<lparr>nd_inode = 0, nd_type = VFS_NODE_FILE, nd_operations = 0\<rparr>)"

text \<open>The counter has 32 bits: a loop of more rounds does not end.\<close>

definition ramfs_finddir ::
  "u64 \<Rightarrow> u8 list \<Rightarrow> u64 \<Rightarrow> 'a ramfs_state_scheme \<Rightarrow> (vfs_node_data_t \<times> 'a ramfs_state_scheme) res" where
  "ramfs_finddir node name len s =
     bindE (rd (vfs_nodes s) node) (\<lambda>n.
     bindE (arr_get (ram_dirs s) (ucast (inode n - DIRCUTOFF))) (\<lambda>dir.
     bindE (finddir_loop (2 ^ 32 + 1) 0 dir name len s) (\<lambda>d.
       Inr (d, s))))"

definition ramfs_readdir ::
  "u64 \<Rightarrow> u32 \<Rightarrow> vfs_dirent_t \<Rightarrow> 'a ramfs_state_scheme \<Rightarrow> (int \<times> vfs_dirent_t \<times> 'a ramfs_state_scheme) res" where
  "ramfs_readdir node index de s =
     bindE (rd (vfs_nodes s) node) (\<lambda>n.
     bindE (arr_get (ram_dirs s) (ucast (inode n - DIRCUTOFF))) (\<lambda>dir.
     bindE (dirent_at (kmem s (dircont dir + 8 * ucast index)) s) (\<lambda>e.
     bindE (str_len (rd_name e)) (\<lambda>len.
     bindE (str_ncpy (rd_name e) (de_name de) len) (\<lambda>(_, copied_name).
       if rd_type e = DIRTYPE then
         Inr (0, de\<lparr>de_name := copied_name, de_inode := ucast (ucast (rd_index e) + DIRCUTOFF), de_size := 0,
                    de_type := VFS_NODE_DIRECTORY\<rparr>, s)
       else
         bindE (arr_get (ram_files s) (ucast (rd_index e))) (\<lambda>file.
           Inr (0, de\<lparr>de_name := copied_name, de_inode := ucast (rd_index e), de_size := file_size file,
                      de_type := VFS_NODE_FILE\<rparr>, s)))))))"

definition file_ops :: "'a ramfs_state_scheme vfs_ops_t" where
  "file_ops = \<lparr>op_read = Some ramfs_read, op_write = None, op_close = Some ramfs_close, op_open = None,
     op_finddir = None, op_readdir = None, op_create = None, op_ioctl = None\<rparr>"

definition dir_ops :: "'a ramfs_state_scheme vfs_ops_t" where
  "dir_ops = \<lparr>op_read = None, op_write = None, op_close = Some ramfs_close, op_open = None,
     op_finddir = Some ramfs_finddir, op_readdir = Some ramfs_readdir, op_create = None, op_ioctl = None\<rparr>"

definition ramfs_drivers :: "'a ramfs_state_scheme drivers" where
  "ramfs_drivers = (\<lambda>p. if p = FILE_OPS then Some file_ops else if p = DIR_OPS then Some dir_ops else None)"

end
