(* ===== verification/Lbd.thy ===== *)
theory Lbd
  imports Stdstr Kmalloc
begin

text \<open>
  Logical block devices, \<^verbatim>\<open>drivers/block/lbd.c\<close>: the table of drives and the checks that a read, write or
  flush request passes before it reaches the driver, with a bounce buffer for odd addresses. Drives are
  records at their addresses, a driver is a table of functions at the address in the drive's record
  (parameter \<open>api\<close>), and \<open>buffer_mem\<close> is the memory that transfers read and write. The indeterminate
  source cursor of \<^verbatim>\<open>memcpy\<close> is the parameter \<open>src8\<close>.
\<close>

section \<open>Definitions\<close>

record lbd_device_info_t =
  total_sectors :: u64
  logical_sector_size_bytes :: u32
  physical_sector_size_bytes :: u32
  logical_alignment_offset :: u16
  max_sectors_per_transfer :: u16
  device_flags :: u16

record lbd_logical_drive_t =
  driver_api :: u64
  device_info :: lbd_device_info_t
  driver_data :: u64
  drive_name :: "u8 list"
  drive_no :: u8

record lbd_state = kmalloc_state +
  lbd_drives :: "u64 list"
  next_drive_num :: u8
  drive_heap :: "u64 \<Rightarrow> lbd_logical_drive_t option"
  buffer_mem :: memory

record 's lbd_driver_api_t =
  api_read :: "(u64 \<Rightarrow> u64 \<Rightarrow> u64 \<Rightarrow> u64 \<Rightarrow> 's \<Rightarrow> (int \<times> 's) res) option"
  api_write :: "(u64 \<Rightarrow> u64 \<Rightarrow> u64 \<Rightarrow> u64 \<Rightarrow> 's \<Rightarrow> (int \<times> 's) res) option"
  api_flush :: "(u64 \<Rightarrow> 's \<Rightarrow> (int \<times> 's) res) option"

type_synonym 's lbd_apis = "u64 \<Rightarrow> 's lbd_driver_api_t option"

definition LBD_FLAG_W :: u16 where "LBD_FLAG_W = 0x1"
definition LBD_FLAG_F :: u16 where "LBD_FLAG_F = 0x2"

text \<open>
  The guard \<^verbatim>\<open>next_drive_num >= LOGICAL_DRIVE_ARRAY_SIZE\<close> compares an 8-bit number with 256 and only
  logs, so it has no effect on the state.
\<close>

definition lbd_register_drive :: "u64 \<Rightarrow> 'a lbd_state_scheme \<Rightarrow> 'a lbd_state_scheme res" where
  "lbd_register_drive logical_drive s =
     (let drive_num = next_drive_num s;
          s1 = s\<lparr>next_drive_num := drive_num + 1\<rparr> in
      bindE (wr (drive_heap s1) logical_drive (\<lambda>d. d\<lparr>drive_no := drive_num\<rparr>)) (\<lambda>h.
      bindE (arr_set (lbd_drives s1) (ucast drive_num) logical_drive) (\<lambda>ds.
        Inr (s1\<lparr>drive_heap := h, lbd_drives := ds\<rparr>))))"

text \<open>A call through a field of the driver's table.\<close>

definition call_api :: "'s lbd_apis \<Rightarrow> ('s lbd_driver_api_t \<Rightarrow> 'f option) \<Rightarrow> lbd_logical_drive_t \<Rightarrow> 'f res" where
  "call_api api sel d =
     bindE (rd api (driver_api d)) (\<lambda>t. case sel t of None \<Rightarrow> Inl NullDeref | Some f \<Rightarrow> Inr f)"

definition transfer_bytes :: "u64 \<Rightarrow> lbd_logical_drive_t \<Rightarrow> u64" where
  "transfer_bytes count d = count * ucast (logical_sector_size_bytes (device_info d))"

definition lbd_read ::
  "'a lbd_state_scheme lbd_apis \<Rightarrow> u64 \<Rightarrow> u8 \<Rightarrow> u64 \<Rightarrow> u64 \<Rightarrow> u64 \<Rightarrow> 'a lbd_state_scheme \<Rightarrow>
   (int \<times> 'a lbd_state_scheme) res" where
  "lbd_read api src8 no lba count buffer s =
     bindE (arr_get (lbd_drives s) (ucast no)) (\<lambda>logical_drive.
       if logical_drive = 0 then Inr (- EINVAL, s)
       else
         bindE (rd (drive_heap s) logical_drive) (\<lambda>d.
           if count > ucast (max_sectors_per_transfer (device_info d)) then Inr (- EINVAL, s)
           else if lba + count \<ge> total_sectors (device_info d) then Inr (- EINVAL, s)
           else
             bindE (vmm_pin_pages buffer (transfer_bytes count d) 1 s) (\<lambda>(bad, s1).
               if bad \<noteq> 0 then Inr (- EINVAL, s1)
               else if buffer AND 1 \<noteq> 0 then
                 bindE (kallocate_scatter_dma ((transfer_bytes count d + 0xFFF) div 0x1000) s1) (\<lambda>(scatter_block, s2).
                   if sc_virtual_addr scatter_block = 0 then Inr (- ENOMEM, s2)
                   else
                     bindE (call_api api api_read d) (\<lambda>f.
                     bindE (f logical_drive lba count (sc_virtual_addr scatter_block) s2) (\<lambda>(read_errno, s3).
                       if read_errno \<noteq> 0 then
                         bindE (kfree_scatter_dma scatter_block s3) (\<lambda>s4. Inr (read_errno, s4))
                       else
                         let (_, mem) = memcpy src8 (buffer_mem s3) buffer (sc_virtual_addr scatter_block)
                                          (transfer_bytes count d) in
                         bindE (kfree_scatter_dma scatter_block (s3\<lparr>buffer_mem := mem\<rparr>)) (\<lambda>s4. Inr (0, s4)))))
               else
                 bindE (call_api api api_read d) (\<lambda>f. f logical_drive lba count buffer s1))))"

definition lbd_write ::
  "'a lbd_state_scheme lbd_apis \<Rightarrow> u64 \<Rightarrow> u8 \<Rightarrow> u64 \<Rightarrow> u64 \<Rightarrow> u64 \<Rightarrow> 'a lbd_state_scheme \<Rightarrow>
   (int \<times> 'a lbd_state_scheme) res" where
  "lbd_write api src8 no lba count buffer s =
     bindE (arr_get (lbd_drives s) (ucast no)) (\<lambda>logical_drive.
       if logical_drive = 0 then Inr (- EINVAL, s)
       else
         bindE (rd (drive_heap s) logical_drive) (\<lambda>d.
           if count > ucast (max_sectors_per_transfer (device_info d)) then Inr (- EINVAL, s)
           else if lba + count \<ge> total_sectors (device_info d) then Inr (- EINVAL, s)
           else if device_flags (device_info d) AND LBD_FLAG_W = 0 then Inr (- EPERM, s)
           else
             bindE (vmm_pin_pages buffer (transfer_bytes count d) 0 s) (\<lambda>(bad, s1).
               if bad \<noteq> 0 then Inr (- EINVAL, s1)
               else if buffer AND 1 \<noteq> 0 then
                 bindE (kallocate_scatter_dma ((transfer_bytes count d + 0xFFF) div 0x1000) s1) (\<lambda>(scatter_block, s2).
                   if sc_virtual_addr scatter_block = 0 then Inr (- ENOMEM, s2)
                   else
                     let (_, mem) = memcpy src8 (buffer_mem s2) (sc_virtual_addr scatter_block) buffer
                                      (transfer_bytes count d) in
                     bindE (call_api api api_write d) (\<lambda>f.
                     bindE (f logical_drive lba count (sc_virtual_addr scatter_block) (s2\<lparr>buffer_mem := mem\<rparr>))
                       (\<lambda>(write_errno, s3).
                       if write_errno \<noteq> 0 then
                         bindE (kfree_scatter_dma scatter_block s3) (\<lambda>s4. Inr (write_errno, s4))
                       else
                         bindE (kfree_scatter_dma scatter_block s3) (\<lambda>s4. Inr (0, s4)))))
               else
                 bindE (call_api api api_write d) (\<lambda>f. f logical_drive lba count buffer s1))))"

definition lbd_flush ::
  "'a lbd_state_scheme lbd_apis \<Rightarrow> u8 \<Rightarrow> 'a lbd_state_scheme \<Rightarrow> (int \<times> 'a lbd_state_scheme) res" where
  "lbd_flush api no s =
     bindE (arr_get (lbd_drives s) (ucast no)) (\<lambda>logical_drive.
       if logical_drive = 0 then Inr (- EINVAL, s)
       else
         bindE (rd (drive_heap s) logical_drive) (\<lambda>d.
           if device_flags (device_info d) AND LBD_FLAG_F = 0 then Inr (- EPERM, s)
           else bindE (call_api api api_flush d) (\<lambda>f. f logical_drive s)))"

end
