(* ===== verification/Pci.thy ===== *)
theory Pci
  imports Console
begin

text \<open>
  The PCI bus and the registry of its drivers (\<^verbatim>\<open>buses/pci.c\<close>, \<^verbatim>\<open>kernel/drivers.c\<close>): access to
  configuration space through the two legacy ports, enumeration of the bus into an array of
  devices, and the binding of devices to registered drivers. A driver's \<^verbatim>\<open>init\<close> function is found at the
  address in its record; the parameter \<open>inits\<close> says what calling it does.
\<close>

section \<open>Definitions\<close>

record pci_header_t =
  h_vendor_id :: u16
  h_device_id :: u16
  h_command :: u16
  h_status :: u16
  h_revision_id :: u8
  h_prog_if :: u8
  h_subclass :: u8
  h_class_code :: u8
  h_cache_line_size :: u8
  h_latency_timer :: u8
  h_header_type :: u8
  h_bist :: u8

record pci_device_t =
  bus :: u8
  device :: u8
  function_no :: u8
  vendor_id :: u16
  device_id :: u16
  class_code :: u8
  sub_class :: u8
  prog_if :: u8
  bars :: "u32 list"

text \<open>The tag \<^verbatim>\<open>driver_type\<close> and the union \<^verbatim>\<open>driver_codes\<close>: class, subclass and interface, or device and vendor.\<close>

datatype pci_driver_codes = PCI_CLASS_DRIVER u8 u8 u8 | PCI_SPECIFIC_DEVICE_DRIVER u16 u16

record pci_driver_t =
  driver_name :: "u8 list"
  driver_codes :: pci_driver_codes
  driver_init :: u64

text \<open>A slot's pointer into the driver array is the index of the driver; no driver is \<open>None\<close>.\<close>

record pci_device_slot_t =
  slot_device :: pci_device_t
  slot_driver :: "u64 option"

record pci_driver_registry_t =
  drivers :: "pci_driver_t list"
  driver_count :: u64

datatype pci_api_t = PciApiUnset | PciApiLegacy

record pci_state =
  pci_devices :: "pci_device_slot_t list"
  pci_devices_count :: u64
  pci_api :: pci_api_t
  pci_driver_registry :: pci_driver_registry_t

type_synonym ('a, 'h) pci_inits =
  "u64 \<Rightarrow> u64 \<Rightarrow> 'a pci_state_scheme \<Rightarrow> 'h \<Rightarrow> ('a pci_state_scheme \<times> 'h) res"

definition MAX_PCI_DEVICES :: u64 where "MAX_PCI_DEVICES = 64"
definition MAX_PCI_DRIVERS :: u64 where "MAX_PCI_DRIVERS = 64"
definition PCI_CONFIG_ADDRESS_PORT_NUMBER :: u16 where "PCI_CONFIG_ADDRESS_PORT_NUMBER = 0xCF8"
definition PCI_CONFIG_DATA_PORT_NUMBER :: u16 where "PCI_CONFIG_DATA_PORT_NUMBER = 0xCFC"

definition drivers_pci_register :: "pci_driver_t \<Rightarrow> 'a pci_state_scheme \<Rightarrow> (int \<times> 'a pci_state_scheme) res" where
  "drivers_pci_register driver s =
     (let reg = pci_driver_registry s
      in if driver_count reg \<ge> MAX_PCI_DRIVERS then Inr (- 1, s)
         else
           bindE (arr_set (drivers reg) (driver_count reg) driver) (\<lambda>ds.
             Inr (0, s\<lparr>pci_driver_registry := \<lparr>drivers = ds, driver_count = driver_count reg + 1\<rparr>\<rparr>)))"

subsection \<open>Configuration space\<close>

definition pci_address :: "u8 \<Rightarrow> u8 \<Rightarrow> u8 \<Rightarrow> u16 \<Rightarrow> u32" where
  "pci_address b d f offset =
     0x80000000 OR push_bit 16 (ucast b) OR push_bit 11 (ucast (d AND 0x1F)) OR push_bit 8 (ucast (f AND 0x7))
       OR ucast (offset AND 0xFC)"

definition legacy_pci_read :: "'h machine \<Rightarrow> u8 \<Rightarrow> u8 \<Rightarrow> u8 \<Rightarrow> u16 \<Rightarrow> u8 \<Rightarrow> 'h \<Rightarrow> u32 \<times> 'h" where
  "legacy_pci_read m b d f offset sz h =
     (let h1 = outl m PCI_CONFIG_ADDRESS_PORT_NUMBER (pci_address b d f offset) h
      in if sz = 1 then (case inb m (PCI_CONFIG_DATA_PORT_NUMBER + (offset AND 0x3)) h1 of (v, h2) \<Rightarrow> (ucast v, h2))
         else if sz = 2 then (case inw m (PCI_CONFIG_DATA_PORT_NUMBER + (offset AND 0x2)) h1 of (v, h2) \<Rightarrow> (ucast v, h2))
         else inl m PCI_CONFIG_DATA_PORT_NUMBER h1)"

definition legacy_pci_write :: "'h machine \<Rightarrow> u8 \<Rightarrow> u8 \<Rightarrow> u8 \<Rightarrow> u16 \<Rightarrow> u32 \<Rightarrow> u8 \<Rightarrow> 'h \<Rightarrow> 'h" where
  "legacy_pci_write m b d f offset v sz h =
     (let h1 = outl m PCI_CONFIG_ADDRESS_PORT_NUMBER (pci_address b d f offset) h;
          h2 = (if sz = 1 then outb m (PCI_CONFIG_DATA_PORT_NUMBER + (offset AND 0x3)) (ucast v) h1 else h1);
          h3 = (if sz = 2 then outw m (PCI_CONFIG_DATA_PORT_NUMBER + (offset AND 0x2)) (ucast v) h2 else h2)
      in outl m PCI_CONFIG_DATA_PORT_NUMBER v h3)"

definition pci_init :: "'a pci_state_scheme \<Rightarrow> 'a pci_state_scheme" where
  "pci_init s = s\<lparr>pci_api := PciApiLegacy\<rparr>"

definition pci_api_read :: "'h machine \<Rightarrow> 'a pci_state_scheme \<Rightarrow> u8 \<Rightarrow> u8 \<Rightarrow> u8 \<Rightarrow> u16 \<Rightarrow> u8 \<Rightarrow> 'h \<Rightarrow> (u32 \<times> 'h) res" where
  "pci_api_read m s b d f offset sz h =
     (case pci_api s of PciApiUnset \<Rightarrow> Inl NullDeref | PciApiLegacy \<Rightarrow> Inr (legacy_pci_read m b d f offset sz h))"

definition pci_read_config :: "'h machine \<Rightarrow> 'a pci_state_scheme \<Rightarrow> pci_device_t \<Rightarrow> u16 \<Rightarrow> u8 \<Rightarrow> 'h \<Rightarrow> (u32 \<times> 'h) res" where
  "pci_read_config m s dev offset sz h = pci_api_read m s (bus dev) (device dev) (function_no dev) offset sz h"

definition pci_write_config ::
  "'h machine \<Rightarrow> 'a pci_state_scheme \<Rightarrow> pci_device_t \<Rightarrow> u16 \<Rightarrow> u32 \<Rightarrow> u8 \<Rightarrow> 'h \<Rightarrow> 'h res" where
  "pci_write_config m s dev offset v sz h =
     (case pci_api s of PciApiUnset \<Rightarrow> Inl NullDeref
      | PciApiLegacy \<Rightarrow> Inr (legacy_pci_write m (bus dev) (device dev) (function_no dev) offset v sz h))"

text \<open>Consecutive 32-bit registers, in increasing order.\<close>

fun read_registers ::
  "nat \<Rightarrow> u16 \<Rightarrow> 'h machine \<Rightarrow> 'a pci_state_scheme \<Rightarrow> u8 \<Rightarrow> u8 \<Rightarrow> u8 \<Rightarrow> 'h \<Rightarrow> (u32 list \<times> 'h) res" where
  "read_registers 0 offset m s b d f h = Inr ([], h)"
| "read_registers (Suc n) offset m s b d f h =
     bindE (pci_api_read m s b d f offset 4 h) (\<lambda>(v, h1).
     bindE (read_registers n (offset + 4) m s b d f h1) (\<lambda>(vs, h2).
       Inr (v # vs, h2)))"

text \<open>The packed structure overlaid on four little-endian registers.\<close>

definition byte_at :: "nat \<Rightarrow> u32 \<Rightarrow> u8" where
  "byte_at k r = ucast (drop_bit (8 * k) r)"

definition header_of :: "u32 list \<Rightarrow> pci_header_t" where
  "header_of r = \<lparr>h_vendor_id = ucast (r ! 0), h_device_id = ucast (drop_bit 16 (r ! 0)),
     h_command = ucast (r ! 1), h_status = ucast (drop_bit 16 (r ! 1)),
     h_revision_id = byte_at 0 (r ! 2), h_prog_if = byte_at 1 (r ! 2), h_subclass = byte_at 2 (r ! 2),
     h_class_code = byte_at 3 (r ! 2), h_cache_line_size = byte_at 0 (r ! 3), h_latency_timer = byte_at 1 (r ! 3),
     h_header_type = byte_at 2 (r ! 3), h_bist = byte_at 3 (r ! 3)\<rparr>"

definition pci_get_header ::
  "'h machine \<Rightarrow> 'a pci_state_scheme \<Rightarrow> u8 \<Rightarrow> u8 \<Rightarrow> u8 \<Rightarrow> 'h \<Rightarrow> (pci_header_t \<times> 'h) res" where
  "pci_get_header m s b d f h = bindE (read_registers 4 0 m s b d f h) (\<lambda>(r, h1). Inr (header_of r, h1))"

definition device_of :: "u8 \<Rightarrow> u8 \<Rightarrow> u8 \<Rightarrow> pci_header_t \<Rightarrow> u32 list \<Rightarrow> pci_device_t" where
  "device_of b d f hdr bs = \<lparr>bus = b, device = d, function_no = f, vendor_id = h_vendor_id hdr,
     device_id = h_device_id hdr, class_code = h_class_code hdr, sub_class = h_subclass hdr, prog_if = h_prog_if hdr,
     bars = bs\<rparr>"

subsection \<open>Enumeration\<close>

text \<open>The bus and device numbers in the order of the two outer loops.\<close>

definition bus_slots :: "(u8 \<times> u8) list" where
  "bus_slots = concat (map (\<lambda>b. map (\<lambda>d. (of_nat b, of_nat d)) [0..<32]) [0..<256])"

definition function_numbers :: "u8 list" where "function_numbers = map of_nat [0..<8]"

fun find_in_functions ::
  "'h machine \<Rightarrow> 'a pci_state_scheme \<Rightarrow> u8 \<Rightarrow> u8 \<Rightarrow> u8 \<Rightarrow> u8 \<Rightarrow> u8 list \<Rightarrow> 'h \<Rightarrow> (pci_device_t option \<times> 'h) res" where
  "find_in_functions m s cls sub b d [] h = Inr (None, h)"
| "find_in_functions m s cls sub b d (f # fs) h =
     bindE (pci_get_header m s b d f h) (\<lambda>(hdr, h1).
       if h_vendor_id hdr = 0xFFFF then find_in_functions m s cls sub b d fs h1
       else if h_class_code hdr = cls \<and> h_subclass hdr = sub then
         bindE (read_registers 6 0x10 m s b d f h1) (\<lambda>(bs, h2). Inr (Some (device_of b d f hdr bs), h2))
       else if f = 0 \<and> h_header_type hdr AND 0x80 \<noteq> 0 then Inr (None, h1)
       else find_in_functions m s cls sub b d fs h1)"

fun find_in_slots ::
  "'h machine \<Rightarrow> 'a pci_state_scheme \<Rightarrow> u8 \<Rightarrow> u8 \<Rightarrow> (u8 \<times> u8) list \<Rightarrow> 'h \<Rightarrow> (pci_device_t option \<times> 'h) res" where
  "find_in_slots m s cls sub [] h = Inr (None, h)"
| "find_in_slots m s cls sub ((b, d) # slots) h =
     bindE (find_in_functions m s cls sub b d function_numbers h) (\<lambda>(r, h1).
       case r of Some dev \<Rightarrow> Inr (Some dev, h1) | None \<Rightarrow> find_in_slots m s cls sub slots h1)"

text \<open>The result 1 comes with the structure filled in through the pointer.\<close>

definition pci_find_device ::
  "'h machine \<Rightarrow> 'a pci_state_scheme \<Rightarrow> u8 \<Rightarrow> u8 \<Rightarrow> 'h \<Rightarrow> (int \<times> pci_device_t option \<times> 'h) res" where
  "pci_find_device m s cls sub h =
     bindE (find_in_slots m s cls sub bus_slots h) (\<lambda>(r, h1).
       Inr (if r = None then 0 else 1, r, h1))"

subsection \<open>Binding of drivers\<close>

definition driver_matches :: "pci_driver_t \<Rightarrow> pci_device_t \<Rightarrow> bool" where
  "driver_matches driver dev =
     (case driver_codes driver of
        PCI_SPECIFIC_DEVICE_DRIVER did vid \<Rightarrow> did = device_id dev \<and> vid = vendor_id dev
      | PCI_CLASS_DRIVER c sc pi \<Rightarrow> c = class_code dev \<and> sc = sub_class dev \<and> pi = prog_if dev)"

definition set_slot_driver :: "u64 \<Rightarrow> u64 \<Rightarrow> 'a pci_state_scheme \<Rightarrow> 'a pci_state_scheme res" where
  "set_slot_driver i driver_index s =
     bindE (arr_get (pci_devices s) i) (\<lambda>slot.
     bindE (arr_set (pci_devices s) i (slot\<lparr>slot_driver := Some driver_index\<rparr>)) (\<lambda>ds.
       Inr (s\<lparr>pci_devices := ds\<rparr>)))"

text \<open>
  The loop over the registry for the device at index \<open>i\<close>. The parameter \<open>target\<close> gives the slot that is
  bound and the identity that the codes are compared with: in the enumeration the last slot and the
  header that was read before the loop, later the slot and what it holds. A device that several
  drivers match is bound to each of them in turn.
\<close>

function bind_loop ::
  "('a, 'h) pci_inits \<Rightarrow> ('a pci_state_scheme \<Rightarrow> (u64 \<times> pci_device_t) res) \<Rightarrow> u64 \<Rightarrow> u64 \<Rightarrow> 'a pci_state_scheme \<Rightarrow> 'h \<Rightarrow>
   ('a pci_state_scheme \<times> 'h) res" where
  "bind_loop inits target driver_index i s h =
     (if driver_index < driver_count (pci_driver_registry s) then
        bindE (arr_get (drivers (pci_driver_registry s)) driver_index) (\<lambda>driver.
        bindE (target s) (\<lambda>(slot_index, dev).
        bindE
          (if driver_matches driver dev
           then bindE (set_slot_driver slot_index driver_index s) (\<lambda>s1. inits (driver_init driver) i s1 h)
           else Inr (s, h)) (\<lambda>(s2, h2).
          bind_loop inits target (driver_index + 1) i s2 h2)))
      else Inr (s, h))"
  by pat_completeness auto
termination
proof (relation "measure (\<lambda>(inits, target, driver_index, i, s, h). 2 ^ 64 - unat driver_index)", goal_cases)
  case 1
  then show ?case by simp
next
  case (2 inits target driver_index i s h driver x slot_index dev y s2 h2)
  then have "unat (driver_index + 1) = Suc (unat driver_index)" by (simp add: unat_Suc_less)
  moreover have "unat driver_index < 2 ^ 64" by simp
  ultimately show ?case by (simp del: unat_less_2p64)
qed

declare bind_loop.simps [simp del]

text \<open>The result tells whether the enumeration goes on: \<open>False\<close> when the array of devices is full.\<close>

fun discover_functions ::
  "'h machine \<Rightarrow> ('a, 'h) pci_inits \<Rightarrow> u8 \<Rightarrow> u8 \<Rightarrow> u8 list \<Rightarrow> 'a pci_state_scheme \<Rightarrow> 'h \<Rightarrow>
   (bool \<times> 'a pci_state_scheme \<times> 'h) res" where
  "discover_functions m inits b d [] s h = Inr (True, s, h)"
| "discover_functions m inits b d (f # fs) s h =
     bindE (pci_get_header m s b d f h) (\<lambda>(hdr, h1).
       if h_vendor_id hdr = 0xFFFF then discover_functions m inits b d fs s h1
       else if pci_devices_count s \<ge> MAX_PCI_DEVICES then Inr (False, s, h1)
       else
         let i = pci_devices_count s in
         bindE (arr_get (pci_devices s) i) (\<lambda>slot.
         bindE (read_registers 6 0x10 m s b d f h1) (\<lambda>(bs, h2).
         let dev = device_of b d f hdr bs in
         bindE (arr_set (pci_devices s) i (slot\<lparr>slot_device := dev\<rparr>)) (\<lambda>ds.
         bindE (bind_loop inits (\<lambda>s. Inr (pci_devices_count s - 1, dev)) 0 i (s\<lparr>pci_devices := ds, pci_devices_count := i + 1\<rparr>) h2) (\<lambda>(s3, h3).
           if f = 0 \<and> h_header_type hdr AND 0x80 \<noteq> 0 then Inr (True, s3, h3)
           else discover_functions m inits b d fs s3 h3)))))"

fun discover_slots ::
  "'h machine \<Rightarrow> ('a, 'h) pci_inits \<Rightarrow> (u8 \<times> u8) list \<Rightarrow> 'a pci_state_scheme \<Rightarrow> 'h \<Rightarrow> ('a pci_state_scheme \<times> 'h) res" where
  "discover_slots m inits [] s h = Inr (s, h)"
| "discover_slots m inits ((b, d) # slots) s h =
     bindE (discover_functions m inits b d function_numbers s h) (\<lambda>(go_on, s1, h1).
       if go_on then discover_slots m inits slots s1 h1 else Inr (s1, h1))"

definition pci_discover ::
  "'h machine \<Rightarrow> ('a, 'h) pci_inits \<Rightarrow> 'a pci_state_scheme \<Rightarrow> 'h \<Rightarrow> ('a pci_state_scheme \<times> 'h) res" where
  "pci_discover m inits s h = discover_slots m inits bus_slots s h"

function unbound_loop ::
  "('a, 'h) pci_inits \<Rightarrow> u64 \<Rightarrow> 'a pci_state_scheme \<Rightarrow> 'h \<Rightarrow> ('a pci_state_scheme \<times> 'h) res" where
  "unbound_loop inits device_index s h =
     (if device_index < pci_devices_count s then
        bindE (arr_get (pci_devices s) device_index) (\<lambda>slot.
        bindE
          (if slot_driver slot \<noteq> None then Inr (s, h)
           else bind_loop inits (\<lambda>s. bindE (arr_get (pci_devices s) device_index) (\<lambda>k. Inr (device_index, slot_device k)))
                  0 device_index s h) (\<lambda>(s1, h1).
          unbound_loop inits (device_index + 1) s1 h1))
      else Inr (s, h))"
  by pat_completeness auto
termination
proof (relation "measure (\<lambda>(inits, device_index, s, h). 2 ^ 64 - unat device_index)", goal_cases)
  case 1
  then show ?case by simp
next
  case (2 inits device_index s h slot x s1 h1)
  then have "unat (device_index + 1) = Suc (unat device_index)" by (simp add: unat_Suc_less)
  moreover have "unat device_index < 2 ^ 64" by simp
  ultimately show ?case by (simp del: unat_less_2p64)
qed

declare unbound_loop.simps [simp del]

definition pci_init_unbound_devices ::
  "('a, 'h) pci_inits \<Rightarrow> 'a pci_state_scheme \<Rightarrow> 'h \<Rightarrow> ('a pci_state_scheme \<times> 'h) res" where
  "pci_init_unbound_devices inits s h = unbound_loop inits 0 s h"

end
