(* ===== verification/Bytes.thy ===== *)
theory Bytes
  imports Stdstr
begin

text \<open>
  Integers of 16, 32 and 64 bits in a memory of bytes, least significant byte first: what an access through a
  pointer of that type does. The accesses of 64 bits are defined with the copying loops of \<^verbatim>\<open>Stdstr\<close>.
\<close>

definition load16 :: "memory \<Rightarrow> u64 \<Rightarrow> u16" where
  "load16 m p = ucast (m p) OR push_bit 8 (ucast (m (p + 1)))"

definition load32 :: "memory \<Rightarrow> u64 \<Rightarrow> u32" where
  "load32 m p = ucast (m p) OR push_bit 8 (ucast (m (p + 1))) OR push_bit 16 (ucast (m (p + 2)))
     OR push_bit 24 (ucast (m (p + 3)))"

definition store16 :: "memory \<Rightarrow> u64 \<Rightarrow> u16 \<Rightarrow> memory" where
  "store16 m p v = m(p := ucast v, p + 1 := ucast (drop_bit 8 v))"

definition store32 :: "memory \<Rightarrow> u64 \<Rightarrow> u32 \<Rightarrow> memory" where
  "store32 m p v = m(p := ucast v, p + 1 := ucast (drop_bit 8 v), p + 2 := ucast (drop_bit 16 v),
     p + 3 := ucast (drop_bit 24 v))"

lemma bytes_u32:
  "ucast (ucast v :: u8) OR push_bit 8 (ucast (ucast (drop_bit 8 v) :: u8)) OR push_bit 16 (ucast (ucast (drop_bit 16 v) :: u8))
     OR push_bit 24 (ucast (ucast (drop_bit 24 v) :: u8)) = (v :: u32)" (is "?l = v")
proof (rule bit_eqI)
  fix n assume "possible_bit TYPE(u32) n"
  then have "n < 32" by simp
  then consider "n < 8" | "8 \<le> n \<and> n < 16" | "16 \<le> n \<and> n < 24" | "24 \<le> n \<and> n < 32" by linarith
  then show "bit ?l n = bit v n"
    by cases (auto simp: bit_or_iff bit_push_bit_iff bit_ucast_iff bit_drop_bit_eq)
qed

lemma load_store32 [simp]: "load32 (store32 m p v) p = v"
  unfolding load32_def store32_def using bytes_u32 [of v] by simp

lemma load64_bytes: "(\<And>k. k < 8 \<Longrightarrow> m' (q + of_nat k) = m (p + of_nat k)) \<Longrightarrow> load64 m' q = load64 m p"
proof -
  assume a: "\<And>k. k < 8 \<Longrightarrow> m' (q + of_nat k) = m (p + of_nat k)"
  from a [of 0] a [of 1] a [of 2] a [of 3] a [of 4] a [of 5] a [of 6] a [of 7] show ?thesis by (simp add: load64_def)
qed

lemma byte_of_inj:
  assumes "\<And>k. k < 8 \<Longrightarrow> byte_of v k = byte_of w k"
  shows "v = w"
proof (rule bit_eqI)
  fix n assume "possible_bit TYPE(u64) n"
  then have n: "n < 64" by simp
  have "bit (byte_of v (n div 8)) (n mod 8) = bit (byte_of w (n div 8)) (n mod 8)" using assms [of "n div 8"] n by simp
  then show "bit v n = bit w n" by (simp add: byte_of_def bit_ucast_iff bit_drop_bit_eq)
qed

lemma load_store64 [simp]: "load64 (store64 m p v) p = v"
proof (rule byte_of_inj)
  fix k :: nat assume k: "k < 8"
  then have "unat (of_nat k :: u64) = k" by (intro unat_of_nat_small) simp
  with k show "byte_of (load64 (store64 m p v) p) k = byte_of v k"
    unfolding byte_of_load64 [OF k] store64_def by (simp add: word_less_nat_alt)
qed

end
