(* ===== verification/Ahci.thy ===== *)
theory Ahci
  imports Lbd Pci Bytes
begin

text \<open>
  The AHCI driver, \<^verbatim>\<open>drivers/storage/ahci.c\<close>: bring-up of a controller and of its ports, the commands that
  read, write and flush a drive, and the table of physical regions of a transfer. The registers of
  the controller are reached through the parameter \<open>env_hba\<close>; every access may change the memory, which is how
  the controller's own transfers reach it. \<open>buffer_mem\<close> is the memory of buffers and of the pages the
  controller reads, by virtual address. Command headers, command tables and the identification data are bytes
  of it at the offsets of the packed structures.
\<close>

section \<open>Definitions\<close>

record ahci_driver_data_t =
  hba_mmio :: u64
  port_mmio :: u64
  control_dma :: dma_block
  port_num :: u8
  lba48_support :: u8
  command_tables :: "dma_block list"

record 'h ahci_state = lbd_state +
  ahci_data :: "u64 \<Rightarrow> ahci_driver_data_t option"
  hw :: 'h

record 'h hba_regs =
  reg_rd :: "u64 \<Rightarrow> memory \<Rightarrow> 'h \<Rightarrow> u32 \<times> memory \<times> 'h"
  reg_wr :: "u64 \<Rightarrow> u32 \<Rightarrow> memory \<Rightarrow> 'h \<Rightarrow> memory \<times> 'h"

text \<open>
  What a call works with: the number of polls a loop may do, the processor's ports and clock, the
  registers, the console's state (for the clock rate), the PCI state, and the address of \<^verbatim>\<open>ahci_api\<close>.
\<close>

record 'h ahci_env =
  env_polls :: nat
  env_machine :: "'h machine"
  env_hba :: "'h hba_regs"
  env_console :: console_state
  env_pci :: pci_state
  env_ahci_api :: u64

datatype ahci_port_return_t =
  AHCI_PORT_OK | AHCI_PORT_TIMEOUT | AHCI_PORT_NOT_IMPLEMENTED | AHCI_PORT_OUT_OF_MEMORY

definition ETIMEDOUT :: int where "ETIMEDOUT = 110"

text \<open>\<^verbatim>\<open>sizeof(ahci_driver_data_t)\<close> and \<^verbatim>\<open>sizeof(lbd_logical_drive_t)\<close>.\<close>

definition DRIVER_DATA_BYTES :: u64 where "DRIVER_DATA_BYTES = 816"
definition DRIVE_BYTES :: u64 where "DRIVE_BYTES = 88"

text \<open>The sizes of \<^verbatim>\<open>HBA_MEM\<close>, \<^verbatim>\<open>HBA_CMD_HEADER\<close> and \<^verbatim>\<open>HBA_CMD_TBL\<close>, and offsets of registers.\<close>

definition HBA_MEM_BYTES :: u64 where "HBA_MEM_BYTES = 0x1100"
definition CMD_HEADER_BYTES :: u64 where "CMD_HEADER_BYTES = 32"
definition CMD_TBL_BYTES :: u64 where "CMD_TBL_BYTES = 144"

definition HBA_GHC :: u64 where "HBA_GHC = 0x04"
definition HBA_PI :: u64 where "HBA_PI = 0x0C"
definition HBA_BOHC :: u64 where "HBA_BOHC = 0x28"
definition PORT_CLB :: u64 where "PORT_CLB = 0x00"
definition PORT_CLBU :: u64 where "PORT_CLBU = 0x04"
definition PORT_FB :: u64 where "PORT_FB = 0x08"
definition PORT_FBU :: u64 where "PORT_FBU = 0x0C"
definition PORT_IS :: u64 where "PORT_IS = 0x10"
definition PORT_CMD :: u64 where "PORT_CMD = 0x18"
definition PORT_TFD :: u64 where "PORT_TFD = 0x20"
definition PORT_SIG :: u64 where "PORT_SIG = 0x24"
definition PORT_SSTS :: u64 where "PORT_SSTS = 0x28"
definition PORT_SERR :: u64 where "PORT_SERR = 0x30"
definition PORT_CI :: u64 where "PORT_CI = 0x38"

text \<open>\<^verbatim>\<open>&hba->ports[i]\<close>.\<close>

definition port_address :: "u64 \<Rightarrow> u8 \<Rightarrow> u64" where
  "port_address hba i = hba + 0x100 + 0x80 * ucast i"

subsection \<open>Registers and time\<close>

definition rd_reg :: "'h ahci_env \<Rightarrow> u64 \<Rightarrow> u64 \<Rightarrow> ('h, 'a) ahci_state_scheme \<Rightarrow> (u32 \<times> ('h, 'a) ahci_state_scheme) res" where
  "rd_reg E base offset s =
     (if base = 0 then Inl NullDeref
      else case reg_rd (env_hba E) (base + offset) (buffer_mem s) (hw s) of (v, mem, h) \<Rightarrow>
        Inr (v, s\<lparr>buffer_mem := mem, hw := h\<rparr>))"

definition wr_reg :: "'h ahci_env \<Rightarrow> u64 \<Rightarrow> u64 \<Rightarrow> u32 \<Rightarrow> ('h, 'a) ahci_state_scheme \<Rightarrow> ('h, 'a) ahci_state_scheme res" where
  "wr_reg E base offset v s =
     (if base = 0 then Inl NullDeref
      else case reg_wr (env_hba E) (base + offset) v (buffer_mem s) (hw s) of (mem, h) \<Rightarrow>
        Inr (s\<lparr>buffer_mem := mem, hw := h\<rparr>))"

text \<open>A compound assignment to a register reads it and writes it.\<close>

definition upd_reg ::
  "'h ahci_env \<Rightarrow> u64 \<Rightarrow> u64 \<Rightarrow> (u32 \<Rightarrow> u32) \<Rightarrow> ('h, 'a) ahci_state_scheme \<Rightarrow> ('h, 'a) ahci_state_scheme res" where
  "upd_reg E base offset f s = bindE (rd_reg E base offset s) (\<lambda>(v, s1). wr_reg E base offset (f v) s1)"

definition get_ms :: "'h ahci_env \<Rightarrow> ('h, 'a) ahci_state_scheme \<Rightarrow> (u64 \<times> ('h, 'a) ahci_state_scheme) res" where
  "get_ms E s = bindE (tsc_timer_get_ms (env_machine E) (env_console E) (hw s)) (\<lambda>(t, h). Inr (t, s\<lparr>hw := h\<rparr>))"

definition sleep_ms :: "'h ahci_env \<Rightarrow> u64 \<Rightarrow> ('h, 'a) ahci_state_scheme \<Rightarrow> ('h, 'a) ahci_state_scheme res" where
  "sleep_ms E ms s = bindE (tsc_sleep_ms (env_polls E) (env_machine E) ms (env_console E) (hw s)) (\<lambda>h. Inr (s\<lparr>hw := h\<rparr>))"

text \<open>The loop that waits for a register with a time limit; \<open>pending\<close> is its condition on the register.\<close>

fun wait_loop ::
  "nat \<Rightarrow> 'h ahci_env \<Rightarrow> u64 \<Rightarrow> u64 \<Rightarrow> (u32 \<Rightarrow> bool) \<Rightarrow> u64 \<Rightarrow> u64 \<Rightarrow> ('h, 'a) ahci_state_scheme \<Rightarrow>
   ('h, 'a) ahci_state_scheme res" where
  "wait_loop 0 E base offset pending start_ms limit s = Inl OutOfFuel"
| "wait_loop (Suc polls) E base offset pending start_ms limit s =
     bindE (rd_reg E base offset s) (\<lambda>(v, s1).
       if \<not> pending v then Inr s1
       else
         bindE (get_ms E s1) (\<lambda>(t, s2).
           if t - start_ms < limit then
             bindE (sleep_ms E 1 s2) (\<lambda>s3. wait_loop polls E base offset pending start_ms limit s3)
           else Inr s2))"

text \<open>The wait with the reading of the clock before it and the test of the register after it.\<close>

definition timed_out ::
  "'h ahci_env \<Rightarrow> u64 \<Rightarrow> u64 \<Rightarrow> (u32 \<Rightarrow> bool) \<Rightarrow> u64 \<Rightarrow> ('h, 'a) ahci_state_scheme \<Rightarrow> (bool \<times> ('h, 'a) ahci_state_scheme) res" where
  "timed_out E base offset pending limit s =
     bindE (get_ms E s) (\<lambda>(start_ms, s1).
     bindE (wait_loop (env_polls E) E base offset pending start_ms limit s1) (\<lambda>s2.
     bindE (rd_reg E base offset s2) (\<lambda>(v, s3). Inr (pending v, s3))))"

subsection \<open>Commands\<close>

datatype command_outcome = Completed | Rejected | TimedOut

fun command_loop ::
  "nat \<Rightarrow> 'h ahci_env \<Rightarrow> u64 \<Rightarrow> u64 \<Rightarrow> ('h, 'a) ahci_state_scheme \<Rightarrow> (bool \<times> ('h, 'a) ahci_state_scheme) res" where
  "command_loop 0 E port start_ms s = Inl OutOfFuel"
| "command_loop (Suc polls) E port start_ms s =
     bindE (rd_reg E port PORT_CI s) (\<lambda>(ci, s1).
       if ci AND 1 = 0 then Inr (False, s1)
       else
         bindE (get_ms E s1) (\<lambda>(t, s2).
           if t - start_ms < 10000 then
             bindE (rd_reg E port PORT_TFD s2) (\<lambda>(tfd, s3).
               if tfd AND 1 \<noteq> 0 then Inr (True, s3)
               else bindE (sleep_ms E 1 s3) (\<lambda>s4. command_loop polls E port start_ms s4))
           else Inr (False, s2)))"

definition fire_command ::
  "'h ahci_env \<Rightarrow> u64 \<Rightarrow> ('h, 'a) ahci_state_scheme \<Rightarrow> (command_outcome \<times> ('h, 'a) ahci_state_scheme) res" where
  "fire_command E port s =
     bindE (upd_reg E port PORT_CI (\<lambda>v. v OR 1) s) (\<lambda>s1.
     bindE (get_ms E s1) (\<lambda>(start_ms, s2).
     bindE (command_loop (env_polls E) E port start_ms s2) (\<lambda>(rejected, s3).
       if rejected then Inr (Rejected, s3)
       else bindE (rd_reg E port PORT_CI s3) (\<lambda>(ci, s4).
         Inr (if ci AND 1 \<noteq> 0 then TimedOut else Completed, s4)))))"

text \<open>The fields \<^verbatim>\<open>cfl\<close>, \<^verbatim>\<open>w\<close>, \<^verbatim>\<open>prdtl\<close> and \<^verbatim>\<open>prdbc\<close> of a command header.\<close>

definition write_header :: "bool \<Rightarrow> u16 \<Rightarrow> u64 \<Rightarrow> memory \<Rightarrow> memory" where
  "write_header w prdtl hdr m =
     (let b0 = (m hdr AND NOT 0x1F) OR 5;
          b1 = (if w then b0 OR 0x40 else b0 AND NOT 0x40)
      in store32 (store16 (m(hdr := b1)) (hdr + 2) prdtl) (hdr + 4) 0)"

text \<open>Entry \<open>index\<close> of the table of physical regions; the byte count has 22 bits.\<close>

definition write_prdt :: "u64 \<Rightarrow> u16 \<Rightarrow> u64 \<Rightarrow> u64 \<Rightarrow> memory \<Rightarrow> memory" where
  "write_prdt cmdtbl index chunk_phys_start chunk_bytes m =
     (let prdt = cmdtbl + 0x80 + 16 * ucast index;
          m1 = store32 m prdt (ucast chunk_phys_start);
          m2 = store32 m1 (prdt + 4) (ucast (drop_bit 32 chunk_phys_start));
          dw3 = (load32 m2 (prdt + 12) AND NOT 0x3FFFFF) OR (ucast (chunk_bytes - 1) AND 0x3FFFFF)
      in store32 m2 (prdt + 12) (dw3 AND NOT 0x80000000))"

function prdt_loop ::
  "u64 \<Rightarrow> u64 \<Rightarrow> u64 \<Rightarrow> u16 \<Rightarrow> u64 \<Rightarrow> u64 \<Rightarrow> u64 \<Rightarrow> ('h, 'a) ahci_state_scheme \<Rightarrow>
   (u16 \<times> u64 \<times> u64 \<times> ('h, 'a) ahci_state_scheme) res" where
  "prdt_loop cmdtbl remaining_bytes current_vaddr prdt_index chunk_phys_start chunk_bytes last_phys_end s =
     (if remaining_bytes > 0 then
        let page_offset = current_vaddr AND 0xFFF;
            bytes_to_page_end = 0x1000 - page_offset;
            bytes_this_step = min bytes_to_page_end remaining_bytes in
        bindE (vmm_get_physical_from_virtual current_vaddr s) (\<lambda>(current_paddr, s1).
          let fresh = (chunk_bytes = 0 \<or> current_paddr \<noteq> last_phys_end);
              flush = (fresh \<and> chunk_bytes > 0);
              s2 = (if flush then s1\<lparr>buffer_mem := write_prdt cmdtbl prdt_index chunk_phys_start chunk_bytes (buffer_mem s1)\<rparr> else s1);
              index' = (if flush then prdt_index + 1 else prdt_index);
              start' = (if fresh then current_paddr else chunk_phys_start);
              bytes' = (if fresh then 0 else chunk_bytes) + bytes_this_step
          in prdt_loop cmdtbl (remaining_bytes - bytes_this_step) (current_vaddr + bytes_this_step) index' start' bytes'
               (current_paddr + bytes_this_step) s2)
      else Inr (prdt_index, chunk_phys_start, chunk_bytes, s))"
  by pat_completeness auto
termination
proof (relation "measure (\<lambda>(cmdtbl, remaining_bytes, r). unat remaining_bytes)", goal_cases)
  case 1
  then show ?case by simp
next
  case (2 cmdtbl remaining current_vaddr prdt_index chunk_phys_start chunk_bytes last_phys_end s page_offset to_end step)
  have "current_vaddr AND 0xFFF \<le> 0xFFF" by (rule word_and_le1)
  then have "0 < to_end" using 2 by (simp add: word_less_nat_alt word_le_nat_alt unat_sub)
  then have "0 < step" "step \<le> remaining" using 2 by (auto simp: min_def)
  then show ?case by (simp add: word_less_nat_alt word_le_nat_alt unat_sub)
qed

declare prdt_loop.simps [simp del]

definition build_prdt :: "u64 \<Rightarrow> u64 \<Rightarrow> u64 \<Rightarrow> ('h, 'a) ahci_state_scheme \<Rightarrow> (u16 \<times> ('h, 'a) ahci_state_scheme) res" where
  "build_prdt cmdtbl bytes buffer s =
     bindE (prdt_loop cmdtbl bytes buffer 0 0 0 0 s) (\<lambda>(prdt_index, chunk_phys_start, chunk_bytes, s1).
       if chunk_bytes > 0
       then Inr (prdt_index + 1, s1\<lparr>buffer_mem := write_prdt cmdtbl prdt_index chunk_phys_start chunk_bytes (buffer_mem s1)\<rparr>)
       else Inr (prdt_index, s1))"

text \<open>The first two bytes of a register FIS from the host to the device.\<close>

definition fis_start :: "u64 \<Rightarrow> memory \<Rightarrow> memory" where
  "fis_start fis m = m(fis := 0x27, fis + 1 := m (fis + 1) OR 0x80)"

definition fis_lba48 :: "u8 \<Rightarrow> u64 \<Rightarrow> u64 \<Rightarrow> u64 \<Rightarrow> memory \<Rightarrow> memory" where
  "fis_lba48 command lba count fis m =
     m(fis + 2 := command, fis + 12 := ucast (count AND 0xFF), fis + 13 := ucast (drop_bit 8 count AND 0xFF),
       fis + 4 := ucast (lba AND 0xFF), fis + 5 := ucast (drop_bit 8 lba AND 0xFF),
       fis + 6 := ucast (drop_bit 16 lba AND 0xFF), fis + 8 := ucast (drop_bit 24 lba AND 0xFF),
       fis + 9 := ucast (drop_bit 32 lba AND 0xFF), fis + 10 := ucast (drop_bit 40 lba AND 0xFF),
       fis + 7 := 0x40)"

definition fis_lba28 :: "u8 \<Rightarrow> u64 \<Rightarrow> u64 \<Rightarrow> u64 \<Rightarrow> memory \<Rightarrow> memory" where
  "fis_lba28 command lba count fis m =
     m(fis + 2 := command, fis + 12 := ucast (count AND 0xFF),
       fis + 4 := ucast (lba AND 0xFF), fis + 5 := ucast (drop_bit 8 lba AND 0xFF),
       fis + 6 := ucast (drop_bit 16 lba AND 0xFF),
       fis + 7 := ucast (drop_bit 24 lba AND 0xF) OR 0x40)"

text \<open>A block of memory that the driver writes through a pointer.\<close>

definition upd_mem :: "u64 \<Rightarrow> (memory \<Rightarrow> memory) \<Rightarrow> ('h, 'a) ahci_state_scheme \<Rightarrow> ('h, 'a) ahci_state_scheme res" where
  "upd_mem p f s = (if p = 0 then Inl NullDeref else Inr (s\<lparr>buffer_mem := f (buffer_mem s)\<rparr>))"

definition clear_table :: "u64 \<Rightarrow> ('h, 'a) ahci_state_scheme \<Rightarrow> ('h, 'a) ahci_state_scheme res" where
  "clear_table cmdtbl s = upd_mem cmdtbl (\<lambda>m. snd (volatile_memset m cmdtbl 0 CMD_TBL_BYTES)) s"

text \<open>
  \<^verbatim>\<open>ahci_read\<close> and \<^verbatim>\<open>ahci_write\<close> differ in the direction bit of the header, in the two command codes and in a fence.
\<close>

definition ahci_transfer ::
  "bool \<Rightarrow> u8 \<Rightarrow> u8 \<Rightarrow> 'h ahci_env \<Rightarrow> u64 \<Rightarrow> u64 \<Rightarrow> u64 \<Rightarrow> u64 \<Rightarrow> ('h, 'a) ahci_state_scheme \<Rightarrow>
   (int \<times> ('h, 'a) ahci_state_scheme) res" where
  "ahci_transfer w command48 command28 E logical_drive lba count buffer s =
     bindE (rd (drive_heap s) logical_drive) (\<lambda>d.
     bindE (rd (ahci_data s) (driver_data d)) (\<lambda>data.
     bindE (arr_get (command_tables data) 0) (\<lambda>command_table_dma.
     let command_header = dma_virtual_addr (control_dma data);
         cmdtbl = dma_virtual_addr command_table_dma in
     bindE (clear_table cmdtbl s) (\<lambda>s1.
     bindE (build_prdt cmdtbl (transfer_bytes count d) buffer s1) (\<lambda>(prdt_index, s2).
     bindE (upd_mem command_header (write_header w prdt_index command_header) s2) (\<lambda>s3.
     bindE (upd_mem cmdtbl (\<lambda>m.
              if lba48_support data \<noteq> 0 then fis_lba48 command48 lba count cmdtbl (fis_start cmdtbl m)
              else fis_lba28 command28 lba count cmdtbl (fis_start cmdtbl m)) s3) (\<lambda>s4.
     bindE (fire_command E (port_mmio data) s4) (\<lambda>(outcome, s5).
       Inr (if outcome = Completed then 0 else - EIO, s5)))))))))"

definition ahci_read ::
  "'h ahci_env \<Rightarrow> u64 \<Rightarrow> u64 \<Rightarrow> u64 \<Rightarrow> u64 \<Rightarrow> ('h, 'a) ahci_state_scheme \<Rightarrow> (int \<times> ('h, 'a) ahci_state_scheme) res" where
  "ahci_read = ahci_transfer False 0x25 0xC8"

definition ahci_write ::
  "'h ahci_env \<Rightarrow> u64 \<Rightarrow> u64 \<Rightarrow> u64 \<Rightarrow> u64 \<Rightarrow> ('h, 'a) ahci_state_scheme \<Rightarrow> (int \<times> ('h, 'a) ahci_state_scheme) res" where
  "ahci_write = ahci_transfer True 0x35 0xCA"

definition ahci_flush ::
  "'h ahci_env \<Rightarrow> u64 \<Rightarrow> ('h, 'a) ahci_state_scheme \<Rightarrow> (int \<times> ('h, 'a) ahci_state_scheme) res" where
  "ahci_flush E logical_drive s =
     bindE (rd (drive_heap s) logical_drive) (\<lambda>d.
     bindE (rd (ahci_data s) (driver_data d)) (\<lambda>data.
     bindE (arr_get (command_tables data) 0) (\<lambda>command_table_dma.
     let command_header = dma_virtual_addr (control_dma data);
         cmdtbl = dma_virtual_addr command_table_dma in
     bindE (clear_table cmdtbl s) (\<lambda>s1.
     bindE (upd_mem command_header (write_header False 0 command_header) s1) (\<lambda>s2.
     bindE (upd_mem cmdtbl (\<lambda>m. (fis_start cmdtbl m)(cmdtbl + 7 := 0x40,
              cmdtbl + 2 := (if lba48_support data \<noteq> 0 then 0xEA else 0xE7))) s2) (\<lambda>s3.
     bindE (fire_command E (port_mmio data) s3) (\<lambda>(outcome, s4).
       Inr (if outcome = Completed then 0 else - EIO, s4))))))))"

definition ahci_api :: "'h ahci_env \<Rightarrow> ('h, 'a) ahci_state_scheme lbd_driver_api_t" where
  "ahci_api E = \<lparr>api_read = Some (ahci_read E), api_write = Some (ahci_write E), api_flush = Some (ahci_flush E)\<rparr>"

subsection \<open>Identification\<close>

text \<open>The swap of the two bytes of the words 27 to 46, and the end of the name.\<close>

fun swap_words :: "u64 \<Rightarrow> nat list \<Rightarrow> memory \<Rightarrow> memory" where
  "swap_words id_data [] m = m"
| "swap_words id_data (w # ws) m =
     (let v = load16 m (id_data + 2 * of_nat w);
          low = ucast (v AND 0xFF) :: u8;
          high = ucast (drop_bit 8 v) :: u8
      in swap_words id_data ws (store16 m (id_data + 2 * of_nat w) (push_bit 8 (ucast low) OR ucast high)))"

definition ahci_parse_model_string :: "u64 \<Rightarrow> memory \<Rightarrow> memory" where
  "ahci_parse_model_string id_data m =
     (let m1 = swap_words id_data [27..<47] m
      in store16 m1 (id_data + 2 * 46) (load16 m1 (id_data + 2 * 46) AND 0xFF))"

definition id_word :: "memory \<Rightarrow> u64 \<Rightarrow> u64 \<Rightarrow> u16" where
  "id_word m id_data n = load16 m (id_data + 2 * n)"

definition id_valid :: "u16 \<Rightarrow> bool" where
  "id_valid v \<longleftrightarrow> v AND 0xC000 = 0x4000"

definition id_lba48 :: "memory \<Rightarrow> u64 \<Rightarrow> u8" where
  "id_lba48 m id_data =
     (if id_word m id_data 83 AND 0x400 \<noteq> 0 \<and> id_valid (id_word m id_data 83) then 1 else 0)"

definition id_sector_count :: "memory \<Rightarrow> u64 \<Rightarrow> u64" where
  "id_sector_count m id_data =
     (let sector_count_lba28 = ucast (load32 m (id_data + 2 * 60)); sector_count_lba48 = load64 m (id_data + 2 * 100)
      in if id_lba48 m id_data \<noteq> 0 then (if sector_count_lba48 > 0 then sector_count_lba48 else sector_count_lba28)
         else sector_count_lba28)"

definition id_logical_sector_size :: "memory \<Rightarrow> u64 \<Rightarrow> u32" where
  "id_logical_sector_size m id_data =
     (if id_valid (id_word m id_data 106) \<and> id_word m id_data 106 AND 0x1000 \<noteq> 0
      then load32 m (id_data + 2 * 117) * 2 else 512)"

definition id_physical_sector_size :: "memory \<Rightarrow> u64 \<Rightarrow> u32" where
  "id_physical_sector_size m id_data =
     (if id_valid (id_word m id_data 106) then
        (if id_word m id_data 106 AND 0x2000 \<noteq> 0
         then id_logical_sector_size m id_data * push_bit (unat (id_word m id_data 106 AND 0xF)) 1
         else id_logical_sector_size m id_data)
      else 512)"

definition id_write_cache :: "memory \<Rightarrow> u64 \<Rightarrow> bool" where
  "id_write_cache m id_data \<longleftrightarrow> id_word m id_data 85 AND 0x20 \<noteq> 0 \<and> id_valid (id_word m id_data 83)"

definition id_sector_offset :: "memory \<Rightarrow> u64 \<Rightarrow> u16" where
  "id_sector_offset m id_data =
     (if id_physical_sector_size m id_data \<noteq> id_logical_sector_size m id_data \<and> id_valid (id_word m id_data 209)
      then id_word m id_data 209 AND 0x3FFF else 0)"

definition id_device_info :: "memory \<Rightarrow> u64 \<Rightarrow> lbd_device_info_t" where
  "id_device_info m id_data =
     \<lparr>total_sectors = id_sector_count m id_data, logical_sector_size_bytes = id_logical_sector_size m id_data,
      physical_sector_size_bytes = id_physical_sector_size m id_data,
      logical_alignment_offset = id_sector_offset m id_data, max_sectors_per_transfer = 128,
      device_flags = (if id_write_cache m id_data then LBD_FLAG_W OR LBD_FLAG_F else LBD_FLAG_W)\<rparr>"

subsection \<open>Ports\<close>

text \<open>A page for the controller comes zeroed from the physical memory manager.\<close>

definition allocate_dma_page :: "('h, 'a) ahci_state_scheme \<Rightarrow> (dma_block \<times> ('h, 'a) ahci_state_scheme) res" where
  "allocate_dma_page s =
     bindE (kallocate_dma 1 s) (\<lambda>(b, s1).
       Inr (b, if dma_virtual_addr b = 0 then s1
               else s1\<lparr>buffer_mem := (\<lambda>a. if a AND NOT 0xFFF = dma_virtual_addr b then 0 else buffer_mem s1 a)\<rparr>))"

definition no_dma_block :: dma_block where
  "no_dma_block = \<lparr>dma_virtual_addr = 0, dma_physical_addr = 0, dma_page_count = 0\<rparr>"

text \<open>The fields of a new structure are indeterminate; they are zero here until they are assigned.\<close>

definition new_driver_data :: ahci_driver_data_t where
  "new_driver_data = \<lparr>hba_mmio = 0, port_mmio = 0, control_dma = no_dma_block, port_num = 0, lba48_support = 0,
     command_tables = replicate 32 no_dma_block\<rparr>"

definition upd_data ::
  "u64 \<Rightarrow> (ahci_driver_data_t \<Rightarrow> ahci_driver_data_t) \<Rightarrow> ('h, 'a) ahci_state_scheme \<Rightarrow> ('h, 'a) ahci_state_scheme res" where
  "upd_data p f s = bindE (wr (ahci_data s) p f) (\<lambda>h. Inr (s\<lparr>ahci_data := h\<rparr>))"

definition free_driver_data :: "u64 \<Rightarrow> ('h, 'a) ahci_state_scheme \<Rightarrow> ('h, 'a) ahci_state_scheme res" where
  "free_driver_data p s = bindE (kfree p s) (\<lambda>s1. Inr (s1\<lparr>ahci_data := (ahci_data s1)(p := None)\<rparr>))"

text \<open>The loop that allocates the 32 command tables, from index \<open>i\<close> on; the result tells whether it succeeded.\<close>

fun allocate_tables :: "u64 list \<Rightarrow> u64 \<Rightarrow> ('h, 'a) ahci_state_scheme \<Rightarrow> (bool \<times> ('h, 'a) ahci_state_scheme) res" where
  "allocate_tables [] data s = Inr (True, s)"
| "allocate_tables (i # is) data s =
     bindE (allocate_dma_page s) (\<lambda>(requested_block, s1).
       if dma_virtual_addr requested_block = 0 then Inr (False, s1)
       else
         bindE (upd_data data (\<lambda>d. d\<lparr>command_tables := (command_tables d)[unat i := requested_block]\<rparr>) s1) (\<lambda>s2.
           allocate_tables is data s2))"

text \<open>The loop that points the command headers to their tables.\<close>

fun init_headers :: "u64 \<Rightarrow> nat \<Rightarrow> dma_block list \<Rightarrow> memory \<Rightarrow> memory" where
  "init_headers base i [] m = m"
| "init_headers base i (b # bs) m =
     (let cmd_header = base + CMD_HEADER_BYTES * of_nat i
      in init_headers base (Suc i) bs
           (store32 (store32 m (cmd_header + 8) (ucast (dma_physical_addr b))) (cmd_header + 12)
              (ucast (drop_bit 32 (dma_physical_addr b)))))"

text \<open>The identification command in slot 0, with 512 bytes of answer at offset 1280 of the port's page.\<close>

definition write_identify :: "u64 \<Rightarrow> u64 \<Rightarrow> memory \<Rightarrow> memory" where
  "write_identify cmdtbl dbap m =
     (let prdt = cmdtbl + 0x80;
          m1 = store32 m (prdt + 12) ((load32 m (prdt + 12) AND NOT 0x3FFFFF) OR 511);
          m2 = store32 m1 prdt (ucast dbap);
          m3 = store32 m2 (prdt + 4) (ucast (drop_bit 32 dbap))
      in (fis_start cmdtbl m3)(cmdtbl + 2 := 0xEC))"

definition stop_port :: "'h ahci_env \<Rightarrow> u64 \<Rightarrow> ('h, 'a) ahci_state_scheme \<Rightarrow> (bool \<times> ('h, 'a) ahci_state_scheme) res" where
  "stop_port E port s =
     bindE (upd_reg E port PORT_CMD (\<lambda>v. v AND NOT 0x1) s) (\<lambda>s1.
     bindE (timed_out E port PORT_CMD (\<lambda>v. bit v 15) 500 s1) (\<lambda>(failed, s2).
       if failed then Inr (False, s2)
       else
         bindE (upd_reg E port PORT_CMD (\<lambda>v. v AND NOT 0x10) s2) (\<lambda>s3.
         bindE (timed_out E port PORT_CMD (\<lambda>v. bit v 14) 500 s3) (\<lambda>(failed, s4).
           Inr (\<not> failed, s4)))))"

definition set_bases :: "'h ahci_env \<Rightarrow> u64 \<Rightarrow> u64 \<Rightarrow> ('h, 'a) ahci_state_scheme \<Rightarrow> ('h, 'a) ahci_state_scheme res" where
  "set_bases E port dma_physical_base s =
     bindE (wr_reg E port PORT_CLB (ucast dma_physical_base) s) (\<lambda>s1.
     bindE (wr_reg E port PORT_CLBU (ucast (drop_bit 32 dma_physical_base)) s1) (\<lambda>s2.
     let fb64 = dma_physical_base + 1024 in
     bindE (wr_reg E port PORT_FB (ucast fb64) s2) (\<lambda>s3.
       wr_reg E port PORT_FBU (ucast (drop_bit 32 fb64)) s3)))"

text \<open>The registration of the drive once it has been identified.\<close>

definition register_port ::
  "'h ahci_env \<Rightarrow> u8 \<Rightarrow> u64 \<Rightarrow> u64 \<Rightarrow> ('h, 'a) ahci_state_scheme \<Rightarrow> (ahci_port_return_t \<times> ('h, 'a) ahci_state_scheme) res" where
  "register_port E pnum id_data data s =
     (let s1 = s\<lparr>buffer_mem := ahci_parse_model_string id_data (buffer_mem s)\<rparr>;
          m = buffer_mem s1 in
      bindE (kmalloc DRIVE_BYTES s1) (\<lambda>(drive, s2).
        if drive = 0 then Inl NullDeref
        else
          let s3 = s2\<lparr>drive_heap := (drive_heap s2)(drive \<mapsto>
                     \<lparr>driver_api = env_ahci_api E, device_info = id_device_info m id_data, driver_data = data,
                      drive_name = map (\<lambda>i. m (id_data + 54 + of_nat i)) [0..<40], drive_no = 0\<rparr>)\<rparr> in
          bindE (upd_data data (\<lambda>d. d\<lparr>port_num := pnum, lba48_support := id_lba48 m id_data\<rparr>) s3) (\<lambda>s4.
          bindE (lbd_register_drive drive s4) (\<lambda>s5. Inr (AHCI_PORT_OK, s5)))))"

text \<open>
  From the allocation of the driver's data on. When \<^verbatim>\<open>kmalloc\<close> fails the code reports it, frees the port's page and
  goes on.
\<close>

definition identify_port ::
  "'h ahci_env \<Rightarrow> u8 \<Rightarrow> u64 \<Rightarrow> u64 \<Rightarrow> dma_block \<Rightarrow> ('h, 'a) ahci_state_scheme \<Rightarrow>
   (ahci_port_return_t \<times> ('h, 'a) ahci_state_scheme) res" where
  "identify_port E pnum hba port port_mem s =
     bindE (kmalloc DRIVER_DATA_BYTES s) (\<lambda>(data, s1).
     bindE (if data = 0 then kfree_dma port_mem s1 else Inr (s1\<lparr>ahci_data := (ahci_data s1)(data \<mapsto> new_driver_data)\<rparr>)) (\<lambda>s2.
     bindE (allocate_tables (map of_nat [0..<32]) data s2) (\<lambda>(allocated, s3).
       if \<not> allocated then
         bindE (kfree_dma port_mem s3) (\<lambda>s4. bindE (free_driver_data data s4) (\<lambda>s5. Inr (AHCI_PORT_OUT_OF_MEMORY, s5)))
       else
         bindE (upd_data data (\<lambda>d. d\<lparr>hba_mmio := hba, port_mmio := port, control_dma := port_mem\<rparr>) s3) (\<lambda>s4.
         bindE (rd (ahci_data s4) data) (\<lambda>d.
         let base = dma_virtual_addr port_mem; cmdtbl = dma_virtual_addr (command_tables d ! 0) in
         bindE (upd_mem base (init_headers base 0 (command_tables d)) s4) (\<lambda>s5.
         bindE (clear_table cmdtbl s5) (\<lambda>s6.
         bindE (upd_mem cmdtbl (write_identify cmdtbl (dma_physical_addr port_mem + 1280)) s6) (\<lambda>s7.
         bindE (upd_mem base (write_header False 1 base) s7) (\<lambda>s8.
         bindE (fire_command E port s8) (\<lambda>(outcome, s9).
           if outcome = Completed then register_port E pnum (base + 1280) data s9
           else
             bindE (kfree_dma port_mem s9) (\<lambda>s10. bindE (free_driver_data data s10) (\<lambda>s11. Inr (AHCI_PORT_TIMEOUT, s11)))))))))))))"

text \<open>An allocation of the port's page that fails is only reported; the code goes on with address 0.\<close>

definition ahci_init_port ::
  "'h ahci_env \<Rightarrow> u8 \<Rightarrow> u64 \<Rightarrow> ('h, 'a) ahci_state_scheme \<Rightarrow> (ahci_port_return_t \<times> ('h, 'a) ahci_state_scheme) res" where
  "ahci_init_port E pnum hba s =
     (let port = port_address hba pnum in
      bindE (stop_port E port s) (\<lambda>(stopped, s1).
        if \<not> stopped then Inr (AHCI_PORT_TIMEOUT, s1)
        else
          bindE (allocate_dma_page s1) (\<lambda>(port_mem, s2).
          bindE (set_bases E port (dma_physical_addr port_mem) s2) (\<lambda>s3.
          bindE (upd_reg E port PORT_CMD (\<lambda>v. v OR 0x10) s3) (\<lambda>s4.
          bindE (timed_out E port PORT_CMD (\<lambda>v. \<not> bit v 14) 500 s4) (\<lambda>(failed, s5).
            if failed then bindE (kfree_dma port_mem s5) (\<lambda>s6. Inr (AHCI_PORT_TIMEOUT, s6))
            else
              bindE (rd_reg E port PORT_SIG s5) (\<lambda>(sig, s6).
                if sig \<noteq> 0x00000101 then bindE (kfree_dma port_mem s6) (\<lambda>s7. Inr (AHCI_PORT_NOT_IMPLEMENTED, s7))
                else
                  bindE (upd_reg E port PORT_CMD (\<lambda>v. v OR 0x1) s6) (\<lambda>s7.
                  bindE (timed_out E port PORT_CMD (\<lambda>v. \<not> bit v 15) 500 s7) (\<lambda>(failed, s8).
                    if failed then bindE (kfree_dma port_mem s8) (\<lambda>s9. Inr (AHCI_PORT_TIMEOUT, s9))
                    else
                      bindE (wr_reg E port PORT_SERR 0xFFFFFFFF s8) (\<lambda>s9.
                      bindE (wr_reg E port PORT_IS 0xFFFFFFFF s9) (\<lambda>s10.
                        identify_port E pnum hba port port_mem s10)))))))))))"

subsection \<open>The controller\<close>

text \<open>The walk along the list of capabilities; power management puts the controller into state D0.\<close>

fun capability_loop ::
  "nat \<Rightarrow> 'h ahci_env \<Rightarrow> pci_device_t \<Rightarrow> u8 \<Rightarrow> ('h, 'a) ahci_state_scheme \<Rightarrow> ('h, 'a) ahci_state_scheme res" where
  "capability_loop 0 E dev next_offset s = Inl OutOfFuel"
| "capability_loop (Suc polls) E dev next_offset s =
     (if next_offset = 0 then Inr s
      else
        bindE (pci_read_config (env_machine E) (env_pci E) dev (ucast next_offset) 2 (hw s)) (\<lambda>(cap, h1).
        let cap_id = cap AND 0xFF; next' = ucast (drop_bit 8 (ucast cap :: u16)) :: u8 in
          if cap_id = 1 then
            bindE (pci_read_config (env_machine E) (env_pci E) dev (ucast next_offset + 4) 2 h1) (\<lambda>(pmcsr, h2).
            bindE (pci_write_config (env_machine E) (env_pci E) dev (ucast next_offset + 4)
                     (ucast ((ucast pmcsr :: u16) AND NOT 0x3)) 2 h2) (\<lambda>h3. Inr (s\<lparr>hw := h3\<rparr>)))
          else capability_loop polls E dev next' (s\<lparr>hw := h1\<rparr>)))"

definition wake_device :: "'h ahci_env \<Rightarrow> pci_device_t \<Rightarrow> ('h, 'a) ahci_state_scheme \<Rightarrow> ('h, 'a) ahci_state_scheme res" where
  "wake_device E dev s =
     bindE (pci_read_config (env_machine E) (env_pci E) dev 0x6 2 (hw s)) (\<lambda>(status_reg, h1).
       if status_reg AND 0x10 \<noteq> 0 then
         bindE (pci_read_config (env_machine E) (env_pci E) dev 0x34 1 h1) (\<lambda>(next_offset, h2).
           capability_loop (env_polls E) E dev (ucast next_offset) (s\<lparr>hw := h2\<rparr>))
       else Inr (s\<lparr>hw := h1\<rparr>))"

fun bios_loop :: "nat \<Rightarrow> 'h ahci_env \<Rightarrow> u64 \<Rightarrow> ('h, 'a) ahci_state_scheme \<Rightarrow> ('h, 'a) ahci_state_scheme res" where
  "bios_loop 0 E hba s = Inl OutOfFuel"
| "bios_loop (Suc polls) E hba s =
     bindE (rd_reg E hba HBA_BOHC s) (\<lambda>(bohc, s1). if bohc AND 1 \<noteq> 0 then bios_loop polls E hba s1 else Inr s1)"

text \<open>The loop over the 32 ports; what the initialisation of a port returns is ignored.\<close>

fun port_loop :: "'h ahci_env \<Rightarrow> u64 \<Rightarrow> u8 list \<Rightarrow> ('h, 'a) ahci_state_scheme \<Rightarrow> ('h, 'a) ahci_state_scheme res" where
  "port_loop E hba [] s = Inr s"
| "port_loop E hba (i # is) s =
     bindE (rd_reg E hba HBA_PI s) (\<lambda>(pi, s1).
     bindE
       (if bit pi (unat i) then
          bindE (rd_reg E (port_address hba i) PORT_SSTS s1) (\<lambda>(ssts, s2).
            if ssts AND 0xF = 3 \<and> drop_bit 8 ssts AND 0xF = 1
            then bindE (ahci_init_port E i hba s2) (\<lambda>(_, s3). Inr s3)
            else Inr s2)
        else Inr s1) (\<lambda>s4.
       port_loop E hba is s4))"

text \<open>The end of the function has no \<^verbatim>\<open>return\<close>: the value there is \<^term>\<open>None\<close>.\<close>

definition ahci_init_device ::
  "'h ahci_env \<Rightarrow> pci_device_t \<Rightarrow> ('h, 'a) ahci_state_scheme \<Rightarrow> (int option \<times> ('h, 'a) ahci_state_scheme) res" where
  "ahci_init_device E dev s =
     bindE (wake_device E dev s) (\<lambda>s1.
     bindE (if 5 < length (bars dev) then Inr (bars dev ! 5) else Inl OutOfBounds) (\<lambda>bar5.
     let bar_address = ucast (bar5 AND NOT 0xF) :: u64 in
     bindE (pci_read_config (env_machine E) (env_pci E) dev 0x4 2 (hw s1)) (\<lambda>(pci_command_register, h1).
     bindE (pci_write_config (env_machine E) (env_pci E) dev 0x4 (ucast ((ucast pci_command_register :: u16) OR 0x6)) 2 h1) (\<lambda>h2.
     bindE (kmap_mmio bar_address HBA_MEM_BYTES MMIO_DEFAULT (s1\<lparr>hw := h2\<rparr>)) (\<lambda>(hba, s2).
     bindE (rd_reg E hba HBA_BOHC s2) (\<lambda>(bohc, s3).
     bindE (if bohc AND 1 \<noteq> 0
            then bindE (upd_reg E hba HBA_BOHC (\<lambda>v. v OR 2) s3) (\<lambda>s4. bios_loop (env_polls E) E hba s4)
            else Inr s3) (\<lambda>s5.
     bindE (upd_reg E hba HBA_GHC (\<lambda>v. v OR 1) s5) (\<lambda>s6.
     bindE (timed_out E hba HBA_GHC (\<lambda>v. v AND 1 \<noteq> 0) 1000 s6) (\<lambda>(failed, s7).
       if failed then Inr (Some (- ETIMEDOUT), s7)
       else
         bindE (upd_reg E hba HBA_GHC (\<lambda>v. v OR 0x80000000) s7) (\<lambda>s8.
         bindE (sleep_ms E 20 s8) (\<lambda>s9.
         bindE (port_loop E hba (map of_nat [0..<32]) s9) (\<lambda>s10.
           Inr (None, s10)))))))))))))"

end
