(* ===== verification/Vmm_Tables.thy ===== *)
theory Vmm_Tables
  imports Vmm
begin

text \<open>
  The page tables as a tree. Tables are named by the lists of indices that lead to them from the root,
  entries by the list of the table followed by an index. On well-formed tables (no sharing, tables
  in frames that are in use, absent entries cleared) creating a table and writing an entry change
  exactly one entry.
\<close>

section \<open>Bits of an entry\<close>

lemma bit_bf_set:
  "k < 64 \<Longrightarrow> bit (bf_set lo n v w) k \<longleftrightarrow> (if lo \<le> k \<and> k < lo + n then bit v (k - lo) else bit w k)"
  by (auto simp: bf_set_def bit_simps)

lemma bf_get_bit: "bf_get k 1 e = 0 \<longleftrightarrow> \<not> bit e k"
  by (simp add: bf_get_def take_bit_eq_mod mod_2_eq_odd bit_iff_odd_drop_bit)

lemma pte_bits:
  "pte_present e = 0 \<longleftrightarrow> \<not> bit e 0" "pte_writeable e = 0 \<longleftrightarrow> \<not> bit e 1" "pte_huge_page e = 0 \<longleftrightarrow> \<not> bit e 7"
  unfolding pte_present_def pte_writeable_def pte_huge_page_def by (rule bf_get_bit)+

text \<open>The frame that an entry names.\<close>

definition frame_of :: "u64 \<Rightarrow> nat" where
  "frame_of e = unat (pte_physical_address e)"

lemma frame_of_less: "frame_of e < 2 ^ 40"
  unfolding frame_of_def pte_physical_address_def bf_get_def unsigned_take_bit_eq by (rule take_bit_nat_less_exp)

lemma pte_physical_address_bf_set: "pte_physical_address (bf_set 12 40 v w) = take_bit 40 v"
  by (rule bit_eqI) (auto simp: pte_physical_address_def bf_get_def bf_set_def bit_simps)

lemma frame_of_bf_set: "frame_of (bf_set 12 40 v w) = take_bit 40 (unat v)"
  by (simp add: frame_of_def pte_physical_address_bf_set unsigned_take_bit_eq)

section \<open>Tables, entries and paths\<close>

text \<open>The address of entry \<open>i\<close> of the table in frame \<open>f\<close>.\<close>

definition slot :: "nat \<Rightarrow> nat \<Rightarrow> u64" where
  "slot f i = of_nat (4096 * f + 8 * i)"

lemma unat_slot: "f < 2 ^ 40 \<Longrightarrow> i < 512 \<Longrightarrow> unat (slot f i) = 4096 * f + 8 * i"
  unfolding slot_def by (rule unat_of_nat_small) simp

lemma slot_inj:
  assumes "f < 2 ^ 40" "g < 2 ^ 40" "i < 512" "j < 512"
  shows "slot f i = slot g j \<longleftrightarrow> f = g \<and> i = j"
proof
  assume "slot f i = slot g j"
  then have "4096 * f + 8 * i = 4096 * g + 8 * j" using unat_slot assms by metis
  then show "f = g \<and> i = j" using assms(3,4) by (cases f g rule: linorder_cases) linarith+
qed simp

lemma slot_page_words: "slot f i \<in> page_words (of_nat b * 4096) \<longleftrightarrow> (\<exists>j<512. slot f i = slot b j)"
  by (simp add: page_words_def slot_def mult.commute)

lemma entry_at_slot: "entry_at (of_nat (4096 * f) + DIRECT_MAP_BASE) i - DIRECT_MAP_BASE = slot f (unat i)"
  by (simp add: entry_at_def slot_def)

definition link :: "u64 \<Rightarrow> nat option" where
  "link e = (if bit e 0 \<and> \<not> bit e 7 then Some (frame_of e) else None)"

lemma link_0 [simp]: "link 0 = None"
  by (simp add: link_def)

fun tab :: "(u64 \<Rightarrow> u64) \<Rightarrow> nat \<Rightarrow> nat list \<Rightarrow> nat option" where
  "tab m r [] = Some r"
| "tab m r (i # p) = (case link (m (slot r i)) of None \<Rightarrow> None | Some f \<Rightarrow> tab m f p)"

lemma tab_snoc: "tab m r (p @ [i]) = (case tab m r p of None \<Rightarrow> None | Some f \<Rightarrow> link (m (slot f i)))"
  by (induction p arbitrary: r) (auto split: option.splits)

lemma tab_append: "tab m r (p @ q) = (case tab m r p of None \<Rightarrow> None | Some f \<Rightarrow> tab m f q)"
  by (induction p arbitrary: r) (auto split: option.splits)

definition ent :: "(u64 \<Rightarrow> u64) \<Rightarrow> nat \<Rightarrow> nat list \<Rightarrow> nat \<Rightarrow> u64" where
  "ent m r p i = (case tab m r p of None \<Rightarrow> 0 | Some f \<Rightarrow> m (slot f i))"

definition valid_path :: "nat list \<Rightarrow> bool" where
  "valid_path p \<longleftrightarrow> length p \<le> 3 \<and> (\<forall>i\<in>set p. i < 512)"

lemma valid_path_snoc: "valid_path (p @ [i]) \<longleftrightarrow> valid_path p \<and> length p \<le> 2 \<and> i < 512"
  by (auto simp: valid_path_def)

definition tables_ok :: "(u64 \<Rightarrow> u64) \<Rightarrow> nat \<Rightarrow> nat set \<Rightarrow> bool" where
  "tables_ok m r U \<longleftrightarrow>
     (\<forall>p f. valid_path p \<longrightarrow> tab m r p = Some f \<longrightarrow> f \<in> U \<and> f < 2 ^ 40 \<and>
        (\<forall>i<512. (\<not> bit (m (slot f i)) 0 \<longrightarrow> m (slot f i) = 0) \<and>
                 (length p < 2 \<longrightarrow> bit (m (slot f i)) 0 \<longrightarrow> \<not> bit (m (slot f i)) 7))) \<and>
     (\<forall>p q f. valid_path p \<longrightarrow> valid_path q \<longrightarrow> tab m r p = Some f \<longrightarrow> tab m r q = Some f \<longrightarrow> p = q)"

text \<open>Two memories that agree on the entries of all tables but one entry.\<close>

definition agree :: "(u64 \<Rightarrow> u64) \<Rightarrow> (u64 \<Rightarrow> u64) \<Rightarrow> nat \<Rightarrow> nat list \<Rightarrow> nat \<Rightarrow> bool" where
  "agree m m' r p0 i0 \<longleftrightarrow> (\<forall>p f i. valid_path p \<longrightarrow> tab m r p = Some f \<longrightarrow> i < 512 \<longrightarrow> (p, i) \<noteq> (p0, i0) \<longrightarrow>
     m' (slot f i) = m (slot f i))"

lemma agree_write:
  assumes ok: "tables_ok m r U" and p0: "valid_path p0" "tab m r p0 = Some f0" "i0 < 512"
    and m': "\<And>a. a \<noteq> slot f0 i0 \<Longrightarrow> (\<And>b j. b \<in> B \<Longrightarrow> j < 512 \<Longrightarrow> a \<noteq> slot b j) \<Longrightarrow> m' a = m a"
    and B: "B \<inter> U = {}" "\<forall>b\<in>B. b < 2 ^ 40"
  shows "agree m m' r p0 i0"
  unfolding agree_def
proof (intro allI impI)
  fix p f i
  assume p: "valid_path p" "tab m r p = Some f" "i < 512" "(p, i) \<noteq> (p0, i0)"
  have f: "f \<in> U" "f < 2 ^ 40" "f0 < 2 ^ 40" using ok p p0 unfolding tables_ok_def by blast+
  have "f = f0 \<longrightarrow> p = p0" using ok p p0 unfolding tables_ok_def by blast
  then have "slot f i \<noteq> slot f0 i0" using p f p0(3) by (auto simp: slot_inj)
  moreover have "slot f i \<noteq> slot b j" if "b \<in> B" "j < 512" for b j using that p f B by (auto simp: slot_inj)
  ultimately show "m' (slot f i) = m (slot f i)" by (rule m')
qed

text \<open>Tables that are not reached through the entry are the same.\<close>

lemma tab_agree:
  assumes "agree m m' r p0 i0" and "valid_path p" and "take (Suc (length p0)) p \<noteq> p0 @ [i0]"
  shows "tab m' r p = tab m r p"
  using assms(2,3)
proof (induction p rule: rev_induct)
  case Nil
  then show ?case by simp
next
  case (snoc i p)
  have IH: "tab m' r p = tab m r p" using snoc by (intro snoc.IH) (auto simp: valid_path_snoc split: if_splits)
  show ?case
  proof (cases "tab m r p")
    case None
    then show ?thesis using IH by (simp add: tab_snoc)
  next
    case (Some f)
    have "(p, i) \<noteq> (p0, i0)" using snoc.prems(2) by auto
    then have "m' (slot f i) = m (slot f i)"
      using assms(1) Some snoc.prems(1) by (auto simp: agree_def valid_path_snoc)
    then show ?thesis using IH Some by (simp add: tab_snoc)
  qed
qed

lemma ent_agree:
  assumes "agree m m' r p0 i0" and "valid_path p" and "take (Suc (length p0)) p \<noteq> p0 @ [i0]" and "i < 512" and "(p, i) \<noteq> (p0, i0)"
  shows "ent m' r p i = ent m r p i"
  using tab_agree [OF assms(1-3)] assms by (auto simp: ent_def agree_def split: option.splits)

lemma tab_below:
  assumes "take (Suc (length p0)) p = p0 @ [i0]"
  shows "tab m r p = (case tab m r (p0 @ [i0]) of None \<Rightarrow> None | Some f \<Rightarrow> tab m f (drop (Suc (length p0)) p))"
proof -
  have "p = (p0 @ [i0]) @ drop (Suc (length p0)) p" using append_take_drop_id [of "Suc (length p0)" p] assms by simp
  then show ?thesis using tab_append [of m r "p0 @ [i0]" "drop (Suc (length p0)) p"] by simp
qed

section \<open>Changing one entry\<close>

text \<open>An entry that links to no table before or after.\<close>

lemma write_leaf:
  assumes ok: "tables_ok m r U" and p0: "valid_path p0" "tab m r p0 = Some f0" "i0 < 512"
    and agree: "agree m m' r p0 i0" and U: "U \<subseteq> U'"
    and no: "length p0 \<le> 2 \<longrightarrow> link (m (slot f0 i0)) = None \<and> link (m' (slot f0 i0)) = None"
    and e: "\<not> bit (m' (slot f0 i0)) 0 \<longrightarrow> m' (slot f0 i0) = 0"
      "length p0 < 2 \<longrightarrow> bit (m' (slot f0 i0)) 0 \<longrightarrow> \<not> bit (m' (slot f0 i0)) 7"
  shows "tables_ok m' r U' \<and> (\<forall>p. valid_path p \<longrightarrow> tab m' r p = tab m r p) \<and>
    (\<forall>p i. valid_path p \<longrightarrow> i < 512 \<longrightarrow> (p, i) \<noteq> (p0, i0) \<longrightarrow> ent m' r p i = ent m r p i) \<and>
    ent m' r p0 i0 = m' (slot f0 i0)"
proof -
  have self: "tab m' r p0 = tab m r p0" by (rule tab_agree [OF agree p0(1)]) auto
  have tab: "tab m' r p = tab m r p" if "valid_path p" for p
  proof (cases "take (Suc (length p0)) p = p0 @ [i0]")
    case True
    then have "length (take (Suc (length p0)) p) = Suc (length p0)" by simp
    then have "length p0 \<le> 2" using that by (simp add: valid_path_def min_def split: if_splits)
    then have "tab m r (p0 @ [i0]) = None" "tab m' r (p0 @ [i0]) = None" using no p0(2) self by (simp_all add: tab_snoc)
    then show ?thesis using tab_below [OF True] by simp
  next
    case False
    then show ?thesis by (rule tab_agree [OF agree that])
  qed
  have ent: "m' (slot f i) = m (slot f i)" if "valid_path p" "tab m r p = Some f" "i < 512" "(p, i) \<noteq> (p0, i0)" for p f i
    using agree that by (auto simp: agree_def)
  have one: "f \<in> U' \<and> f < 2 ^ 40 \<and> (\<forall>i<512. (\<not> bit (m' (slot f i)) 0 \<longrightarrow> m' (slot f i) = 0) \<and>
                 (length p < 2 \<longrightarrow> bit (m' (slot f i)) 0 \<longrightarrow> \<not> bit (m' (slot f i)) 7))"
    if p: "valid_path p" "tab m r p = Some f" for p f
  proof -
    have old: "f \<in> U" "f < 2 ^ 40" "\<And>i. i < 512 \<Longrightarrow> (\<not> bit (m (slot f i)) 0 \<longrightarrow> m (slot f i) = 0) \<and>
                 (length p < 2 \<longrightarrow> bit (m (slot f i)) 0 \<longrightarrow> \<not> bit (m (slot f i)) 7)"
      using ok p unfolding tables_ok_def by blast+
    have "(\<not> bit (m' (slot f i)) 0 \<longrightarrow> m' (slot f i) = 0) \<and>
            (length p < 2 \<longrightarrow> bit (m' (slot f i)) 0 \<longrightarrow> \<not> bit (m' (slot f i)) 7)" if i: "i < 512" for i
    proof (cases "(p, i) = (p0, i0)")
      case True
      then show ?thesis using p p0(2) e by auto
    next
      case False
      then show ?thesis using ent [OF p i False] old(3) [OF i] by simp
    qed
    then show ?thesis using old(1,2) U by blast
  qed
  have "tables_ok m' r U'"
    unfolding tables_ok_def using one tab ok unfolding tables_ok_def by auto
  moreover have "ent m' r p i = ent m r p i" if "valid_path p" "i < 512" "(p, i) \<noteq> (p0, i0)" for p i
    using tab [OF that(1)] ent that by (auto simp: ent_def split: option.splits)
  ultimately show ?thesis using tab self p0(2) by (simp add: ent_def)
qed

text \<open>An absent entry that is made to link to a cleared table in a fresh frame.\<close>

lemma tab_created:
  assumes "valid_path p0" "tab m r p0 = Some f0" and "agree m m' r p0 i0" and "m (slot f0 i0) = 0"
    and "link (m' (slot f0 i0)) = Some b" and "\<And>j. j < 512 \<Longrightarrow> m' (slot b j) = 0" and "valid_path p"
  shows "tab m' r p = (if p = p0 @ [i0] then Some b else tab m r p)"
proof (cases "take (Suc (length p0)) p = p0 @ [i0]")
  case True
  have self: "tab m' r p0 = Some f0" using tab_agree [OF assms(3,1)] assms(2) by simp
  then have new: "tab m r (p0 @ [i0]) = None" "tab m' r (p0 @ [i0]) = Some b"
    using assms(2,4,5) by (simp_all add: tab_snoc)
  show ?thesis
  proof (cases "drop (Suc (length p0)) p")
    case Nil
    then have "p = p0 @ [i0]" using append_take_drop_id [of "Suc (length p0)" p] True by simp
    then show ?thesis using new by simp
  next
    case (Cons j d)
    then have "j \<in> set p" by (metis in_set_dropD list.set_intros(1))
    then have "j < 512" using assms(7) by (auto simp: valid_path_def)
    moreover have "p \<noteq> p0 @ [i0]" using Cons by auto
    ultimately show ?thesis using tab_below [OF True, of m] tab_below [OF True, of m'] new Cons assms(6) by simp
  qed
next
  case False
  then have "p \<noteq> p0 @ [i0]" by auto
  with False show ?thesis using tab_agree [OF assms(3,7)] by simp
qed

lemma create_table:
  assumes ok: "tables_ok m r U" and p0: "valid_path p0" "length p0 \<le> 2" "tab m r p0 = Some f0" "i0 < 512"
    and agree: "agree m m' r p0 i0" and e: "m (slot f0 i0) = 0" "link (m' (slot f0 i0)) = Some b"
    and b: "b \<notin> U" "b < 2 ^ 40" "\<And>j. j < 512 \<Longrightarrow> m' (slot b j) = 0"
  shows "tables_ok m' r (insert b U) \<and> (\<forall>p. valid_path p \<longrightarrow> tab m' r p = (if p = p0 @ [i0] then Some b else tab m r p)) \<and>
    (\<forall>p i. valid_path p \<longrightarrow> i < 512 \<longrightarrow> (p, i) \<noteq> (p0, i0) \<longrightarrow> ent m' r p i = ent m r p i) \<and>
    ent m' r p0 i0 = m' (slot f0 i0)"
proof -
  have tab: "tab m' r p = (if p = p0 @ [i0] then Some b else tab m r p)" if "valid_path p" for p
    by (rule tab_created [OF p0(1,3) agree e _ that]) (rule b(3))
  have none: "tab m r (p0 @ [i0]) = None" using p0(3) e(1) by (simp add: tab_snoc)
  have same: "m' (slot f i) = m (slot f i)" if "valid_path p" "tab m r p = Some f" "i < 512" "(p, i) \<noteq> (p0, i0)" for p f i
    using agree that by (auto simp: agree_def)
  have new: "bit (m' (slot f0 i0)) 0" "\<not> bit (m' (slot f0 i0)) 7" using e(2) by (auto simp: link_def split: if_splits)
  have old: "f \<in> U" "f < 2 ^ 40" "\<And>i. i < 512 \<Longrightarrow> (\<not> bit (m (slot f i)) 0 \<longrightarrow> m (slot f i) = 0) \<and>
      (length p < 2 \<longrightarrow> bit (m (slot f i)) 0 \<longrightarrow> \<not> bit (m (slot f i)) 7)" if "valid_path p" "tab m r p = Some f" for p f
    using ok that unfolding tables_ok_def by blast+
  have one: "f \<in> insert b U \<and> f < 2 ^ 40 \<and> (\<forall>i<512. (\<not> bit (m' (slot f i)) 0 \<longrightarrow> m' (slot f i) = 0) \<and>
      (length p < 2 \<longrightarrow> bit (m' (slot f i)) 0 \<longrightarrow> \<not> bit (m' (slot f i)) 7))"
    if p: "valid_path p" "tab m' r p = Some f" for p f
  proof (cases "p = p0 @ [i0]")
    case True
    then show ?thesis using p tab [OF p(1)] b by simp
  next
    case False
    then have f: "tab m r p = Some f" using p tab [OF p(1)] by simp
    have "(\<not> bit (m' (slot f i)) 0 \<longrightarrow> m' (slot f i) = 0) \<and> (length p < 2 \<longrightarrow> bit (m' (slot f i)) 0 \<longrightarrow> \<not> bit (m' (slot f i)) 7)"
      if i: "i < 512" for i
      using same [OF p(1) f i] old(3) [OF p(1) f i] new f p0(3) by (cases "(p, i) = (p0, i0)") auto
    then show ?thesis using old(1,2) [OF p(1) f] by blast
  qed
  have inj: "p = q" if "valid_path p" "valid_path q" "tab m' r p = Some f" "tab m' r q = Some f" for p q f
  proof -
    have "g \<in> U" if "valid_path q'" "tab m r q' = Some g" for q' g using old(1) that by blast
    moreover have "p' = q'" if "valid_path p'" "valid_path q'" "tab m r p' = Some f" "tab m r q' = Some f" for p' q'
      using ok that unfolding tables_ok_def by blast
    ultimately show ?thesis
      using that tab [OF that(1)] tab [OF that(2)] b(1) by (auto split: if_splits)
  qed
  have "tables_ok m' r (insert b U)" unfolding tables_ok_def using one inj by blast
  moreover have "ent m' r p i = ent m r p i" if "valid_path p" "i < 512" "(p, i) \<noteq> (p0, i0)" for p i
    using tab [OF that(1)] same that none b(3) by (auto simp: ent_def split: option.splits)
  moreover have "ent m' r p0 i0 = m' (slot f0 i0)" using tab [OF p0(1)] p0(3) by (simp add: ent_def)
  ultimately show ?thesis using tab by blast
qed

end
