(* ===== verification/Vmm_Map.thy ===== *)
theory Vmm_Map
  imports Vmm_Tables
begin

text \<open>
  Mapping, unmapping and translation implement a partial function from virtual pages to entries, the
  one the processor computes: on well-formed tables, walks that create tables do not change it,
  mapping a free page adds exactly that page, and unmapping removes exactly one page.
\<close>

section \<open>Well-formed page tables\<close>

definition root_frame :: "'a vmm_state_scheme \<Rightarrow> nat" where
  "root_frame s = unat (PML4 s - DIRECT_MAP_BASE) div 4096"

definition free_frames :: "'a pmm_state_scheme \<Rightarrow> nat set" where
  "free_frames s = {f. f < unat (bitmap_size_frames s) \<and> f \<notin> used_frames s}"

text \<open>The address of the table in a frame, in the direct map.\<close>

definition table_ptr :: "nat \<Rightarrow> u64" where
  "table_ptr f = of_nat (4096 * f) + DIRECT_MAP_BASE"

definition pt_wf :: "'a vmm_state_scheme \<Rightarrow> bool" where
  "pt_wf s \<longleftrightarrow> pmm_ok s \<and> unat (bitmap_size_frames s) \<le> 2 ^ 40 \<and>
     PML4 s = table_ptr (root_frame s) \<and>
     tables_ok (phys_mem s) (root_frame s) (used_frames s)"

abbreviation table_of :: "'a vmm_state_scheme \<Rightarrow> nat list \<Rightarrow> nat option" where
  "table_of s \<equiv> tab (phys_mem s) (root_frame s)"

abbreviation entry_of :: "'a vmm_state_scheme \<Rightarrow> nat list \<Rightarrow> nat \<Rightarrow> u64" where
  "entry_of s \<equiv> ent (phys_mem s) (root_frame s)"

lemma finite_free_frames [simp]: "finite (free_frames s)"
  by (simp add: free_frames_def)

lemma one_frame_law:
  assumes "pmm_ok s" and "free_frames s \<noteq> {}"
  shows "\<exists>b s'. pmm_allocate_frames 1 4096 s = Inr (of_nat b * 4096, s') \<and> b \<in> free_frames s \<and> marked s b 1 s'"
proof -
  have step: "align_step 4096 = 1" by (simp add: align_step_def)
  have run: "free_run s 1 1 b \<longleftrightarrow> b \<in> free_frames s" for b
    by (auto simp: free_run_def free_frames_def)
  from pmm_allocate_outcome [of s 1 4096] assms(1) obtain r where
    r: "pmm_allocate_frames 1 4096 s = Inr r" "alloc_outcome s 1 1 0 r" by (auto simp: pmm_ok_def step)
  then show ?thesis using assms(2) unfolding alloc_outcome_def run by (cases r) auto
qed

lemma free_frames_marked: "marked s b 1 s' \<Longrightarrow> free_frames s' = free_frames s - {b}"
  by (auto simp: marked_def pmm_frame_def free_frames_def)

text \<open>A walk may create tables: at most \<open>k\<close> frames are taken and absent entries above the last level
  become links.\<close>

definition created :: "nat \<Rightarrow> 'a vmm_state_scheme \<Rightarrow> 'a vmm_state_scheme \<Rightarrow> bool" where
  "created k s s' \<longleftrightarrow> pt_wf s' \<and> PML4 s' = PML4 s \<and> card (free_frames s) \<le> card (free_frames s') + k \<and>
     (\<forall>p f. valid_path p \<longrightarrow> table_of s p = Some f \<longrightarrow> table_of s' p = Some f) \<and>
     (\<forall>p i. valid_path p \<longrightarrow> i < 512 \<longrightarrow> entry_of s' p i = entry_of s p i \<or>
        length p \<le> 2 \<and> entry_of s p i = 0 \<and> link (entry_of s' p i) \<noteq> None)"

lemma created_refl: "pt_wf s \<Longrightarrow> created 0 s s"
  by (simp add: created_def)

lemma root_frame_eq: "PML4 s' = PML4 s \<Longrightarrow> root_frame s' = root_frame s"
  by (simp add: root_frame_def)

lemma created_trans: "created j s s1 \<Longrightarrow> created k s1 s2 \<Longrightarrow> created (j + k) s s2"
  unfolding created_def by (auto; metis link_0)

section \<open>Walks\<close>

lemma mem_rd_slot: "mem_rd (entry_at (table_ptr f) i) s = phys_mem s (slot f (unat i))"
  by (simp only: mem_rd_def entry_at_slot table_ptr_def)

lemma mem_wr_slot: "mem_wr (entry_at (table_ptr f) i) e s = s\<lparr>phys_mem := (phys_mem s)(slot f (unat i) := e)\<rparr>"
  by (simp only: mem_wr_def entry_at_slot table_ptr_def)

lemma frame_ptr: "push_bit 12 (pte_physical_address e) + DIRECT_MAP_BASE = table_ptr (frame_of e)"
  by (simp add: table_ptr_def frame_of_def push_bit_eq_mult mult.commute)

lemma frame_table_ptr: "of_nat b * 4096 + DIRECT_MAP_BASE = table_ptr b"
  by (simp add: table_ptr_def mult.commute)

lemma vmm_more_PML4: "pmm_state.more s' = pmm_state.more s \<Longrightarrow> PML4 s' = PML4 s"
  by (cases s; cases s') simp

lemma walk_present:
  assumes "link (phys_mem s (slot f (unat i))) = Some g"
  shows "vmm_walk_and_crate_next_table (table_ptr f) i s = Inr (table_ptr g, s)"
proof -
  let ?e = "phys_mem s (slot f (unat i))"
  have e: "bit ?e 0" "frame_of ?e = g" using assms by (auto simp: link_def split: if_splits)
  then show ?thesis
    by (simp add: vmm_walk_and_crate_next_table_def mem_rd_slot pte_bits frame_ptr)
qed

definition table_entry :: "nat \<Rightarrow> u64" where
  "table_entry b = bf_set 12 40 (drop_bit 12 (of_nat b * 4096)) (bf_set 2 1 1 (bf_set 1 1 1 (bf_set 0 1 1 0)))"

lemma drop_bit_frame: "b < 2 ^ 40 \<Longrightarrow> unat (drop_bit 12 (of_nat b * 4096 :: u64)) = b"
proof -
  assume b: "b < 2 ^ 40"
  then have "unat (of_nat b * 4096 :: u64) = b * 4096" by (subst unat_mult_small) simp_all
  then show ?thesis by (simp add: drop_bit_eq_div unat_div)
qed

lemma link_table_entry: "b < 2 ^ 40 \<Longrightarrow> link (table_entry b) = Some b"
  unfolding link_def table_entry_def frame_of_bf_set drop_bit_frame
  by (simp add: bit_bf_set take_bit_nat_eq_self)

lemma walk_absent:
  assumes wf: "pt_wf s" and p: "valid_path p" "length p \<le> 2" "table_of s p = Some f" and i: "unat i < 512"
    and e: "\<not> bit (phys_mem s (slot f (unat i))) 0" and room: "free_frames s \<noteq> {}"
  shows "\<exists>g s'. vmm_walk_and_crate_next_table (table_ptr f) i s = Inr (table_ptr g, s') \<and> created 1 s s' \<and>
           table_of s' (p @ [unat i]) = Some g \<and>
           (\<forall>q j. valid_path q \<longrightarrow> j < 512 \<longrightarrow> length q \<noteq> length p \<longrightarrow> entry_of s' q j = entry_of s q j)"
proof -
  have ok: "pmm_ok s" "unat (bitmap_size_frames s) \<le> 2 ^ 40" "tables_ok (phys_mem s) (root_frame s) (used_frames s)"
    using wf by (simp_all add: pt_wf_def)
  from one_frame_law [OF ok(1) room] obtain b s1 where
    b: "pmm_allocate_frames 1 4096 s = Inr (of_nat b * 4096, s1)" "b \<in> free_frames s" "marked s b 1 s1" by blast
  have bU: "b \<notin> used_frames s" "b < 2 ^ 40" using b(2) ok(2) by (auto simp: free_frames_def)
  have s1: "used_frames s1 = insert b (used_frames s)" "PML4 s1 = PML4 s"
      "\<And>a. phys_mem s1 a = (if a \<in> page_words (of_nat b * 4096) then 0 else phys_mem s a)" "pmm_ok s1"
      "bitmap_size_frames s1 = bitmap_size_frames s"
    using b(3) marked_ok [OF b(3) ok(1)] by (auto simp: marked_def pmm_frame_def intro: vmm_more_PML4)
  define m' where "m' = (phys_mem s1)(slot f (unat i) := table_entry b)"
  have f: "f \<in> used_frames s" "f < 2 ^ 40" "phys_mem s (slot f (unat i)) = 0"
    using ok(3) p i e unfolding tables_ok_def by blast+
  have notb: "slot f j \<notin> page_words (of_nat b * 4096)" if "j < 512" for j
    using that f bU by (auto simp: slot_page_words slot_inj)
  have zero: "m' (slot b j) = 0" if "j < 512" for j
    using that f bU i by (auto simp: m'_def s1(3) slot_page_words slot_inj)
  have "agree (phys_mem s) m' (root_frame s) p (unat i)"
    by (rule agree_write [OF ok(3) p(1,3) i, where B = "{b}"]) (use bU in \<open>auto simp: m'_def s1(3) page_words_def slot_def mult.commute\<close>)
  note new = create_table [OF ok(3) p i this f(3) _ bU zero]
  define s' where "s' = s1\<lparr>phys_mem := m'\<rparr>"
  have r: "root_frame s' = root_frame s" using s1(2) by (simp add: s'_def root_frame_def)
  have l: "link (m' (slot f (unat i))) = Some b" using bU by (simp add: m'_def link_table_entry)
  have "vmm_walk_and_crate_next_table (table_ptr f) i s = Inr (table_ptr b, s')"
    using e b(1) s1(3) [of "slot f (unat i)"] notb [OF i] f(3)
    by (simp add: vmm_walk_and_crate_next_table_def mem_rd_slot mem_wr_slot pte_bits s'_def m'_def table_entry_def frame_table_ptr)
  moreover have "pt_wf s'"
    using wf s1 new [OF l] r by (simp add: pt_wf_def s'_def pmm_ok_def pmm_wf_def used_frames_def)
  moreover have "free_frames s' = free_frames s - {b}"
    unfolding free_frames_marked [OF b(3), symmetric] by (simp add: s'_def free_frames_def used_frames_def)
  then have "card (free_frames s) \<le> card (free_frames s') + 1" using b(2) by (simp add: card_Diff_singleton)
  moreover have tabs: "table_of s' q = (if q = p @ [unat i] then Some b else table_of s q)" if "valid_path q" for q
    using new [OF l] that r by (simp add: s'_def)
  have ents: "entry_of s' q j = entry_of s q j" if "valid_path q" "j < 512" "(q, j) \<noteq> (p, unat i)" for q j
    using new [OF l] that r by (simp add: s'_def)
  have "entry_of s p (unat i) = 0" "link (entry_of s' p (unat i)) \<noteq> None"
    using new [OF l] r p(3) f(3) l by (simp_all add: s'_def ent_def)
  then have "entry_of s' q j = entry_of s q j \<or> length q \<le> 2 \<and> entry_of s q j = 0 \<and> link (entry_of s' q j) \<noteq> None"
    if "valid_path q" "j < 512" for q j
    using ents [OF that] p(2) by (cases "(q, j) = (p, unat i)") auto
  moreover have "table_of s (p @ [unat i]) = None" using p(3) f(3) by (simp add: tab_snoc)
  then have "table_of s' q = Some g" if "valid_path q" "table_of s q = Some g" for q g using tabs that by auto
  moreover have "PML4 s' = PML4 s" using s1(2) by (simp add: s'_def)
  ultimately have "created 1 s s'" unfolding created_def by blast
  moreover have "table_of s' (p @ [unat i]) = Some b" using tabs p i by (simp add: valid_path_snoc)
  moreover have "\<forall>q j. valid_path q \<longrightarrow> j < 512 \<longrightarrow> length q \<noteq> length p \<longrightarrow> entry_of s' q j = entry_of s q j" using ents by auto
  ultimately show ?thesis using \<open>vmm_walk_and_crate_next_table (table_ptr f) i s = Inr (table_ptr b, s')\<close> by blast
qed

definition huge :: "u64 \<Rightarrow> bool" where
  "huge e \<longleftrightarrow> bit e 0 \<and> bit e 7"

lemma walk_law:
  assumes wf: "pt_wf s" and p: "valid_path p" "length p \<le> 2" "table_of s p = Some f" and i: "unat i < 512"
    and e: "\<not> huge (entry_of s p (unat i))" and room: "free_frames s \<noteq> {}"
  shows "\<exists>g s'. vmm_walk_and_crate_next_table (table_ptr f) i s = Inr (table_ptr g, s') \<and> created 1 s s' \<and>
           table_of s' (p @ [unat i]) = Some g \<and>
           (\<forall>q j. valid_path q \<longrightarrow> j < 512 \<longrightarrow> length q \<noteq> length p \<longrightarrow> entry_of s' q j = entry_of s q j)"
proof (cases "bit (phys_mem s (slot f (unat i))) 0")
  case True
  with e p(3) have "link (phys_mem s (slot f (unat i))) = Some (frame_of (phys_mem s (slot f (unat i))))"
    by (simp add: link_def huge_def ent_def)
  then show ?thesis
    using walk_present p(3) created_refl [OF wf] by (fastforce simp: tab_snoc created_def)
next
  case False
  then show ?thesis by (rule walk_absent [OF wf p i _ room])
qed

lemma tables_not_huge:
  assumes "tables_ok m r U" and "valid_path p" "length p < 2" and "i < 512"
  shows "\<not> huge (ent m r p i)"
proof (cases "tab m r p")
  case None
  then show ?thesis by (simp add: ent_def huge_def)
next
  case (Some f)
  then show ?thesis using assms unfolding tables_ok_def by (auto simp: ent_def huge_def)
qed

lemma upper_not_huge:
  "pt_wf s \<Longrightarrow> valid_path p \<Longrightarrow> length p < 2 \<Longrightarrow> i < 512 \<Longrightarrow> \<not> huge (entry_of s p i)"
  unfolding pt_wf_def using tables_not_huge by blast

definition path3 :: "u64 \<Rightarrow> nat list" where
  "path3 v = [unat (PML4_index v), unat (PDPT_index v), unat (PD_index v)]"

definition path2 :: "u64 \<Rightarrow> nat list" where
  "path2 v = [unat (PML4_index v), unat (PDPT_index v)]"

lemma index_less: "unat (x AND 0x1FF :: u64) < 512"
proof -
  have "x AND 0x1FF = take_bit 9 x" by (simp add: take_bit_eq_mask mask_eq_exp_minus_1)
  then have "unat (x AND 0x1FF) = take_bit 9 (unat x)" by (simp add: unsigned_take_bit_eq)
  then show ?thesis using take_bit_nat_less_exp [of 9 "unat x"] by simp
qed

lemma indices_less [simp]:
  "unat (PML4_index v) < 512" "unat (PDPT_index v) < 512" "unat (PD_index v) < 512" "unat (PT_index v) < 512"
  unfolding PML4_index_def PDPT_index_def PD_index_def PT_index_def by (rule index_less)+

lemma paths_valid [simp]: "valid_path []" "valid_path [unat (PML4_index v)]" "valid_path (path2 v)" "valid_path (path3 v)"
  by (simp_all add: valid_path_def path2_def path3_def)

lemma path_lengths [simp]: "length (path2 v) = 2" "length (path3 v) = 3" "path2 v @ [unat (PD_index v)] = path3 v"
  by (simp_all add: path2_def path3_def)

text \<open>The two upper levels of every operation.\<close>

lemma upper_walks:
  assumes wf: "pt_wf s" and room: "2 \<le> card (free_frames s)"
  shows "\<exists>d s1 g s2. vmm_walk_and_crate_next_table (PML4 s) (PML4_index v) s = Inr (d, s1) \<and>
           vmm_walk_and_crate_next_table d (PDPT_index v) s1 = Inr (table_ptr g, s2) \<and>
           created 2 s s2 \<and> table_of s2 (path2 v) = Some g \<and>
           (\<forall>q j. valid_path q \<longrightarrow> j < 512 \<longrightarrow> length q = 2 \<longrightarrow> entry_of s2 q j = entry_of s q j)"
proof -
  have r: "PML4 s = table_ptr (root_frame s)" using wf by (simp add: pt_wf_def)
  have "free_frames s \<noteq> {}" using room by auto
  from walk_law [OF wf paths_valid(1) _ _ indices_less(1) upper_not_huge [OF wf] this, of "root_frame s" v] obtain f s1 where
    1: "vmm_walk_and_crate_next_table (PML4 s) (PML4_index v) s = Inr (table_ptr f, s1)" "created 1 s s1"
      "table_of s1 [unat (PML4_index v)] = Some f"
      "\<forall>q j. valid_path q \<longrightarrow> j < 512 \<longrightarrow> q \<noteq> [] \<longrightarrow> entry_of s1 q j = entry_of s q j" by (auto simp: r)
  have wf1: "pt_wf s1" and "free_frames s1 \<noteq> {}" using 1(2) room by (auto simp: created_def)
  from walk_law [OF wf1 paths_valid(2) _ 1(3) indices_less(2) upper_not_huge [OF wf1] this(2), of v] obtain g s2 where
    2: "vmm_walk_and_crate_next_table (table_ptr f) (PDPT_index v) s1 = Inr (table_ptr g, s2)" "created 1 s1 s2"
      "table_of s2 (path2 v) = Some g"
      "\<forall>q j. valid_path q \<longrightarrow> j < 512 \<longrightarrow> length q \<noteq> 1 \<longrightarrow> entry_of s2 q j = entry_of s1 q j" by (auto simp: path2_def)
  have "created 2 s s2" using created_trans [OF 1(2) 2(2)] by (simp add: numeral_2_eq_2)
  moreover have "\<forall>q j. valid_path q \<longrightarrow> j < 512 \<longrightarrow> length q = 2 \<longrightarrow> entry_of s2 q j = entry_of s q j" using 1(4) 2(4) by fastforce
  ultimately show ?thesis using 1(1) 2(1,3) by blast
qed

text \<open>And all three levels, below an entry that does not map a huge page.\<close>

lemma three_walks:
  assumes wf: "pt_wf s" and e: "\<not> huge (entry_of s (path2 v) (unat (PD_index v)))" and room: "3 \<le> card (free_frames s)"
  shows "\<exists>d s1 g s2 f s3. vmm_walk_and_crate_next_table (PML4 s) (PML4_index v) s = Inr (d, s1) \<and>
           vmm_walk_and_crate_next_table d (PDPT_index v) s1 = Inr (table_ptr g, s2) \<and>
           \<not> huge (mem_rd (entry_at (table_ptr g) (PD_index v)) s2) \<and>
           vmm_walk_and_crate_next_table (table_ptr g) (PD_index v) s2 = Inr (table_ptr f, s3) \<and>
           created 3 s s3 \<and> table_of s3 (path3 v) = Some f"
proof -
  from upper_walks [OF wf, of v] room obtain d s1 g s2 where
    w: "vmm_walk_and_crate_next_table (PML4 s) (PML4_index v) s = Inr (d, s1)"
       "vmm_walk_and_crate_next_table d (PDPT_index v) s1 = Inr (table_ptr g, s2)" and
    u: "created 2 s s2" "table_of s2 (path2 v) = Some g" by auto
  have wf2: "pt_wf s2" and r2: "free_frames s2 \<noteq> {}" using u(1) room by (auto simp: created_def)
  have "entry_of s2 (path2 v) (unat (PD_index v)) = entry_of s (path2 v) (unat (PD_index v)) \<or>
      link (entry_of s2 (path2 v) (unat (PD_index v))) \<noteq> None"
    using u(1) unfolding created_def by (metis indices_less(3) paths_valid(3))
  then have e2: "\<not> huge (entry_of s2 (path2 v) (unat (PD_index v)))"
    using e by (auto simp: huge_def link_def split: if_splits)
  from walk_law [OF wf2 paths_valid(3) _ u(2) indices_less(3) e2 r2] obtain f s3 where
    3: "vmm_walk_and_crate_next_table (table_ptr g) (PD_index v) s2 = Inr (table_ptr f, s3)" "created 1 s2 s3"
      "table_of s3 (path3 v) = Some f" by auto
  have e3: "\<not> huge (mem_rd (entry_at (table_ptr g) (PD_index v)) s2)" using e2 u(2) by (simp add: mem_rd_slot ent_def)
  have c3: "created 3 s s3" using created_trans [OF u(1) 3(2)] by (simp add: numeral_3_eq_3)
  show ?thesis using w e3 3(1) c3 3(3) by blast
qed

section \<open>Translation\<close>

definition leaf :: "u64 \<Rightarrow> u64 \<Rightarrow> u64 option" where
  "leaf e2 e1 = (if huge e2 then Some e2 else if bit e1 0 then Some e1 else None)"

lemma hw_entry_slot: "hw_entry (table_ptr f) i s = (if bit (phys_mem s (slot f (unat i))) 0 then Some (phys_mem s (slot f (unat i))) else None)"
  by (simp add: hw_entry_def mem_rd_slot pte_bits)

lemma next_table_ptr: "next_table e = table_ptr (frame_of e)"
  by (simp add: next_table_def frame_ptr)

lemma hw_translate_tables:
  assumes r: "PML4 s = table_ptr (root_frame s)" and ok: "tables_ok (phys_mem s) (root_frame s) U"
  shows "hw_translate v s = leaf (entry_of s (path2 v) (unat (PD_index v))) (entry_of s (path3 v) (unat (PT_index v)))"
proof -
  let ?m = "phys_mem s" and ?r = "root_frame s" and ?i4 = "unat (PML4_index v)" and ?i3 = "unat (PDPT_index v)"
  have nh: "\<not> huge (?m (slot f i))" if "table_of s p = Some f" "valid_path p" "length p < 2" "i < 512" for p f i
    using tables_not_huge [OF ok that(2-4)] that(1) by (simp add: ent_def)
  have 4: "link (?m (slot ?r ?i4)) = (if bit (?m (slot ?r ?i4)) 0 then Some (frame_of (?m (slot ?r ?i4))) else None)"
    using nh [of "[]" ?r ?i4] by (auto simp: link_def huge_def)
  show ?thesis
  proof (cases "link (?m (slot ?r ?i4))")
    case None
    then have "\<not> bit (?m (slot ?r ?i4)) 0" using 4 by auto
    then show ?thesis using None by (simp add: hw_translate_def r hw_entry_slot leaf_def ent_def path2_def path3_def huge_def)
  next
    case (Some f)
    then have f: "bit (?m (slot ?r ?i4)) 0" "frame_of (?m (slot ?r ?i4)) = f" using 4 by (auto split: if_splits)
    have 3: "link (?m (slot f ?i3)) = (if bit (?m (slot f ?i3)) 0 then Some (frame_of (?m (slot f ?i3))) else None)"
      using nh [of "[?i4]" f ?i3] Some by (auto simp: link_def huge_def)
    show ?thesis
      using f 3 Some
      by (auto simp: hw_translate_def r hw_entry_slot next_table_ptr leaf_def ent_def path2_def path3_def huge_def pte_bits link_def
          split: if_splits option.splits)
  qed
qed

lemma hw_translate_leaf:
  "pt_wf s \<Longrightarrow> hw_translate v s = leaf (entry_of s (path2 v) (unat (PD_index v))) (entry_of s (path3 v) (unat (PT_index v)))"
  unfolding pt_wf_def using hw_translate_tables by blast

lemma created_translate:
  assumes "pt_wf s" and "created k s s'"
  shows "hw_translate v s' = hw_translate v s"
proof -
  have wf: "pt_wf s'" using assms(2) by (simp add: created_def)
  have c: "entry_of s' p i = entry_of s p i \<or> length p \<le> 2 \<and> entry_of s p i = 0 \<and> link (entry_of s' p i) \<noteq> None"
    if "valid_path p" "i < 512" for p i using assms(2) that unfolding created_def by blast
  have 2: "entry_of s' (path3 v) (unat (PT_index v)) = entry_of s (path3 v) (unat (PT_index v))"
    using c [OF paths_valid(4) indices_less(4)] by auto
  show ?thesis
    unfolding hw_translate_leaf [OF wf] hw_translate_leaf [OF assms(1)] 2
    using c [OF paths_valid(3) [of v] indices_less(3) [of v]] by (auto simp: leaf_def huge_def link_def split: if_splits)
qed

section \<open>Pages\<close>

definition vpage :: "u64 \<Rightarrow> u64" where
  "vpage v = take_bit 36 (drop_bit 12 v)"

lemma bit_index: "bit (x AND 0x1FF :: u64) n \<longleftrightarrow> n < 9 \<and> bit x n"
proof -
  have "x AND 0x1FF = take_bit 9 x" by (simp add: take_bit_eq_mask mask_eq_exp_minus_1)
  then show ?thesis by (simp add: bit_take_bit_iff)
qed

lemma bounded_bits: "k \<le> 64 \<Longrightarrow> (\<forall>n<(64 :: nat). (n < k \<and> A n) = (n < k \<and> B n)) \<longleftrightarrow> (\<forall>n<k. A n = B n)"
  by (meson less_le_trans)

lemma index_eq_iff: "drop_bit k u AND 0x1FF = drop_bit k v AND (0x1FF :: u64) \<longleftrightarrow> (\<forall>n<9. bit u (k + n) = bit v (k + n))"
  by (simp add: bit_eq_iff bit_index bit_drop_bit_eq bounded_bits)

lemma vpage_eq_iff: "vpage u = vpage v \<longleftrightarrow> (\<forall>n<36. bit u (12 + n) = bit v (12 + n))"
  by (simp add: vpage_def bit_eq_iff bit_take_bit_iff bit_drop_bit_eq bounded_bits)

lemma all_36:
  "(\<forall>n<36. P (12 + n)) \<longleftrightarrow> (\<forall>n<9. P (12 + n)) \<and> (\<forall>n<9. P (21 + n)) \<and> (\<forall>n<9. P (30 + n)) \<and> (\<forall>n<9. P (39 + n :: nat))"
  (is "?l \<longleftrightarrow> ?r1 \<and> ?r2 \<and> ?r3 \<and> ?r4")
proof
  assume r: "?r1 \<and> ?r2 \<and> ?r3 \<and> ?r4"
  show ?l
  proof (intro allI impI)
    fix n :: nat assume "n < 36"
    then consider "n < 9" | "9 \<le> n \<and> n - 9 < 9" | "18 \<le> n \<and> n - 18 < 9" | "27 \<le> n \<and> n - 27 < 9" by linarith
    then show "P (12 + n)"
    proof cases
      case 1
      then show ?thesis using r by simp
    next
      case 2
      then have "P (21 + (n - 9))" using r by blast
      then show ?thesis using 2 by simp
    next
      case 3
      then have "P (30 + (n - 18))" using r by blast
      then show ?thesis using 3 by simp
    next
      case 4
      then have "P (39 + (n - 27))" using r by blast
      then show ?thesis using 4 by simp
    qed
  qed
next
  assume l: ?l
  have "P (12 + (k + n))" if "n < 9" "k \<le> 27" for n k using l that by auto
  from this [of _ 0] this [of _ 9] this [of _ 18] this [of _ 27] show "?r1 \<and> ?r2 \<and> ?r3 \<and> ?r4" by simp
qed

lemma same_page_iff: "path3 u = path3 v \<and> unat (PT_index u) = unat (PT_index v) \<longleftrightarrow> vpage u = vpage v"
  unfolding vpage_eq_iff all_36 [of "\<lambda>n. bit u n = bit v n"] path3_def
  by (auto simp: PML4_index_def PDPT_index_def PD_index_def PT_index_def index_eq_iff)

lemma same_page_path2: "vpage u = vpage v \<Longrightarrow> path2 u = path2 v \<and> PD_index u = PD_index v \<and> path3 u = path3 v \<and> PT_index u = PT_index v"
  using same_page_iff [of u v] by (auto simp: path2_def path3_def)

lemma hw_translate_same_page: "pt_wf s \<Longrightarrow> vpage u = vpage v \<Longrightarrow> hw_translate u s = hw_translate v s"
  using same_page_path2 [of u v] by (simp add: hw_translate_leaf)

text \<open>Writing the entry of a page in its last table.\<close>

lemma write_page:
  assumes wf: "pt_wf s" and f: "table_of s (path3 v) = Some f" and nh: "\<not> huge (entry_of s (path2 v) (unat (PD_index v)))"
    and e: "\<not> bit e 0 \<longrightarrow> e = 0"
    and s': "s' = s\<lparr>phys_mem := (phys_mem s)(slot f (unat (PT_index v)) := e)\<rparr>"
  shows "pt_wf s' \<and> PML4 s' = PML4 s \<and> free_frames s' = free_frames s \<and>
    (\<forall>u. hw_translate u s' = (if vpage u = vpage v then if bit e 0 then Some e else None else hw_translate u s))"
proof -
  have ok: "tables_ok (phys_mem s) (root_frame s) (used_frames s)" using wf by (simp add: pt_wf_def)
  have r: "root_frame s' = root_frame s" using s' by (simp add: root_frame_def)
  have "agree (phys_mem s) (phys_mem s') (root_frame s) (path3 v) (unat (PT_index v))"
    by (rule agree_write [OF ok paths_valid(4) f indices_less(4), where B = "{}"]) (auto simp: s')
  from write_leaf [OF ok paths_valid(4) f indices_less(4) this order_refl] e have
    w: "tables_ok (phys_mem s') (root_frame s) (used_frames s)"
       "\<And>p i. valid_path p \<Longrightarrow> i < 512 \<Longrightarrow> (p, i) \<noteq> (path3 v, unat (PT_index v)) \<Longrightarrow> entry_of s' p i = entry_of s p i"
       "entry_of s' (path3 v) (unat (PT_index v)) = e"
    unfolding r by (auto simp: s')
  have wf': "pt_wf s'" using wf w(1) r s' by (simp add: pt_wf_def pmm_ok_def pmm_wf_def used_frames_def)
  have 2: "entry_of s' (path2 u) (unat (PD_index u)) = entry_of s (path2 u) (unat (PD_index u))" for u
    by (rule w(2)) (simp_all, simp add: path2_def path3_def)
  have "hw_translate u s' = (if vpage u = vpage v then if bit e 0 then Some e else None else hw_translate u s)" for u
  proof (cases "vpage u = vpage v")
    case True
    then have "hw_translate u s' = hw_translate v s'" by (rule hw_translate_same_page [OF wf'])
    also have "\<dots> = (if bit e 0 then Some e else None)"
      unfolding hw_translate_leaf [OF wf'] 2 w(3) leaf_def using nh by simp
    finally show ?thesis using True by simp
  next
    case False
    then have "(path3 u, unat (PT_index u)) \<noteq> (path3 v, unat (PT_index v))" using same_page_iff [of u v] by auto
    then have "entry_of s' (path3 u) (unat (PT_index u)) = entry_of s (path3 u) (unat (PT_index u))" by (intro w(2)) auto
    with False show ?thesis unfolding hw_translate_leaf [OF wf'] hw_translate_leaf [OF wf] 2 by simp
  qed
  then show ?thesis using wf' s' by (simp add: free_frames_def used_frames_def)
qed

section \<open>Mapping\<close>

lemma page_entry_present [simp]: "bit (page_entry flags p e) 0"
  by (simp add: page_entry_def set_common_flags_def bit_bf_set)

lemma hw_translate_None:
  assumes "pt_wf s" and "hw_translate v s = None"
  shows "\<not> huge (entry_of s (path2 v) (unat (PD_index v)))" and "\<not> bit (entry_of s (path3 v) (unat (PT_index v))) 0"
  using assms(2) unfolding hw_translate_leaf [OF assms(1)] leaf_def by (auto split: if_splits)

lemma created_last:
  assumes "created k s s'"
  shows "entry_of s' (path3 v) (unat (PT_index v)) = entry_of s (path3 v) (unat (PT_index v))"
proof -
  have "entry_of s' (path3 v) (unat (PT_index v)) = entry_of s (path3 v) (unat (PT_index v)) \<or> length (path3 v) \<le> 2"
    using assms unfolding created_def by (meson indices_less(4) paths_valid(4))
  then show ?thesis by simp
qed

lemma absent_zero:
  assumes "pt_wf s" and "valid_path p" and "i < 512" and "\<not> bit (entry_of s p i) 0"
  shows "entry_of s p i = 0"
proof (cases "table_of s p")
  case None
  then show ?thesis by (simp add: ent_def)
next
  case (Some f)
  then show ?thesis using assms unfolding pt_wf_def tables_ok_def by (simp add: ent_def)
qed

text \<open>The state after \<open>n\<close> pages from \<open>v\<close> on were mapped to \<open>p\<close> and the following frames.\<close>

definition mapped :: "nat \<Rightarrow> u64 \<Rightarrow> u64 \<Rightarrow> u64 \<Rightarrow> 'a vmm_state_scheme \<Rightarrow> 'a vmm_state_scheme \<Rightarrow> bool" where
  "mapped n flags v p s s' \<longleftrightarrow> pt_wf s' \<and> PML4 s' = PML4 s \<and> card (free_frames s) \<le> card (free_frames s') + 3 * n \<and>
     (\<forall>k<n. hw_translate (v + of_nat k * 0x1000) s' = Some (page_entry flags (p + of_nat k * 0x1000) 0)) \<and>
     (\<forall>u. (\<forall>k<n. vpage u \<noteq> vpage (v + of_nat k * 0x1000)) \<longrightarrow> hw_translate u s' = hw_translate u s)"

lemma map_step:
  assumes wf: "pt_wf s" and none: "hw_translate v s = None" and room: "3 \<le> card (free_frames s)"
    and flags: "flags AND 0x10 = 0" and i: "i < pages"
  shows "\<exists>s1. map_loop i pages flags v p s = map_loop (i + 1) pages flags (v + 0x1000) (p + 0x1000) s1 \<and>
    pt_wf s1 \<and> PML4 s1 = PML4 s \<and> card (free_frames s) \<le> card (free_frames s1) + 3 \<and>
    (\<forall>u. hw_translate u s1 = (if vpage u = vpage v then Some (page_entry flags p 0) else hw_translate u s))"
proof -
  note n = hw_translate_None [OF wf none]
  from three_walks [OF wf n(1) room] obtain d s1 g s2 f s3 where
    w: "vmm_walk_and_crate_next_table (PML4 s) (PML4_index v) s = Inr (d, s1)"
       "vmm_walk_and_crate_next_table d (PDPT_index v) s1 = Inr (table_ptr g, s2)"
       "vmm_walk_and_crate_next_table (table_ptr g) (PD_index v) s2 = Inr (table_ptr f, s3)"
    and c: "created 3 s s3" "table_of s3 (path3 v) = Some f" by blast
  have wf3: "pt_wf s3" using c(1) by (simp add: created_def)
  have "\<not> bit (entry_of s3 (path3 v) (unat (PT_index v))) 0" using n(2) created_last [OF c(1)] by simp
  then have "entry_of s3 (path3 v) (unat (PT_index v)) = 0" by (rule absent_zero [OF wf3 paths_valid(4) indices_less(4)])
  then have e: "phys_mem s3 (slot f (unat (PT_index v))) = 0" using c(2) by (simp add: ent_def)
  have t3: "hw_translate u s3 = hw_translate u s" for u by (rule created_translate [OF wf c(1)])
  then have nh: "\<not> huge (entry_of s3 (path2 v) (unat (PD_index v)))" using hw_translate_None(1) [OF wf3, of v] none by simp
  define s4 where "s4 = s3\<lparr>phys_mem := (phys_mem s3)(slot f (unat (PT_index v)) := page_entry flags p 0)\<rparr>"
  have "map_loop i pages flags v p s = map_loop (i + 1) pages flags (v + 0x1000) (p + 0x1000) s4"
    using i flags w e by (subst map_loop.simps) (simp add: mem_rd_slot mem_wr_slot pte_bits s4_def)
  moreover have "pt_wf s4 \<and> PML4 s4 = PML4 s3 \<and> free_frames s4 = free_frames s3 \<and>
    (\<forall>u. hw_translate u s4 = (if vpage u = vpage v then if bit (page_entry flags p 0) 0 then Some (page_entry flags p 0) else None
        else hw_translate u s3))"
    by (rule write_page [OF wf3 c(2) nh _ s4_def]) simp
  ultimately show ?thesis using c(1) t3 by (auto simp: created_def)
qed

text \<open>Consecutive pages are different as long as there are at most 2 to the power 36 of them.\<close>

lemma vpage_unat: "unat (vpage v) = (unat v div 4096) mod 2 ^ 36"
  unfolding vpage_def unsigned_take_bit_eq by (simp add: drop_bit_eq_div unat_div take_bit_eq_mod)

lemma vpage_of_nat: "unat (vpage (of_nat n)) = (n div 4096) mod 2 ^ 36"
proof -
  have "(n mod 2 ^ 64) div 4096 = (n div 4096) mod 2 ^ 52"
    using mod_mult2_eq [of n 4096 "2 ^ 52"] by simp
  moreover have "(m mod 2 ^ 52) mod 2 ^ 36 = m mod 2 ^ 36" for m :: nat
    by (rule mod_mod_cancel) (simp add: le_imp_power_dvd)
  ultimately show ?thesis unfolding vpage_unat unat_of_nat by (simp only: len64)
qed

lemma vpage_add: "unat (vpage (v + of_nat k * 0x1000)) = (unat (vpage v) + k) mod 2 ^ 36"
proof -
  have "v + of_nat k * 0x1000 = of_nat (unat v + k * 4096)" by simp
  then have "unat (vpage (v + of_nat k * 0x1000)) = ((unat v + k * 4096) div 4096) mod 2 ^ 36"
    by (simp only: vpage_of_nat)
  also have "\<dots> = (unat v div 4096 + k) mod 2 ^ 36" by (simp add: add.commute)
  finally show ?thesis unfolding vpage_unat by (simp only: mod_add_left_eq)
qed

lemma mod_add_inj:
  assumes "(a + k) mod B = (a + l) mod (B :: nat)" and "k < B" and "l < B"
  shows "k = l"
proof -
  have "int (a + k) mod int B = int (a + l) mod int B" using assms(1) by (simp only: zmod_int [symmetric])
  then have "int B dvd int k - int l" by (simp add: mod_eq_dvd_iff)
  moreover have "\<bar>int k - int l\<bar> < \<bar>int B\<bar>" using assms(2,3) by simp
  ultimately have "int k - int l = 0" using dvd_imp_le_int [of "int k - int l" "int B"] by linarith
  then show ?thesis by simp
qed

lemma vpage_add_inj:
  assumes "vpage (v + of_nat k * 0x1000) = vpage (v + of_nat l * 0x1000)" and "k < 2 ^ 36" and "l < 2 ^ 36"
  shows "k = l"
  by (rule mod_add_inj [OF arg_cong [OF assms(1), of unat, unfolded vpage_add] assms(2,3)])

text \<open>The first \<open>n\<close> rounds of the loop.\<close>

lemma map_prefix:
  assumes "pt_wf s" and "\<forall>k<n. hw_translate (v + of_nat k * 0x1000) s = None" and "3 * n \<le> card (free_frames s)"
    and "flags AND 0x10 = 0" and "unat i + n \<le> unat pages" and "n \<le> 2 ^ 36"
  shows "\<exists>s'. map_loop i pages flags v p s =
      map_loop (i + of_nat n) pages flags (v + of_nat n * 0x1000) (p + of_nat n * 0x1000) s' \<and> mapped n flags v p s s'"
  using assms(2,3,5,6)
proof (induction n)
  case 0
  then show ?case using assms(1) by (intro exI [of _ s]) (simp add: mapped_def)
next
  case (Suc n)
  let ?v = "v + of_nat n * 0x1000" and ?p = "p + of_nat n * 0x1000"
  from Suc obtain s1 where s1: "map_loop i pages flags v p s = map_loop (i + of_nat n) pages flags ?v ?p s1"
      "mapped n flags v p s s1" by auto
  have other: "vpage ?v \<noteq> vpage (v + of_nat k * 0x1000)" if "k < n" for k
    using vpage_add_inj [of v n k] that Suc.prems(4) by auto
  have wf1: "pt_wf s1" and room: "3 \<le> card (free_frames s1)" using s1(2) Suc.prems(2) by (auto simp: mapped_def)
  have "hw_translate ?v s1 = hw_translate ?v s" using s1(2) other by (simp add: mapped_def)
  then have none: "hw_translate ?v s1 = None" using Suc.prems(1) by simp
  have "unat i + n < 18446744073709551616"
    by (rule le_less_trans [OF _ unat_less_2p64 [of pages]]) (use Suc.prems(3) in simp)
  then have "unat (i + of_nat n) = unat i + n" by (simp add: unat_add_small)
  then have "i + of_nat n < pages" using Suc.prems(3) by (simp add: word_less_nat_alt)
  from map_step [OF wf1 none room assms(4) this, of ?p] obtain s2 where
    s2: "map_loop (i + of_nat n) pages flags ?v ?p s1 =
          map_loop (i + of_nat n + 1) pages flags (?v + 0x1000) (?p + 0x1000) s2"
        "pt_wf s2" "PML4 s2 = PML4 s1" "card (free_frames s1) \<le> card (free_frames s2) + 3"
        "\<And>u. hw_translate u s2 = (if vpage u = vpage ?v then Some (page_entry flags ?p 0) else hw_translate u s1)" by blast
  have "mapped (Suc n) flags v p s s2"
    using s1(2) s2(2-5) other not_sym [OF other] unfolding mapped_def by (auto simp: less_Suc_eq)
  moreover have e: "i + of_nat n + 1 = i + of_nat (Suc n)" "?v + 0x1000 = v + of_nat (Suc n) * 0x1000"
    "?p + 0x1000 = p + of_nat (Suc n) * 0x1000" by (simp_all add: algebra_simps)
  have "map_loop i pages flags v p s =
      map_loop (i + of_nat (Suc n)) pages flags (v + of_nat (Suc n) * 0x1000) (p + of_nat (Suc n) * 0x1000) s2"
    using trans [OF s1(1) s2(1)] unfolding e .
  ultimately show ?case by blast
qed

lemma map_all:
  assumes "pt_wf s" and "\<forall>k<unat pages. hw_translate (v + of_nat k * 0x1000) s = None"
    and "3 * unat pages \<le> card (free_frames s)" and "flags AND 0x10 = 0" and "pages \<noteq> 0" and "unat pages \<le> 2 ^ 36"
  shows "\<exists>s'. vmm_map v p pages flags s = Inr (0, s') \<and> mapped (unat pages) flags v p s s'"
proof -
  from map_prefix [OF assms(1-4), of 0 pages p] assms(6) obtain s' where
    s': "map_loop 0 pages flags v p s = map_loop pages pages flags (v + of_nat (unat pages) * 0x1000) (p + of_nat (unat pages) * 0x1000) s'"
      "mapped (unat pages) flags v p s s'" by auto
  moreover have "map_loop pages pages flags x y s' = Inr (0, s')" for x y by (subst map_loop.simps) simp
  ultimately show ?thesis using assms(5) by (auto simp: vmm_map_def)
qed

end
