(* ===== verification/Vmm_Props.thy ===== *)
theory Vmm_Props
  imports Vmm_Map
begin

text \<open>
  What the operations of \<^verbatim>\<open>memory/vmm.c\<close> promise, in terms of the translation the processor computes:
  mapping adds a run of pages, unmapping removes it, and the software walk of
  \<^verbatim>\<open>vmm_get_physical_from_virtual\<close> agrees with the hardware for pages of 4 KiB.
\<close>

section \<open>Specification\<close>

text \<open>The translation as a partial function from addresses to entries, and its two changes.\<close>

fun map_pages :: "nat \<Rightarrow> u64 \<Rightarrow> u64 \<Rightarrow> u64 \<Rightarrow> (u64 \<Rightarrow> u64 option) \<Rightarrow> u64 \<Rightarrow> u64 option" where
  "map_pages 0 flags v p t = t"
| "map_pages (Suc n) flags v p t =
     map_pages n flags (v + 0x1000) (p + 0x1000) (\<lambda>u. if vpage u = vpage v then Some (page_entry flags p 0) else t u)"

fun unmap_pages :: "nat \<Rightarrow> u64 \<Rightarrow> (u64 \<Rightarrow> u64 option) \<Rightarrow> u64 \<Rightarrow> u64 option" where
  "unmap_pages 0 v t = t"
| "unmap_pages (Suc n) v t = unmap_pages n (v + 0x1000) (\<lambda>u. if vpage u = vpage v then None else t u)"

abbreviation translation :: "'a vmm_state_scheme \<Rightarrow> u64 \<Rightarrow> u64 option" where
  "translation s \<equiv> \<lambda>u. hw_translate u s"

lemma page_shift: "v + of_nat (Suc k) * 0x1000 = v + 0x1000 + of_nat k * (0x1000 :: u64)"
  by (simp add: algebra_simps)

lemma all_shift: "(\<forall>k<Suc n. P (v + of_nat k * (0x1000 :: u64))) \<longleftrightarrow> P v \<and> (\<forall>k<n. P (v + 0x1000 + of_nat k * 0x1000))"
  unfolding All_less_Suc2 page_shift by simp

lemma map_pages_out: "\<forall>k<n. vpage u \<noteq> vpage (v + of_nat k * 0x1000) \<Longrightarrow> map_pages n flags v p t u = t u"
proof (induction n arbitrary: v p t)
  case (Suc n)
  then show ?case unfolding all_shift [of n "\<lambda>x. vpage u \<noteq> vpage x"] by simp
qed simp

lemma map_pages_in:
  "k < n \<Longrightarrow> n \<le> 2 ^ 36 \<Longrightarrow> vpage u = vpage (v + of_nat k * 0x1000) \<Longrightarrow>
   map_pages n flags v p t u = Some (page_entry flags (p + of_nat k * 0x1000) 0)"
proof (induction n arbitrary: k v p t)
  case (Suc n)
  show ?case
  proof (cases k)
    case 0
    have "vpage u \<noteq> vpage (v + 0x1000 + of_nat j * 0x1000)" if "j < n" for j
      using vpage_add_inj [of v 0 "Suc j"] that Suc.prems 0 unfolding page_shift by auto
    then show ?thesis using 0 Suc.prems by (simp add: map_pages_out)
  next
    case (Suc j)
    then show ?thesis using Suc.prems Suc.IH [of j "v + 0x1000" "p + 0x1000"] unfolding Suc page_shift by simp
  qed
qed simp

lemma mapped_map_pages:
  assumes "mapped n flags v p s s'" and "n \<le> 2 ^ 36"
  shows "translation s' = map_pages n flags v p (translation s)"
proof
  fix u
  show "hw_translate u s' = map_pages n flags v p (translation s) u"
  proof (cases "\<forall>k<n. vpage u \<noteq> vpage (v + of_nat k * 0x1000)")
    case True
    then show ?thesis using assms(1) map_pages_out [OF True] by (simp add: mapped_def)
  next
    case False
    then obtain k where k: "k < n" "vpage u = vpage (v + of_nat k * 0x1000)" by auto
    have "pt_wf s'" using assms(1) by (simp add: mapped_def)
    then have "hw_translate u s' = hw_translate (v + of_nat k * 0x1000) s'" using k(2) by (rule hw_translate_same_page)
    then show ?thesis using assms(1) k(1) map_pages_in [OF k(1) assms(2) k(2)] by (simp add: mapped_def)
  qed
qed

text \<open>Unmapping a run that was mapped gives back the translation before.\<close>

lemma unmap_pages_eq:
  "unmap_pages n v t u = (if \<exists>k<n. vpage u = vpage (v + of_nat k * 0x1000) then None else t u)"
proof (induction n arbitrary: v t)
  case (Suc n)
  have "(\<exists>k<Suc n. vpage u = vpage (v + of_nat k * 0x1000)) \<longleftrightarrow>
      vpage u = vpage v \<or> (\<exists>k<n. vpage u = vpage (v + 0x1000 + of_nat k * 0x1000))"
    unfolding Ex_less_Suc2 page_shift by simp
  then show ?case by (simp only: unmap_pages.simps Suc.IH) auto
qed simp

lemma unmap_map_pages:
  assumes "\<forall>u. (\<exists>k<n. vpage u = vpage (v + of_nat k * 0x1000)) \<longrightarrow> t u = None"
  shows "unmap_pages n v (map_pages n flags v p t) = t"
  using assms map_pages_out [of n _ v flags p t] by (fastforce simp: unmap_pages_eq)

section \<open>Pages that are mapped\<close>

lemma ent_Some: "bit (ent m r p i) 0 \<Longrightarrow> \<exists>f. tab m r p = Some f \<and> ent m r p i = m (slot f i)"
  by (auto simp: ent_def split: option.splits)

lemma mapped_walks:
  assumes wf: "pt_wf s" and t: "hw_translate v s = Some e" and e: "\<not> bit e 7"
  shows "\<exists>d g f. vmm_walk_and_crate_next_table (PML4 s) (PML4_index v) s = Inr (table_ptr d, s) \<and>
    vmm_walk_and_crate_next_table (table_ptr d) (PDPT_index v) s = Inr (table_ptr g, s) \<and>
    \<not> bit (phys_mem s (slot g (unat (PD_index v)))) 7 \<and>
    vmm_walk_and_crate_next_table (table_ptr g) (PD_index v) s = Inr (table_ptr f, s) \<and>
    table_of s (path3 v) = Some f \<and> phys_mem s (slot f (unat (PT_index v))) = e \<and>
    \<not> huge (entry_of s (path2 v) (unat (PD_index v)))"
proof -
  have l: "leaf (entry_of s (path2 v) (unat (PD_index v))) (entry_of s (path3 v) (unat (PT_index v))) = Some e"
    using t hw_translate_leaf [OF wf] by simp
  have nh: "\<not> huge (entry_of s (path2 v) (unat (PD_index v)))" using l e by (auto simp: leaf_def huge_def)
  with l have e1: "entry_of s (path3 v) (unat (PT_index v)) = e" "bit e 0" by (auto simp: leaf_def split: if_splits)
  with ent_Some obtain f where f: "table_of s (path3 v) = Some f" "phys_mem s (slot f (unat (PT_index v))) = e" by metis
  let ?l = "\<lambda>f i. link (phys_mem s (slot f i))"
  from f(1) obtain d g where dg: "?l (root_frame s) (unat (PML4_index v)) = Some d" "?l d (unat (PDPT_index v)) = Some g"
      "?l g (unat (PD_index v)) = Some f" by (auto simp: path3_def split: option.splits)
  have "PML4 s = table_ptr (root_frame s)" using wf by (simp add: pt_wf_def)
  moreover have "\<not> bit (phys_mem s (slot g (unat (PD_index v)))) 7" using dg(3) by (auto simp: link_def split: if_splits)
  ultimately show ?thesis using dg [THEN walk_present] f nh by auto
qed

lemma unmap_step:
  assumes wf: "pt_wf s" and t: "hw_translate v s = Some e" "\<not> bit e 7" and i: "i < pages"
  shows "\<exists>s1. unmap_loop i pages v s = unmap_loop (i + 1) pages (v + 0x1000) s1 \<and>
    pt_wf s1 \<and> free_frames s1 = free_frames s \<and>
    (\<forall>u. hw_translate u s1 = (if vpage u = vpage v then None else hw_translate u s))"
proof -
  from mapped_walks [OF wf t] obtain d g f where
    w: "vmm_walk_and_crate_next_table (PML4 s) (PML4_index v) s = Inr (table_ptr d, s)"
       "vmm_walk_and_crate_next_table (table_ptr d) (PDPT_index v) s = Inr (table_ptr g, s)"
       "\<not> bit (phys_mem s (slot g (unat (PD_index v)))) 7"
       "vmm_walk_and_crate_next_table (table_ptr g) (PD_index v) s = Inr (table_ptr f, s)"
    and f: "table_of s (path3 v) = Some f" "\<not> huge (entry_of s (path2 v) (unat (PD_index v)))" by blast
  define s1 where "s1 = s\<lparr>phys_mem := (phys_mem s)(slot f (unat (PT_index v)) := 0)\<rparr>"
  have "unmap_loop i pages v s = unmap_loop (i + 1) pages (v + 0x1000) s1"
    using i w by (subst unmap_loop.simps) (simp add: mem_rd_slot mem_wr_slot pte_bits s1_def)
  then show ?thesis using write_page [OF wf f _ s1_def] by auto
qed

lemma unmap_run:
  assumes "pt_wf s" and "\<forall>k<n. \<exists>e. hw_translate (v + of_nat k * 0x1000) s = Some e \<and> \<not> bit e 7"
    and "unat i + n = unat pages" and "n \<le> 2 ^ 36"
  shows "\<exists>s'. unmap_loop i pages v s = Inr (0, s') \<and> pt_wf s' \<and> free_frames s' = free_frames s \<and>
    translation s' = unmap_pages n v (translation s)"
  using assms
proof (induction n arbitrary: i v s)
  case 0
  then have "\<not> i < pages" by (simp add: word_less_nat_alt)
  then show ?case using 0 by (subst unmap_loop.simps) simp
next
  case (Suc n)
  have i: "i < pages" using Suc.prems(3) by (simp add: word_less_nat_alt)
  then have i1: "unat (i + 1) + n = unat pages" using Suc.prems(3) by (simp add: unat_Suc_less)
  from Suc.prems(2) obtain e where e: "hw_translate v s = Some e" "\<not> bit e 7" by force
  from unmap_step [OF Suc.prems(1) e i] obtain s1 where
    s1: "unmap_loop i pages v s = unmap_loop (i + 1) pages (v + 0x1000) s1" "pt_wf s1" "free_frames s1 = free_frames s"
      "\<And>u. hw_translate u s1 = (if vpage u = vpage v then None else hw_translate u s)" by blast
  have "\<exists>e. hw_translate (v + 0x1000 + of_nat k * 0x1000) s1 = Some e \<and> \<not> bit e 7" if k: "k < n" for k
  proof -
    have "vpage (v + 0x1000 + of_nat k * 0x1000) \<noteq> vpage v"
      using vpage_add_inj [of v "Suc k" 0] k Suc.prems(4) unfolding page_shift by auto
    then show ?thesis using Suc.prems(2) [rule_format, of "Suc k"] k unfolding page_shift by (simp add: s1(4))
  qed
  with Suc.IH [OF s1(2) _ i1, of "v + 0x1000"] Suc.prems(4) obtain s' where
    "unmap_loop (i + 1) pages (v + 0x1000) s1 = Inr (0, s') \<and> pt_wf s' \<and> free_frames s' = free_frames s1 \<and>
       translation s' = unmap_pages n (v + 0x1000) (translation s1)" by auto
  then show ?case using s1 by (simp only: unmap_pages.simps) auto
qed

lemma unmap_all:
  assumes "pt_wf s" and "\<forall>k<unat pages. \<exists>e. hw_translate (v + of_nat k * 0x1000) s = Some e \<and> pte_huge_page e = 0"
    and "pages \<noteq> 0" and "unat pages \<le> 2 ^ 36"
  shows "\<exists>s'. vmm_unmap v pages s = Inr (0, s') \<and> pt_wf s' \<and> free_frames s' = free_frames s \<and>
    translation s' = unmap_pages (unat pages) v (translation s)"
  using unmap_run [of s "unat pages" v 0 pages] assms unfolding pte_bits by (simp add: vmm_unmap_def)

text \<open>The entry that \<^verbatim>\<open>vmm_map\<close> writes.\<close>

lemma page_entry_not_huge [simp]: "\<not> bit (page_entry flags p 0) 7"
  by (simp add: page_entry_def set_common_flags_def bit_bf_set)

lemma page_entry_address: "unat p < 2 ^ 52 \<Longrightarrow> pte_physical_address (page_entry flags p e) = drop_bit 12 p"
proof -
  assume p: "unat p < 2 ^ 52"
  have "frame_of (page_entry flags p e) = take_bit 40 (unat (drop_bit 12 p))"
    unfolding page_entry_def by (rule frame_of_bf_set)
  also have "\<dots> = unat (drop_bit 12 p)" using p by (intro take_bit_nat_eq_self) (simp add: drop_bit_eq_div unat_div)
  finally show ?thesis by (simp add: frame_of_def)
qed

lemma get_physical_page:
  assumes "pt_wf s" and "hw_translate v s = Some e" and "\<not> bit e 7"
  shows "vmm_get_physical_from_virtual v s = Inr (push_bit 12 (pte_physical_address e) + (v AND 0xFFF), s)"
  using mapped_walks [OF assms] by (auto simp: vmm_get_physical_from_virtual_def mem_rd_slot pte_bits)

text \<open>The round of the mapping loop that finds a page present.\<close>

lemma map_until_existing:
  assumes wf: "pt_wf s" and none: "\<forall>k<n. hw_translate (v + of_nat k * 0x1000) s = None"
    and e: "hw_translate (v + of_nat n * 0x1000) s = Some e" "\<not> bit e 7"
    and room: "3 * n + 3 \<le> card (free_frames s)" and flags: "flags AND 0x10 = 0" and n: "n < unat pages" "n < 2 ^ 36"
  shows "\<exists>s'. vmm_map v p pages flags s = Inr (- EEXIST, s') \<and> pt_wf s' \<and>
    translation s' = map_pages n flags v p (translation s)"
proof -
  let ?v = "v + of_nat n * 0x1000"
  from map_prefix [OF wf none _ flags, of 0 pages p] room n obtain s1 where
    s1: "map_loop 0 pages flags v p s = map_loop (of_nat n) pages flags ?v (p + of_nat n * 0x1000) s1"
      "mapped n flags v p s s1" by auto
  have t1: "translation s1 = map_pages n flags v p (translation s)" using mapped_map_pages [OF s1(2)] n(2) by simp
  have "vpage ?v \<noteq> vpage (v + of_nat k * 0x1000)" if "k < n" for k
    using vpage_add_inj [of v n k] that n(2) by auto
  then have e1: "hw_translate ?v s1 = Some e" using s1(2) e(1) by (simp add: mapped_def)
  have wf1: "pt_wf s1" using s1(2) by (simp add: mapped_def)
  have "n < 18446744073709551616" using n(2) by simp
  then have lt: "of_nat n < pages" using n(1) by (simp add: word_less_nat_alt unat_of_nat_small)
  from mapped_walks [OF wf1 e1] e(2) obtain d g f where
    w: "vmm_walk_and_crate_next_table (PML4 s1) (PML4_index ?v) s1 = Inr (table_ptr d, s1)"
       "vmm_walk_and_crate_next_table (table_ptr d) (PDPT_index ?v) s1 = Inr (table_ptr g, s1)"
       "vmm_walk_and_crate_next_table (table_ptr g) (PD_index ?v) s1 = Inr (table_ptr f, s1)"
       "phys_mem s1 (slot f (unat (PT_index ?v))) = e" by blast
  have "bit e 0" using e1 hw_translate_leaf [OF wf1, of ?v] by (auto simp: leaf_def huge_def split: if_splits)
  then have "map_loop (of_nat n) pages flags ?v (p + of_nat n * 0x1000) s1 = Inr (- EEXIST, s1)"
    using lt flags w by (subst map_loop.simps) (simp add: mem_rd_slot pte_bits)
  moreover have "pages \<noteq> 0" using n(1) by auto
  ultimately show ?thesis using s1(1) t1 wf1 by (simp add: vmm_map_def)
qed

text \<open>Addresses in a page.\<close>

lemma offset_unat: "unat (x AND 0xFFF :: u64) = unat x mod 4096"
proof -
  have "x AND 0xFFF = take_bit 12 x" by (simp add: take_bit_eq_mask mask_eq_exp_minus_1)
  then have "unat (x AND 0xFFF) = take_bit 12 (unat x)" by (simp only: unsigned_take_bit_eq)
  then show ?thesis by (simp add: take_bit_eq_mod)
qed

lemma page_multiple: "unat (v + of_nat k * 0x1000 :: u64) mod 4096 = unat v mod 4096"
proof -
  have "v + of_nat k * 0x1000 = of_nat (unat v + k * 4096)" by simp
  then have "unat (v + of_nat k * 0x1000) mod 4096 = (unat v + k * 4096) mod 2 ^ 64 mod 4096"
    by (simp only: unat_of_nat len64)
  also have "\<dots> = (unat v + k * 4096) mod 4096" by (rule mod_mod_cancel) simp
  finally show ?thesis by simp
qed

lemma page_offset:
  assumes "unat w mod 4096 = 0" and "off < 0x1000"
  shows "vpage (w + off) = vpage w \<and> w + off AND 0xFFF = off \<and> push_bit 12 (drop_bit 12 w) = w"
proof -
  have off: "unat off < 4096" using assms(2) by (simp add: word_less_nat_alt)
  obtain q where q: "unat w = 4096 * q" using assms(1) by auto
  then have "q < 2 ^ 52" using unat_less_2p64 [of w] by (simp del: unat_less_2p64)
  then have sum: "unat (w + off) = unat w + unat off" using q off by (intro unat_add_small) simp
  have "unat (w + off) div 4096 = unat w div 4096" unfolding sum q using off by simp
  then have "vpage (w + off) = vpage w" by (intro word_unat_eq_iff [THEN iffD2]) (simp only: vpage_unat)
  moreover have "unat (w + off AND 0xFFF) = unat off" unfolding offset_unat sum q using off by simp
  moreover have "unat (push_bit 12 (drop_bit 12 w)) = unat w"
  proof -
    have "unat (drop_bit 12 w) = q" using q by (simp add: drop_bit_eq_div unat_div)
    then have "unat (drop_bit 12 w * 4096) = unat w" using q unat_less_2p64 [of w]
      by (subst unat_mult_small) (simp_all del: unat_less_2p64)
    then show ?thesis by (simp only: push_bit_eq_mult) simp
  qed
  ultimately show ?thesis by (blast intro: word_unat_eq_iff [THEN iffD2])
qed

lemma page_add_bound: "k < n \<Longrightarrow> unat p + 4096 * n \<le> 2 ^ 52 \<Longrightarrow> unat (p + of_nat k * 0x1000 :: u64) < 2 ^ 52"
proof -
  assume k: "k < n" "unat p + 4096 * n \<le> 2 ^ 52"
  have "p + of_nat k * 0x1000 = of_nat (unat p + k * 4096)" by simp
  then have "unat (p + of_nat k * 0x1000) = unat p + k * 4096" using k by (simp only:) (rule unat_of_nat_small, simp)
  then show ?thesis using k by simp
qed

lemma all_less_two: "(\<forall>k<2. P k) \<longleftrightarrow> P 0 \<and> P (1 :: nat)"
  by (auto simp: less_2_cases_iff)

section \<open>Properties\<close>

text \<open>The machine of the examples: 64 frames, an empty top-level table in frame 0.\<close>

definition vmm_small :: vmm_state where
  "vmm_small = \<lparr>bitmap = 1 # replicate 7 0, bitmap_size_bytes = 8, bitmap_size_frames = 64,
     memory_total_frame_count = 64, memory_used_frame_count = 1, phys_mem = (\<lambda>_. 0), PML4 = DIRECT_MAP_BASE\<rparr>"

lemma vmm_small_used: "used_frames vmm_small = {0}"
  using pmm_small_used by (simp add: used_frames_def vmm_small_def pmm_small_def)

lemma vmm_small_free: "card (free_frames vmm_small) = 63"
proof -
  have "free_frames vmm_small = {1..<64}" unfolding free_frames_def vmm_small_used by (auto simp: vmm_small_def)
  then show ?thesis by simp
qed

lemma tab_zero: "tab (\<lambda>_. 0) r p = Some f \<longleftrightarrow> p = [] \<and> f = r"
  by (cases p) auto

lemma vmm_small_wf: "pt_wf vmm_small"
proof -
  have "pmm_ok vmm_small"
    using pmm_small_ok by (simp add: pmm_ok_def pmm_wf_def vmm_small_def pmm_small_def used_frames_def)
  moreover have "root_frame vmm_small = 0" by (simp add: root_frame_def vmm_small_def)
  moreover have "tables_ok (\<lambda>_. 0) 0 {0}" by (simp add: tables_ok_def tab_zero)
  ultimately show ?thesis unfolding pt_wf_def vmm_small_used by (simp add: vmm_small_def table_ptr_def)
qed

lemma vmm_small_empty: "hw_translate v vmm_small = None"
  by (simp add: hw_translate_def hw_entry_def mem_rd_def vmm_small_def pte_bits)

text \<open>C2: On well-formed page tables with enough free frames for new tables, mapping a run of unmapped
  4 KiB pages succeeds, keeps the tables well formed, and changes the translation the processor computes
  exactly as specified: each page of the run gets its entry and nothing else changes.\<close>

theorem vmm_map_refines_map_pages:
  assumes "pt_wf s" and "\<forall>k<unat pages. hw_translate (v + of_nat k * 0x1000) s = None"
    and "3 * unat pages \<le> card (free_frames s)" and "flags AND 0x10 = 0" and "pages \<noteq> 0" and "unat pages \<le> 2 ^ 36"
  shows "\<exists>s'. vmm_map v p pages flags s = Inr (0, s') \<and> pt_wf s' \<and>
    (\<lambda>u. hw_translate u s') = map_pages (unat pages) flags v p (\<lambda>u. hw_translate u s)"
  using map_all [OF assms] mapped_map_pages [OF _ assms(6)] by (metis mapped_def)

theorem vmm_map_refines_map_pages_witness:
  "\<exists>s'. vmm_map 0x400000 0x7000 2 1 vmm_small = Inr (0, s') \<and> pt_wf s' \<and>
    (\<lambda>u. hw_translate u s') = map_pages 2 1 0x400000 0x7000 (\<lambda>u. hw_translate u vmm_small)"
  using vmm_map_refines_map_pages [OF vmm_small_wf, of 2 "0x400000" 1 "0x7000"]
  by (simp add: vmm_small_empty vmm_small_free)

text \<open>C21: When a page of the run is already mapped, \<^verbatim>\<open>vmm_map\<close> returns \<^verbatim>\<open>-EEXIST\<close>. The pages before it
  stay mapped and the existing mapping is not touched: there is no rollback.\<close>

theorem vmm_map_existing_page:
  assumes "pt_wf s" and "\<forall>k<n. hw_translate (v + of_nat k * 0x1000) s = None"
    and "hw_translate (v + of_nat n * 0x1000) s = Some e" and "pte_huge_page e = 0"
    and "3 * n + 3 \<le> card (free_frames s)" and "flags AND 0x10 = 0" and "n < unat pages" and "n < 2 ^ 36"
  shows "\<exists>s'. vmm_map v p pages flags s = Inr (- EEXIST, s') \<and> pt_wf s' \<and>
    (\<lambda>u. hw_translate u s') = map_pages n flags v p (\<lambda>u. hw_translate u s)"
  using map_until_existing [OF assms(1-3) assms(4) [unfolded pte_bits] assms(5-)] by blast

theorem vmm_map_existing_page_witness:
  "\<exists>s1 s2. vmm_map 0x402000 0x9000 1 1 vmm_small = Inr (0, s1) \<and>
     vmm_map 0x400000 0x7000 3 1 s1 = Inr (- EEXIST, s2) \<and> pt_wf s2 \<and>
     (\<lambda>u. hw_translate u s2) = map_pages 2 1 0x400000 0x7000 (\<lambda>u. hw_translate u s1)"
proof -
  from map_all [OF vmm_small_wf, of 1 "0x402000" 1 "0x9000"] obtain s1 where
    s1: "vmm_map 0x402000 0x9000 1 1 vmm_small = Inr (0, s1)" "mapped 1 1 0x402000 0x9000 vmm_small s1"
    by (auto simp: vmm_small_empty vmm_small_free)
  have t: "hw_translate u s1 = (if vpage u = vpage 0x402000 then Some (page_entry 1 0x9000 0) else None)" for u
    using fun_cong [OF mapped_map_pages [OF s1(2)], of u] by (simp add: vmm_small_empty)
  have "vpage 0x400000 \<noteq> vpage 0x402000" "vpage 0x401000 \<noteq> vpage 0x402000" by (simp_all add: vpage_def)
  moreover have "pt_wf s1" "60 \<le> card (free_frames s1)" using s1(2) vmm_small_free by (auto simp: mapped_def)
  ultimately have "\<exists>s2. vmm_map 0x400000 0x7000 3 1 s1 = Inr (- EEXIST, s2) \<and> pt_wf s2 \<and>
     (\<lambda>u. hw_translate u s2) = map_pages 2 1 0x400000 0x7000 (\<lambda>u. hw_translate u s1)"
    by (intro vmm_map_existing_page [where e = "page_entry 1 0x9000 0"])
       (simp_all add: t pte_bits all_less_two)
  then show ?thesis using s1(1) by blast
qed



text \<open>C4: Unmapping a run of mapped 4 KiB pages succeeds, removes exactly these pages from the translation,
  keeps the tables well formed and neither takes nor releases a frame.\<close>

theorem vmm_unmap_refines_unmap_pages:
  assumes "pt_wf s" and "\<forall>k<unat pages. \<exists>e. hw_translate (v + of_nat k * 0x1000) s = Some e \<and> pte_huge_page e = 0"
    and "pages \<noteq> 0" and "unat pages \<le> 2 ^ 36"
  shows "\<exists>s'. vmm_unmap v pages s = Inr (0, s') \<and> pt_wf s' \<and> free_frames s' = free_frames s \<and>
    (\<lambda>u. hw_translate u s') = unmap_pages (unat pages) v (\<lambda>u. hw_translate u s)"
  by (rule unmap_all [OF assms])

theorem vmm_unmap_refines_unmap_pages_witness:
  "\<exists>s1 s2. vmm_map 0x400000 0x7000 3 1 vmm_small = Inr (0, s1) \<and> vmm_unmap 0x401000 2 s1 = Inr (0, s2) \<and>
     pt_wf s2 \<and> free_frames s2 = free_frames s1 \<and>
     (\<lambda>u. hw_translate u s2) = unmap_pages 2 0x401000 (\<lambda>u. hw_translate u s1)"
proof -
  from map_all [OF vmm_small_wf, of 3 "0x400000" 1 "0x7000"] obtain s1 where
    s1: "vmm_map 0x400000 0x7000 3 1 vmm_small = Inr (0, s1)" "mapped 3 1 0x400000 0x7000 vmm_small s1"
    by (auto simp: vmm_small_empty vmm_small_free)
  then have wf: "pt_wf s1" and t: "\<forall>k<3. hw_translate (0x400000 + of_nat k * 0x1000) s1 = Some (page_entry 1 (0x7000 + of_nat k * 0x1000) 0)"
    by (simp_all add: mapped_def)
  have "hw_translate 0x401000 s1 = Some (page_entry 1 0x8000 0)" "hw_translate 0x402000 s1 = Some (page_entry 1 0x9000 0)"
    using t [rule_format, of 1] t [rule_format, of 2] by simp_all
  then have "\<exists>s2. vmm_unmap 0x401000 2 s1 = Inr (0, s2) \<and> pt_wf s2 \<and> free_frames s2 = free_frames s1 \<and>
     (\<lambda>u. hw_translate u s2) = unmap_pages (unat (2 :: u64)) 0x401000 (\<lambda>u. hw_translate u s1)"
    by (intro vmm_unmap_refines_unmap_pages [OF wf]) (simp_all add: pte_bits all_less_two)
  then show ?thesis using s1(1) by simp
qed

text \<open>C22: Unmapping what was mapped gives back the translation there was before.\<close>

theorem vmm_map_unmap_roundtrip:
  assumes "pt_wf s" and "\<forall>k<unat pages. hw_translate (v + of_nat k * 0x1000) s = None"
    and "3 * unat pages \<le> card (free_frames s)" and "flags AND 0x10 = 0" and "pages \<noteq> 0" and "unat pages \<le> 2 ^ 36"
  shows "\<exists>s1 s2. vmm_map v p pages flags s = Inr (0, s1) \<and> vmm_unmap v pages s1 = Inr (0, s2) \<and>
    (\<lambda>u. hw_translate u s2) = (\<lambda>u. hw_translate u s)"
proof -
  from map_all [OF assms] obtain s1 where s1: "vmm_map v p pages flags s = Inr (0, s1)" "mapped (unat pages) flags v p s s1" by blast
  have "\<forall>k<unat pages. \<exists>e. hw_translate (v + of_nat k * 0x1000) s1 = Some e \<and> pte_huge_page e = 0" "pt_wf s1"
    using s1(2) by (simp_all add: mapped_def pte_bits)
  from unmap_all [OF this(2,1) assms(5,6)] obtain s2 where
    s2: "vmm_unmap v pages s1 = Inr (0, s2)" "translation s2 = unmap_pages (unat pages) v (translation s1)" by blast
  have "\<forall>u. (\<exists>k<unat pages. vpage u = vpage (v + of_nat k * 0x1000)) \<longrightarrow> hw_translate u s = None"
    using hw_translate_same_page [OF assms(1)] assms(2) by metis
  from unmap_map_pages [OF this, of flags p] have "translation s2 = translation s"
    using s2(2) mapped_map_pages [OF s1(2) assms(6)] by simp
  then show ?thesis using s1(1) s2(1) by blast
qed

theorem vmm_map_unmap_roundtrip_witness:
  "\<exists>s1 s2. vmm_map 0x400000 0x7000 2 1 vmm_small = Inr (0, s1) \<and> vmm_unmap 0x400000 2 s1 = Inr (0, s2) \<and>
    (\<lambda>u. hw_translate u s2) = (\<lambda>u. hw_translate u vmm_small)"
  using vmm_map_unmap_roundtrip [OF vmm_small_wf, of 2 "0x400000" 1 "0x7000"]
  by (simp add: vmm_small_empty vmm_small_free)



end
