(* ===== verification/Vmm_Huge.thy ===== *)
theory Vmm_Huge
  imports Vmm_Props
begin

text \<open>
  Huge pages of \<^verbatim>\<open>memory/vmm.c\<close>: a mapping of 2 MiB pages writes entries of the third level, and every
  page of a run is mapped to the same physical address.
\<close>

section \<open>Regions of 2 MiB\<close>

definition vregion :: "u64 \<Rightarrow> u64" where
  "vregion v = take_bit 27 (drop_bit 21 v)"

lemma vregion_eq_iff: "vregion u = vregion v \<longleftrightarrow> (\<forall>n<27. bit u (21 + n) = bit v (21 + n))"
  by (simp add: vregion_def bit_eq_iff bit_take_bit_iff bit_drop_bit_eq bounded_bits)

lemma all_27: "(\<forall>n<27. P (21 + n)) \<longleftrightarrow> (\<forall>n<9. P (21 + n)) \<and> (\<forall>n<9. P (30 + n)) \<and> (\<forall>n<9. P (39 + n :: nat))"
proof -
  have "(\<forall>n<27. P (21 + n)) \<longleftrightarrow> (\<forall>n<36. (\<lambda>m. m < 21 \<or> P m) (12 + n))" (is "?l \<longleftrightarrow> ?r")
  proof
    assume l: ?l
    have "12 + n < 21 \<or> P (12 + n)" if "n < 36" for n
    proof (cases "n < 9")
      case False
      then have "n - 9 < 27" using that by simp
      then have "P (21 + (n - 9))" using l by blast
      then show ?thesis using False by simp
    qed simp
    then show ?r by blast
  next
    assume r: ?r
    show ?l
    proof (intro allI impI)
      fix n :: nat assume "n < 27"
      then show "P (21 + n)" using r [rule_format, of "n + 9"] by (simp add: add.commute)
    qed
  qed
  then show ?thesis using all_36 [of "\<lambda>m. m < 21 \<or> P m"] by simp
qed

lemma same_region_iff: "path2 u = path2 v \<and> unat (PD_index u) = unat (PD_index v) \<longleftrightarrow> vregion u = vregion v"
  unfolding vregion_eq_iff all_27 [of "\<lambda>n. bit u n = bit v n"] path2_def
  by (auto simp: PML4_index_def PDPT_index_def PD_index_def index_eq_iff)

lemma same_region_path2: "vregion u = vregion v \<Longrightarrow> path2 u = path2 v \<and> PD_index u = PD_index v"
  using same_region_iff [of u v] by auto

lemma vregion_unat: "unat (vregion v) = unat (vpage v) div 512"
proof -
  have "unat (vregion v) = (unat v div 2097152) mod 2 ^ 27"
    unfolding vregion_def unsigned_take_bit_eq by (simp add: drop_bit_eq_div unat_div take_bit_eq_mod)
  moreover have "(m mod 2 ^ 36) div 512 = (m div 512) mod 2 ^ 27" for m :: nat
    using mod_mult2_eq [of m 512 "2 ^ 27"] by simp
  ultimately show ?thesis unfolding vpage_unat by (simp add: div_mult2_eq [symmetric])
qed

lemma vregion_add: "unat (vregion (v + of_nat k * 0x200000)) = (unat (vregion v) + k) mod 2 ^ 27"
proof -
  have "v + of_nat k * 0x200000 = v + of_nat (512 * k) * (0x1000 :: u64)" by simp
  then have "unat (vregion (v + of_nat k * 0x200000)) = (unat (vpage v) + 512 * k) mod 2 ^ 36 div 512"
    unfolding vregion_unat by (simp only: vpage_add)
  also have "\<dots> = ((unat (vpage v) + 512 * k) div 512) mod 2 ^ 27"
    using mod_mult2_eq [of "unat (vpage v) + 512 * k" 512 "2 ^ 27"] by simp
  also have "\<dots> = (unat (vregion v) + k) mod 2 ^ 27" unfolding vregion_unat by (simp add: add.commute)
  finally show ?thesis .
qed

lemma vregion_add_inj:
  assumes "vregion (v + of_nat k * 0x200000) = vregion (v + of_nat l * 0x200000)" and "k < 2 ^ 27" and "l < 2 ^ 27"
  shows "k = l"
  by (rule mod_add_inj [OF arg_cong [OF assms(1), of unat, unfolded vregion_add] assms(2,3)])

section \<open>Writing a huge entry\<close>

lemma write_huge:
  assumes wf: "pt_wf s" and g: "table_of s (path2 v) = Some g" and z: "phys_mem s (slot g (unat (PD_index v))) = 0"
    and e: "huge e" and s': "s' = s\<lparr>phys_mem := (phys_mem s)(slot g (unat (PD_index v)) := e)\<rparr>"
  shows "pt_wf s' \<and> PML4 s' = PML4 s \<and> free_frames s' = free_frames s \<and>
    (\<forall>u. hw_translate u s' = (if vregion u = vregion v then Some e else hw_translate u s)) \<and>
    (\<forall>u. entry_of s' (path2 u) (unat (PD_index u)) = (if vregion u = vregion v then e else entry_of s (path2 u) (unat (PD_index u))))"
proof -
  have ok: "tables_ok (phys_mem s) (root_frame s) (used_frames s)" using wf by (simp add: pt_wf_def)
  have r: "root_frame s' = root_frame s" using s' by (simp add: root_frame_def)
  have "agree (phys_mem s) (phys_mem s') (root_frame s) (path2 v) (unat (PD_index v))"
    by (rule agree_write [OF ok paths_valid(3) g indices_less(3), where B = "{}"]) (auto simp: s')
  from write_leaf [OF ok paths_valid(3) g indices_less(3) this order_refl] e z have
    w: "tables_ok (phys_mem s') (root_frame s) (used_frames s)"
       "\<And>p i. valid_path p \<Longrightarrow> i < 512 \<Longrightarrow> (p, i) \<noteq> (path2 v, unat (PD_index v)) \<Longrightarrow> entry_of s' p i = entry_of s p i"
       "entry_of s' (path2 v) (unat (PD_index v)) = e"
    unfolding r by (auto simp: s' huge_def link_def)
  have wf': "pt_wf s'" using wf w(1) r s' by (simp add: pt_wf_def pmm_ok_def pmm_wf_def used_frames_def)
  have 2: "entry_of s' (path2 u) (unat (PD_index u)) = (if vregion u = vregion v then e else entry_of s (path2 u) (unat (PD_index u)))" for u
  proof (cases "vregion u = vregion v")
    case True
    then show ?thesis using same_region_path2 [of u v] w(3) by simp
  next
    case False
    then have "(path2 u, unat (PD_index u)) \<noteq> (path2 v, unat (PD_index v))" using same_region_iff [of u v] by auto
    then show ?thesis using w(2) [OF paths_valid(3) indices_less(3)] False by simp
  qed
  have 3: "entry_of s' (path3 u) (unat (PT_index u)) = entry_of s (path3 u) (unat (PT_index u))" for u
    by (rule w(2)) (simp_all, simp add: path2_def path3_def)
  have "hw_translate u s' = (if vregion u = vregion v then Some e else hw_translate u s)" for u
    unfolding hw_translate_leaf [OF wf'] hw_translate_leaf [OF wf] 2 3 using e by (simp add: leaf_def)
  then show ?thesis using wf' s' 2 by (simp add: free_frames_def used_frames_def)
qed

lemma huge_entry_huge [simp]: "huge (huge_entry flags p e)"
  by (simp add: huge_def huge_entry_def set_common_flags_def bit_bf_set)

text \<open>The state after \<open>n\<close> huge pages from \<open>v\<close> on were mapped, all to \<open>p\<close>.\<close>

definition huge_mapped :: "nat \<Rightarrow> u64 \<Rightarrow> u64 \<Rightarrow> u64 \<Rightarrow> 'a vmm_state_scheme \<Rightarrow> 'a vmm_state_scheme \<Rightarrow> bool" where
  "huge_mapped n flags v p s s' \<longleftrightarrow> pt_wf s' \<and> PML4 s' = PML4 s \<and> card (free_frames s) \<le> card (free_frames s') + 2 * n \<and>
     (\<forall>u. hw_translate u s' = (if \<exists>k<n. vregion u = vregion (v + of_nat k * 0x200000) then Some (huge_entry flags p 0) else hw_translate u s)) \<and>
     (\<forall>u. entry_of s' (path2 u) (unat (PD_index u)) =
        (if \<exists>k<n. vregion u = vregion (v + of_nat k * 0x200000) then huge_entry flags p 0 else entry_of s (path2 u) (unat (PD_index u))))"

lemma huge_step:
  assumes wf: "pt_wf s" and z: "entry_of s (path2 v) (unat (PD_index v)) = 0" and room: "2 \<le> card (free_frames s)"
    and flags: "flags AND 0x10 \<noteq> 0" and i: "i < pages"
  shows "\<exists>s1. map_loop i pages flags v p s = map_loop (i + 1) pages flags (v + 0x200000) p s1 \<and> huge_mapped 1 flags v p s s1"
proof -
  from upper_walks [OF wf room, of v] obtain d s1 g s2 where
    w: "vmm_walk_and_crate_next_table (PML4 s) (PML4_index v) s = Inr (d, s1)"
       "vmm_walk_and_crate_next_table d (PDPT_index v) s1 = Inr (table_ptr g, s2)"
    and c: "created 2 s s2" "table_of s2 (path2 v) = Some g"
       "\<forall>q j. valid_path q \<longrightarrow> j < 512 \<longrightarrow> length q = 2 \<longrightarrow> entry_of s2 q j = entry_of s q j" by blast
  have wf2: "pt_wf s2" using c(1) by (simp add: created_def)
  have e2: "entry_of s2 (path2 u) (unat (PD_index u)) = entry_of s (path2 u) (unat (PD_index u))" for u using c(3) by simp
  then have z2: "phys_mem s2 (slot g (unat (PD_index v))) = 0" using e2 [of v] z c(2) by (simp add: ent_def)
  define s3 where "s3 = s2\<lparr>phys_mem := (phys_mem s2)(slot g (unat (PD_index v)) := huge_entry flags p 0)\<rparr>"
  have "map_loop i pages flags v p s = map_loop (i + 1) pages flags (v + 0x200000) p s3"
    using i flags w z2 by (subst map_loop.simps) (simp add: mem_rd_slot mem_wr_slot pte_bits s3_def)
  moreover have "huge_mapped 1 flags v p s s3"
    using write_huge [OF wf2 c(2) z2 huge_entry_huge s3_def] c(1) created_translate [OF wf c(1)] e2
    by (simp add: huge_mapped_def created_def)
  ultimately show ?thesis by blast
qed

lemma huge_mapped_Suc:
  assumes "huge_mapped n flags v p s s1" and "huge_mapped 1 flags (v + of_nat n * 0x200000) p s1 s2"
  shows "huge_mapped (Suc n) flags v p s s2"
proof -
  have "(\<exists>k<Suc n. vregion u = vregion (v + of_nat k * 0x200000)) \<longleftrightarrow>
      vregion u = vregion (v + of_nat n * 0x200000) \<or> (\<exists>k<n. vregion u = vregion (v + of_nat k * 0x200000))" for u
    by (auto simp: less_Suc_eq)
  then show ?thesis using assms unfolding huge_mapped_def by simp blast
qed

lemma huge_prefix:
  assumes "pt_wf s" and "\<forall>k<n. entry_of s (path2 (v + of_nat k * 0x200000)) (unat (PD_index (v + of_nat k * 0x200000))) = 0"
    and "2 * n \<le> card (free_frames s)" and "flags AND 0x10 \<noteq> 0" and "n \<le> unat pages" and "n \<le> 2 ^ 27"
  shows "\<exists>s'. map_loop 0 pages flags v p s = map_loop (of_nat n) pages flags (v + of_nat n * 0x200000) p s' \<and> huge_mapped n flags v p s s'"
  using assms(2,3,5,6)
proof (induction n)
  case 0
  then show ?case using assms(1) by (intro exI [of _ s]) (simp add: huge_mapped_def)
next
  case (Suc n)
  let ?v = "v + of_nat n * 0x200000"
  from Suc obtain s1 where s1: "map_loop 0 pages flags v p s = map_loop (of_nat n) pages flags ?v p s1"
      "huge_mapped n flags v p s s1" by auto
  have "vregion ?v \<noteq> vregion (v + of_nat k * 0x200000)" if "k < n" for k
    using vregion_add_inj [of v n k] that Suc.prems(4) by auto
  then have z: "entry_of s1 (path2 ?v) (unat (PD_index ?v)) = 0" using s1(2) Suc.prems(1) unfolding huge_mapped_def by auto
  have wf1: "pt_wf s1" and room: "2 \<le> card (free_frames s1)" using s1(2) Suc.prems(2) by (auto simp: huge_mapped_def)
  have "n < 2 ^ 64" using Suc.prems(4) by simp
  then have "of_nat n < pages" using Suc.prems(3) by (simp add: word_less_nat_alt)
  from huge_step [OF wf1 z room assms(4) this, of p] obtain s2 where
    s2: "map_loop (of_nat n) pages flags ?v p s1 = map_loop (of_nat n + 1) pages flags (?v + 0x200000) p s2"
      "huge_mapped 1 flags ?v p s1 s2" by blast
  have e: "of_nat n + 1 = (of_nat (Suc n) :: u64)" "?v + 0x200000 = v + of_nat (Suc n) * 0x200000" by (simp_all add: algebra_simps)
  show ?case using trans [OF s1(1) s2(1)] huge_mapped_Suc [OF s1(2) s2(2)] unfolding e by blast
qed

lemma huge_all:
  assumes "pt_wf s" and "\<forall>k<unat pages. entry_of s (path2 (v + of_nat k * 0x200000)) (unat (PD_index (v + of_nat k * 0x200000))) = 0"
    and "2 * unat pages \<le> card (free_frames s)" and "flags AND 0x10 \<noteq> 0" and "pages \<noteq> 0" and "unat pages \<le> 2 ^ 27"
  shows "\<exists>s'. vmm_map v p pages flags s = Inr (0, s') \<and> huge_mapped (unat pages) flags v p s s'"
proof -
  from huge_prefix [OF assms(1-4) order_refl assms(6), of p] obtain s' where
    s': "map_loop 0 pages flags v p s = map_loop pages pages flags (v + of_nat (unat pages) * 0x200000) p s'"
      "huge_mapped (unat pages) flags v p s s'" by auto
  moreover have "map_loop pages pages flags x y s' = Inr (0, s')" for x y by (subst map_loop.simps) simp
  ultimately show ?thesis using assms(5) by (auto simp: vmm_map_def)
qed

text \<open>The software walk inside a huge page.\<close>

lemma get_physical_huge:
  assumes "pt_wf s" and "entry_of s (path2 v) (unat (PD_index v)) = e" and "huge e"
  shows "vmm_get_physical_from_virtual v s = Inr (push_bit 12 (pte_physical_address e), s)"
proof -
  let ?l = "\<lambda>f i. link (phys_mem s (slot f i))"
  from assms(2,3) ent_Some [of "phys_mem s" "root_frame s" "path2 v" "unat (PD_index v)"] obtain f where
    f: "table_of s (path2 v) = Some f" "phys_mem s (slot f (unat (PD_index v))) = e" by (auto simp: huge_def)
  then obtain d where d: "?l (root_frame s) (unat (PML4_index v)) = Some d" "?l d (unat (PDPT_index v)) = Some f"
    by (auto simp: path2_def split: option.splits)
  have "PML4 s = table_ptr (root_frame s)" using assms(1) by (simp add: pt_wf_def)
  then show ?thesis
    using d [THEN walk_present] f(2) assms(3) by (simp add: vmm_get_physical_from_virtual_def mem_rd_slot pte_bits huge_def)
qed

lemma bit_masks: "bit (0x1FF :: u64) n \<longleftrightarrow> n < 9" "bit (0x1FFFFF :: u64) n \<longleftrightarrow> n < 21"
proof -
  have m: "(0x1FF :: u64) = mask 9" "(0x1FFFFF :: u64) = mask 21" by (simp_all add: mask_eq_exp_minus_1)
  show "bit (0x1FF :: u64) n \<longleftrightarrow> n < 9" "bit (0x1FFFFF :: u64) n \<longleftrightarrow> n < 21" unfolding m bit_mask_iff by auto
qed

lemma bit_beyond:
  assumes "unat p < 2 ^ k" and "k \<le> n"
  shows "\<not> bit (p :: u64) n"
proof -
  have "take_bit k (unat p) = unat p" using assms(1) by (rule take_bit_nat_eq_self)
  then have "\<not> bit (unat p) n" using assms(2) by (metis bit_take_bit_iff not_le)
  then show ?thesis by (simp add: bit_unsigned_iff)
qed

lemma huge_entry_address:
  assumes "unat p < 2 ^ 52" and "p AND 0x1FFFFF = 0"
  shows "push_bit 12 (pte_physical_address (huge_entry flags p e)) = p"
proof (rule bit_eqI)
  fix n assume "possible_bit TYPE(u64) n"
  then have n: "n < 64" by simp
  have low: "\<not> bit p n" if "n < 21"
  proof -
    have "bit (p AND 0x1FFFFF) n = (bit p n \<and> n < 21)" unfolding bit_and_iff bit_masks ..
    then show ?thesis using that assms(2) by simp
  qed
  have high: "\<not> bit p n" if "52 \<le> n" using assms(1) that by (rule bit_beyond)
  show "bit (push_bit 12 (pte_physical_address (huge_entry flags p e))) n = bit p n"
    unfolding huge_entry_def pte_physical_address_bf_set bit_push_bit_iff bit_take_bit_iff bit_and_iff bit_not_iff
      bit_drop_bit_eq bit_masks
    using n low high by (cases "n < 21"; cases "52 \<le> n") auto
qed

section \<open>Properties\<close>

text \<open>C26: Mapping a run of huge pages maps every page of the run to the same physical address, the one
  that was passed: the loop advances the virtual address only.\<close>

theorem vmm_map_huge_run_same_frame:
  assumes "pt_wf s" and "\<forall>k<unat pages. entry_of s (path2 (v + of_nat k * 0x200000)) (unat (PD_index (v + of_nat k * 0x200000))) = 0"
    and "2 * unat pages \<le> card (free_frames s)" and "flags AND 0x10 \<noteq> 0" and "pages \<noteq> 0" and "unat pages \<le> 2 ^ 27"
    and "k < unat pages"
  shows "\<exists>s'. vmm_map v p pages flags s = Inr (0, s') \<and> pt_wf s' \<and>
    hw_translate (v + of_nat k * 0x200000) s' = Some (huge_entry flags p 0)"
  using huge_all [OF assms(1-6), of p] assms(7) unfolding huge_mapped_def by auto

lemma vmm_small_entries: "entry_of vmm_small q i = 0"
  by (simp add: ent_def vmm_small_def split: option.split)

theorem vmm_map_huge_run_same_frame_witness:
  "\<exists>s'. vmm_map 0x40000000 0x200000 4 0x11 vmm_small = Inr (0, s') \<and> pt_wf s' \<and>
    hw_translate 0x40600000 s' = Some (huge_entry 0x11 0x200000 0)"
  using vmm_map_huge_run_same_frame [OF vmm_small_wf, of 4 "0x40000000" "0x11" 3 "0x200000"]
  by (simp add: vmm_small_entries vmm_small_free)

text \<open>For an address inside a huge page the software walk answers the base of the page: the offset is
  dropped, unlike for pages of 4 KiB.\<close>

theorem vmm_get_physical_huge_drops_offset:
  assumes "pt_wf s" and "entry_of s (path2 v) (unat (PD_index v)) = 0" and "2 \<le> card (free_frames s)"
    and "flags AND 0x10 \<noteq> 0" and "p AND 0x1FFFFF = 0" and "unat p < 2 ^ 52" and "vregion u = vregion v"
  shows "\<exists>s'. vmm_map v p 1 flags s = Inr (0, s') \<and> vmm_get_physical_from_virtual u s' = Inr (p, s')"
proof -
  from huge_all [OF assms(1) _ _ assms(4), of 1 v p] assms(2,3) obtain s' where
    s': "vmm_map v p 1 flags s = Inr (0, s')" "huge_mapped 1 flags v p s s'" by auto
  then have "pt_wf s'" "entry_of s' (path2 u) (unat (PD_index u)) = huge_entry flags p 0"
    using assms(7) by (simp_all add: huge_mapped_def)
  from get_physical_huge [OF this huge_entry_huge] s'(1) huge_entry_address [OF assms(6,5)] show ?thesis by simp
qed

theorem vmm_get_physical_huge_drops_offset_witness:
  "\<exists>s'. vmm_map 0x40000000 0x200000 1 0x11 vmm_small = Inr (0, s') \<and> vmm_get_physical_from_virtual 0x40012345 s' = Inr (0x200000, s')"
  using vmm_get_physical_huge_drops_offset [OF vmm_small_wf, of "0x40000000" "0x11" "0x200000" "0x40012345"]
  by (simp add: vmm_small_entries vmm_small_free vregion_def)

end
