(* ===== verification/Ahci_Props.thy ===== *)
theory Ahci_Props
  imports Ahci Vmm_Huge
begin

text \<open>
  The table of physical regions that the AHCI driver builds for a transfer lists exactly the physical
  bytes of the buffer, in order, and stays inside the page that was allocated for it.
\<close>

section \<open>Entries of the table\<close>

definition prdt_address :: "u64 \<Rightarrow> nat \<Rightarrow> u64" where
  "prdt_address cmdtbl i = cmdtbl + of_nat (0x80 + 16 * i)"

text \<open>The region that the controller reads from an entry: its address and its length.\<close>

definition prdt_entry :: "memory \<Rightarrow> u64 \<Rightarrow> nat \<Rightarrow> u64 \<times> u64" where
  "prdt_entry m cmdtbl i =
     (let p = prdt_address cmdtbl i
      in (push_bit 32 (ucast (load32 m (p + 4))) OR ucast (load32 m p), ucast (load32 m (p + 12) AND 0x3FFFFF) + 1))"

lemma load_store32_other:
  "load32 (store32 m (p + 12) v) p = load32 m p" "load32 (store32 m (p + 12) v) (p + 4) = load32 m (p + 4)"
  "load32 (store32 m (p + 4) v) p = load32 m p"
  by (simp_all add: load32_def store32_def add.assoc)

lemma ucast_halves: "push_bit 32 (ucast (ucast (drop_bit 32 a) :: u32)) OR ucast (ucast a :: u32) = (a :: u64)" (is "?l = a")
proof (rule bit_eqI)
  fix n assume "possible_bit TYPE(u64) n"
  then have n: "n < 64" by simp
  show "bit ?l n = bit a n"
    using n by (cases "n < 32") (auto simp: bit_or_iff bit_push_bit_iff bit_ucast_iff bit_drop_bit_eq)
qed

lemma prdt_slot: "i < 2 ^ 16 \<Longrightarrow> cmdtbl + 0x80 + 16 * ucast (of_nat i :: u16) = prdt_address cmdtbl i"
proof -
  assume "i < 2 ^ 16"
  then have "ucast (of_nat i :: u16) = (of_nat i :: u64)"
    by (intro word_unat_eq_iff [THEN iffD2]) (simp add: unat_ucast_u64 unat_of_nat take_bit_nat_eq_self)
  then show ?thesis by (simp add: prdt_address_def)
qed

text \<open>The byte count survives the bit-field.\<close>

lemma count_field:
  assumes "unat (c :: u64) < 2 ^ 22"
  shows "ucast ((((x AND NOT 0x3FFFFF) OR (ucast c AND 0x3FFFFF)) AND NOT 0x80000000) AND 0x3FFFFF :: u32) = c"
proof -
  have high: "n < 22" if "bit c n" for n using bit_beyond [OF assms, of n] that by (meson not_le)
  have gen: "ucast ((((x AND NOT M) OR (ucast c AND M)) AND NOT B) AND M) = c"
    if "\<And>n. bit M n \<longleftrightarrow> n < 22" "\<And>n. bit B n \<longleftrightarrow> n = 31" for M B :: u32
    by (rule bit_eqI) (use that in \<open>auto simp: bit_ucast_iff bit_and_iff bit_or_iff bit_not_iff dest: high\<close>)
  have M: "(0x3FFFFF :: u32) = mask 22" and B: "(0x80000000 :: u32) = 2 ^ 31" by (simp_all add: mask_eq_exp_minus_1)
  show ?thesis
    by (rule gen) (unfold M B bit_mask_iff bit_exp_iff, auto)
qed

lemma prdt_entry_write:
  assumes "i < 2 ^ 16" and "0 < unat n" and "unat n \<le> 2 ^ 22"
  shows "prdt_entry (write_prdt cmdtbl (of_nat i) a n m) cmdtbl i = (a, n)"
proof -
  define p where "p = prdt_address cmdtbl i"
  have "unat (n - 1) < 2 ^ 22" using assms(2,3) by (simp add: unat_minus_one word_neq_0_conv unat_gt_0)
  note n = count_field [OF this]
  show ?thesis
    unfolding prdt_entry_def write_prdt_def Let_def prdt_slot [OF assms(1)] p_def [symmetric]
    by (simp only: load_store32 load_store32_other ucast_halves n) simp
qed

text \<open>An entry is written inside its 16 bytes only.\<close>

lemma store32_outside: "\<forall>k<4. x \<noteq> p + of_nat k \<Longrightarrow> store32 m p v x = m x"
proof -
  assume a: "\<forall>k<4. x \<noteq> p + of_nat k"
  from a [rule_format, of 0] a [rule_format, of 1] a [rule_format, of 2] a [rule_format, of 3] show ?thesis
    by (simp add: store32_def)
qed

lemma write_prdt_outside:
  assumes "i < 2 ^ 16" and "\<forall>k<16. x \<noteq> prdt_address cmdtbl i + of_nat k"
  shows "write_prdt cmdtbl (of_nat i) a n m x = m x"
proof -
  let ?p = "prdt_address cmdtbl i"
  have "\<forall>k<4. x \<noteq> (?p + of_nat c) + of_nat k" if "c \<le> 12" for c
  proof (intro allI impI)
    fix k :: nat assume "k < 4"
    then have "x \<noteq> ?p + of_nat (c + k)" using assms(2) [rule_format, of "c + k"] that by simp
    then show "x \<noteq> (?p + of_nat c) + of_nat k" by (simp add: add.assoc)
  qed
  from this [of 0] this [of 4] this [of 12] show ?thesis
    unfolding write_prdt_def Let_def prdt_slot [OF assms(1)] by (simp add: store32_outside)
qed

lemma prdt_byte:
  "prdt_address cmdtbl i + of_nat k = cmdtbl + of_nat (0x80 + 16 * i + k)"
  by (simp add: prdt_address_def add.assoc)

lemma prdt_byte_inj:
  assumes "cmdtbl + of_nat x = cmdtbl + (of_nat y :: u64)" and "x < 2 ^ 64" and "y < 2 ^ 64"
  shows "x = y"
proof -
  have "(of_nat x :: u64) = of_nat y" using assms(1) by simp
  then have "unat (of_nat x :: u64) = unat (of_nat y :: u64)" by (rule arg_cong)
  then show ?thesis unfolding unat_of_nat_small [OF assms(2)] unat_of_nat_small [OF assms(3)] .
qed

lemma prdt_entry_other:
  assumes "i < 2 ^ 16" and "j < 2 ^ 16" and "i \<noteq> j"
  shows "prdt_entry (write_prdt cmdtbl (of_nat i) a n m) cmdtbl j = prdt_entry m cmdtbl j"
proof -
  have "write_prdt cmdtbl (of_nat i) a n m (prdt_address cmdtbl j + of_nat l) = m (prdt_address cmdtbl j + of_nat l)" if l: "l < 16" for l
  proof (rule write_prdt_outside [OF assms(1)], intro allI impI notI)
    fix k :: nat assume k: "k < 16" and "prdt_address cmdtbl j + of_nat l = prdt_address cmdtbl i + of_nat k"
    then have "0x80 + 16 * j + l = 0x80 + 16 * i + k"
      unfolding prdt_byte using assms(1,2) l by (intro prdt_byte_inj) auto
    then show False using assms(3) k l by presburger
  qed
  note b = this
  have "load32 (write_prdt cmdtbl (of_nat i) a n m) (prdt_address cmdtbl j + of_nat c) = load32 m (prdt_address cmdtbl j + of_nat c)"
    if "c \<le> 12" for c
    using b [of c] b [of "c + 1"] b [of "c + 2"] b [of "c + 3"] that by (simp add: load32_def add.assoc add.commute [of "of_nat c"])
  from this [of 0] this [of 4] this [of 12] show ?thesis by (simp add: prdt_entry_def Let_def)
qed

text \<open>A list of regions in consecutive entries.\<close>

fun write_regions :: "u64 \<Rightarrow> nat \<Rightarrow> (u64 \<times> u64) list \<Rightarrow> memory \<Rightarrow> memory" where
  "write_regions cmdtbl i [] m = m"
| "write_regions cmdtbl i ((a, n) # cs) m = write_regions cmdtbl (Suc i) cs (write_prdt cmdtbl (of_nat i) a n m)"

lemma write_regions_append:
  "write_regions cmdtbl i (cs @ [(a, n)]) m = write_prdt cmdtbl (of_nat (i + length cs)) a n (write_regions cmdtbl i cs m)"
  by (induction cs arbitrary: i m) (auto simp: add.assoc)

lemma write_regions_before:
  "i + length cs < 2 ^ 16 \<Longrightarrow> j < i \<Longrightarrow> prdt_entry (write_regions cmdtbl i cs m) cmdtbl j = prdt_entry m cmdtbl j"
proof (induction cs arbitrary: i m)
  case (Cons c cs)
  then show ?case by (cases c) (simp add: prdt_entry_other)
qed simp

lemma write_regions_read:
  "i + length cs < 2 ^ 16 \<Longrightarrow> \<forall>(a, n)\<in>set cs. 0 < unat n \<and> unat n \<le> 2 ^ 22 \<Longrightarrow> k < length cs \<Longrightarrow>
   prdt_entry (write_regions cmdtbl i cs m) cmdtbl (i + k) = cs ! k"
proof (induction cs arbitrary: i m k)
  case (Cons c cs)
  show ?case
  proof (cases k)
    case 0
    then show ?thesis using Cons.prems by (cases c) (simp add: write_regions_before prdt_entry_write)
  next
    case (Suc l)
    then show ?thesis using Cons.IH [of "Suc i" l] Cons.prems by (cases c) simp
  qed
qed simp

lemma write_regions_outside:
  "i + length cs \<le> 248 \<Longrightarrow> \<forall>k<4096. x \<noteq> cmdtbl + of_nat k \<Longrightarrow> write_regions cmdtbl i cs m x = m x"
proof (induction cs arbitrary: i m)
  case (Cons c cs)
  obtain a n where c: "c = (a, n)" by (cases c)
  have "\<forall>k<16. x \<noteq> prdt_address cmdtbl i + of_nat k"
  proof (intro allI impI)
    fix k :: nat assume "k < 16"
    then have "0x80 + 16 * i + k < 4096" using Cons.prems(1) by simp
    then show "x \<noteq> prdt_address cmdtbl i + of_nat k" unfolding prdt_byte using Cons.prems(2) by blast
  qed
  then have "write_prdt cmdtbl (of_nat i) a n m x = m x" using Cons.prems(1) by (intro write_prdt_outside) auto
  then show ?case using Cons.IH [of "Suc i"] Cons.prems by (simp add: c)
qed simp

section \<open>Physical regions\<close>

text \<open>A page of 4 KiB maps the address, and the physical address of the byte.\<close>

definition small_mapped :: "'a vmm_state_scheme \<Rightarrow> u64 \<Rightarrow> bool" where
  "small_mapped s v = (case hw_translate v s of Some e \<Rightarrow> \<not> bit e 7 | None \<Rightarrow> False)"

definition phys_of :: "'a vmm_state_scheme \<Rightarrow> u64 \<Rightarrow> u64" where
  "phys_of s v = (case hw_translate v s of Some e \<Rightarrow> push_bit 12 (pte_physical_address e) + (v AND 0xFFF) | None \<Rightarrow> 0)"

text \<open>The bytes of a region and of a list of regions, and the pages that a buffer touches.\<close>

definition region_bytes :: "u64 \<times> u64 \<Rightarrow> u64 list" where
  "region_bytes c = map (\<lambda>k. fst c + of_nat k) [0..<unat (snd c)]"

definition pages_of :: "u64 \<Rightarrow> nat \<Rightarrow> nat" where
  "pages_of v n = (if n = 0 then 0 else (unat v mod 4096 + n + 4095) div 4096)"

lemma region_bytes_empty [simp]: "region_bytes (a, 0) = []"
  by (simp add: region_bytes_def)

lemma region_bytes_append:
  assumes "unat b + unat c < 2 ^ 64"
  shows "region_bytes (a, b + c) = region_bytes (a, b) @ region_bytes (a + b, c)"
proof -
  have "unat (b + c) = unat b + unat c" using assms by (intro unat_add_small) simp
  moreover have "map (\<lambda>k. a + of_nat k) [i..<i + n] = map (\<lambda>k. (a + of_nat i) + of_nat k) [0..<n]" for i n
    by (induction n) (simp_all add: add.assoc)
  from this [of "unat b" "unat c"] have "map (\<lambda>k. a + of_nat k) [unat b..<unat b + unat c] = region_bytes (a + b, c)"
    by (simp add: region_bytes_def)
  ultimately show ?thesis by (simp add: region_bytes_def upt_add_eq_append [of 0])
qed

lemma within_page:
  assumes wf: "pt_wf s" and j: "unat v mod 4096 + j < 4096"
  shows "hw_translate (v + of_nat j) s = hw_translate v s"
    and "small_mapped s v \<Longrightarrow> phys_of s (v + of_nat j) = phys_of s v + of_nat j"
proof -
  let ?o = "v AND 0xFFF" and ?w = "v - (v AND 0xFFF)"
  have o: "unat ?o = unat v mod 4096" by (rule offset_unat)
  have "?o \<le> v" by (rule word_and_le2)
  then have w: "unat ?w mod 4096 = 0" using o by (simp add: unat_sub word_le_nat_alt)
  have "unat (?o + of_nat j) = unat v mod 4096 + j"
    using o j by (subst unat_add_small) (simp_all add: unat_of_nat take_bit_nat_eq_self)
  then have lt: "?o + of_nat j < 0x1000" "?o < 0x1000" using j o by (simp_all add: word_less_nat_alt)
  note p = page_offset [OF w lt(1)] page_offset [OF w lt(2)]
  have e: "?w + (?o + of_nat j) = v + of_nat j" "?w + ?o = v" by simp_all
  have "vpage (v + of_nat j) = vpage v" using p unfolding e by simp
  then show t: "hw_translate (v + of_nat j) s = hw_translate v s" by (rule hw_translate_same_page [OF wf])
  have "v + of_nat j AND 0xFFF = ?o + of_nat j" using p(1) unfolding e by simp
  then show "phys_of s (v + of_nat j) = phys_of s v + of_nat j" if "small_mapped s v"
    using t that by (simp add: phys_of_def small_mapped_def split: option.splits)
qed

lemma phys_walk:
  "pt_wf s \<Longrightarrow> small_mapped s v \<Longrightarrow> vmm_get_physical_from_virtual v s = Inr (phys_of s v, s)"
  by (auto simp: small_mapped_def phys_of_def get_physical_page split: option.splits)

lemma buffer_mem_entries [simp]:
  "hw_entry t i (s\<lparr>buffer_mem := m\<rparr>) = hw_entry t i s" "root_frame (s\<lparr>buffer_mem := m\<rparr>) = root_frame s"
  "pmm_wf (s\<lparr>buffer_mem := m\<rparr>) = pmm_wf s"
  by (simp_all add: hw_entry_def mem_rd_def root_frame_def pmm_wf_def)

lemma buffer_mem_tables [simp]:
  "hw_translate v (s\<lparr>buffer_mem := m\<rparr>) = hw_translate v s" "pt_wf (s\<lparr>buffer_mem := m\<rparr>) = pt_wf s"
  "small_mapped (s\<lparr>buffer_mem := m\<rparr>) v = small_mapped s v" "phys_of (s\<lparr>buffer_mem := m\<rparr>) v = phys_of s v"
  by (simp_all add: hw_translate_def pt_wf_def small_mapped_def phys_of_def pmm_ok_def used_frames_def cong: option.case_cong if_cong)

text \<open>One round of the loop covers the rest of a page, or what is left of the buffer.\<close>

definition round_bytes :: "u64 \<Rightarrow> u64 \<Rightarrow> u64" where
  "round_bytes v n = min (0x1000 - (v AND 0xFFF)) n"

lemma round_bytes_unat: "unat (round_bytes v n) = min (4096 - unat v mod 4096) (unat n)"
proof -
  have "unat (0x1000 - (v AND 0xFFF)) = 4096 - unat v mod 4096"
    using word_and_le1 [of v "0xFFF"] by (subst unat_sub) (simp_all add: word_le_nat_alt offset_unat)
  then show ?thesis by (simp add: round_bytes_def min_def word_le_nat_alt)
qed

lemma round_region:
  assumes "pt_wf s" and "small_mapped s v"
  shows "region_bytes (phys_of s v, round_bytes v n) = map (\<lambda>k. phys_of s (v + of_nat k)) [0..<unat (round_bytes v n)]"
proof -
  have "phys_of s (v + of_nat k) = phys_of s v + of_nat k" if "k < unat (round_bytes v n)" for k
    using that by (intro within_page(2) [OF assms(1) _ assms(2)]) (auto simp: round_bytes_unat)
  then show ?thesis by (simp add: region_bytes_def)
qed

lemma upt_shift: "t \<le> n \<Longrightarrow> [0..<n] = [0..<t] @ map (\<lambda>k. t + k) [0..<n - t]"
  by (rule nth_equalityI) (auto simp: nth_append)

lemma buffer_split:
  assumes "pt_wf s" and "small_mapped s v"
  shows "map (\<lambda>k. phys_of s (v + of_nat k)) [0..<unat n] = region_bytes (phys_of s v, round_bytes v n) @
    map (\<lambda>k. phys_of s (v + round_bytes v n + of_nat k)) [0..<unat (n - round_bytes v n)]"
proof -
  let ?t = "round_bytes v n"
  have le: "unat ?t \<le> unat n" by (simp add: round_bytes_unat)
  then have sub: "unat (n - ?t) = unat n - unat ?t" by (intro unat_sub) (simp add: word_le_nat_alt)
  show ?thesis unfolding round_region [OF assms] sub upt_shift [OF le] by (simp add: add.assoc)
qed

lemma pages_of_round:
  assumes "0 < unat n"
  shows "pages_of v (unat n) = Suc (pages_of (v + round_bytes v n) (unat n - unat (round_bytes v n)))"
proof (cases "unat n \<le> 4096 - unat v mod 4096")
  case True
  then have "unat (round_bytes v n) = unat n" by (simp add: round_bytes_unat)
  moreover have "(unat v mod 4096 + unat n + 4095) div 4096 = 1"
    using True assms mod_less_divisor [of 4096 "unat v"] by (intro div_nat_eqI) auto
  ultimately show ?thesis using assms by (simp add: pages_of_def)
next
  case False
  let ?r = "round_bytes v n"
  have r: "unat ?r = 4096 - unat v mod 4096" using False by (simp add: round_bytes_unat)
  have "v + ?r = of_nat (unat v + unat ?r)" by simp
  then have "unat (v + ?r) mod 4096 = (unat v + unat ?r) mod 2 ^ 64 mod 4096" by (simp only: unat_of_nat len64)
  also have "\<dots> = (unat v + unat ?r) mod 4096" by (rule mod_mod_cancel) simp
  also have "\<dots> = 0" unfolding r by (metis add_diff_inverse_nat less_imp_add_positive mod_add_left_eq mod_le_divisor mod_self not_less zero_less_numeral)
  finally have "unat (v + ?r) mod 4096 = 0" .
  then have "pages_of (v + ?r) (unat n - unat ?r) = (unat n - unat ?r + 4095) div 4096" by (simp add: pages_of_def)
  moreover have "unat v mod 4096 + unat n + 4095 = (unat n - unat ?r + 4095) + 4096"
    using False r mod_less_divisor [of 4096 "unat v"] by linarith
  then have "pages_of v (unat n) = (unat n - unat ?r + 4095 + 4096) div 4096" using assms by (simp add: pages_of_def)
  ultimately show ?thesis by (simp only: div_add_self2 [of "4096 :: nat"] numeral_eq_Suc) simp
qed

text \<open>The loop keeps a pending region and writes a region when the next page does not follow it.\<close>

definition loop_result ::
  "u64 \<Rightarrow> ('h, 'a) ahci_state_scheme \<Rightarrow> nat \<Rightarrow> (u64 \<times> u64) \<Rightarrow> nat \<Rightarrow> u64 list \<Rightarrow> (u16 \<times> u64 \<times> u64 \<times> ('h, 'a) ahci_state_scheme) res \<Rightarrow> bool" where
  "loop_result cmdtbl s i pending pages bs r \<longleftrightarrow>
     (\<exists>cs a' b'. r = Inr (of_nat (i + length cs), a', b', s\<lparr>buffer_mem := write_regions cmdtbl i cs (buffer_mem s)\<rparr>) \<and>
        region_bytes pending @ bs = concat (map region_bytes cs) @ region_bytes (a', b') \<and>
        (\<forall>c\<in>set cs. 0 < unat (snd c) \<and> unat (snd c) \<le> 2 ^ 22) \<and> unat b' \<le> 2 ^ 22 \<and>
        length cs + (if 0 < b' then 1 else 0) \<le> (if 0 < snd pending then 1 else 0) + pages)"

lemma loop_result_flush:
  assumes "loop_result cmdtbl (s\<lparr>buffer_mem := write_prdt cmdtbl (of_nat i) a b (buffer_mem s)\<rparr>) (Suc i) (p, t) pages bs r"
    and "0 < t" and "0 < b" and "unat b \<le> 2 ^ 22"
  shows "loop_result cmdtbl s i (a, b) (Suc pages) (region_bytes (p, t) @ bs) r"
proof -
  from assms(1) obtain cs a' b' where
    r: "r = Inr (of_nat (Suc i + length cs), a', b',
          s\<lparr>buffer_mem := write_regions cmdtbl (Suc i) cs (write_prdt cmdtbl (of_nat i) a b (buffer_mem s))\<rparr>)"
    and e: "region_bytes (p, t) @ bs = concat (map region_bytes cs) @ region_bytes (a', b')"
    and cs: "\<forall>c\<in>set cs. 0 < unat (snd c) \<and> unat (snd c) \<le> 2 ^ 22" "unat b' \<le> 2 ^ 22"
      "length cs + (if 0 < b' then 1 else 0) \<le> 1 + pages"
    using assms(2) unfolding loop_result_def by auto
  show ?thesis unfolding loop_result_def
    by (rule exI [of _ "(a, b) # cs"], rule exI [of _ a'], rule exI [of _ b'])
      (use r e cs assms(3,4) in \<open>simp add: word_less_nat_alt\<close>)
qed

lemma loop_result_grow:
  assumes "loop_result cmdtbl s i (a, b + t) pages bs r" and "0 < t" and "unat b + unat t < 2 ^ 64"
  shows "loop_result cmdtbl s i (a, b) (Suc pages) (region_bytes (a + b, t) @ bs) r"
  using assms(1) unfolding loop_result_def snd_conv region_bytes_append [OF assms(3)] append_assoc
  by (elim exE conjE) (intro exI conjI, assumption+, auto split: if_splits)

lemma loop_result_start:
  assumes "loop_result cmdtbl s i (p, t) pages bs r" and "0 < t"
  shows "loop_result cmdtbl s i (a, 0) (Suc pages) (region_bytes (p, t) @ bs) r"
  using assms unfolding loop_result_def by auto

lemma prdt_loop_regions:
  assumes "pt_wf s" and "\<forall>k<unat n. small_mapped s (v + of_nat k)" and "unat b + unat n \<le> 2 ^ 22" and "0 < b \<longrightarrow> last_end = a + b"
  shows "loop_result cmdtbl s i (a, b) (pages_of v (unat n)) (map (\<lambda>k. phys_of s (v + of_nat k)) [0..<unat n])
           (prdt_loop cmdtbl n v (of_nat i) a b last_end s)"
  using assms
proof (induction "unat n" arbitrary: n v b a last_end i s rule: less_induct)
  case less
  show ?case
  proof (cases "0 < n")
    case False
    then have "n = 0" using word_neq_0_conv by blast
    then show ?thesis using less.prems(3)
      by (subst prdt_loop.simps) (auto simp: loop_result_def pages_of_def intro!: exI [of _ "[]"] exI [of _ a] exI [of _ b])
  next
    case True
    let ?t = "round_bytes v n" and ?p = "phys_of s v" 
    have n: "0 < unat n" using True by (simp add: word_less_nat_alt)
    have t: "0 < unat ?t" "unat ?t \<le> unat n" using n by (simp_all add: round_bytes_unat)
    then have t0: "0 < ?t" by (simp add: word_less_nat_alt)
    have sub: "unat (n - ?t) = unat n - unat ?t" using t(2) by (intro unat_sub) (simp add: word_le_nat_alt)
    have m0: "small_mapped s v" using less.prems(2) n by force
    have rest: "\<forall>k<unat (n - ?t). small_mapped s (v + ?t + of_nat k)"
    proof (intro allI impI)
      fix k assume "k < unat (n - ?t)"
      then have "unat ?t + k < unat n" using sub t(2) by simp
      then have "small_mapped s (v + of_nat (unat ?t + k))" using less.prems(2) by blast
      then show "small_mapped s (v + ?t + of_nat k)" by (simp add: add.assoc)
    qed
    note split = buffer_split [OF less.prems(1) m0, of n]
    let ?rest = "map (\<lambda>k. phys_of s (v + ?t + of_nat k)) [0..<unat (n - ?t)]"
    note pages = pages_of_round [OF n, of v, folded sub]
    have lt: "unat (n - ?t) < unat n" using sub t n by simp
    have ih: "loop_result cmdtbl s' j (a', b') (pages_of (v + ?t) (unat (n - ?t))) ?rest
        (prdt_loop cmdtbl (n - ?t) (v + ?t) (of_nat j) a' b' (?p + ?t) s')"
      if "unat b' + unat (n - ?t) \<le> 2 ^ 22" "?p + ?t = a' + b'" "s' = s\<lparr>buffer_mem := m\<rparr>" for s' j a' b' m
      using less.hyps [OF lt, of s' "v + ?t" b' "?p + ?t" a' j] that(1,2) rest less.prems(1) unfolding that(3) by simp
    have step: "prdt_loop cmdtbl n v (of_nat i) a b last_end s =
      (if b = 0 then prdt_loop cmdtbl (n - ?t) (v + ?t) (of_nat i) ?p ?t (?p + ?t) s
       else if ?p = last_end then prdt_loop cmdtbl (n - ?t) (v + ?t) (of_nat i) a (b + ?t) (?p + ?t) s
       else prdt_loop cmdtbl (n - ?t) (v + ?t) (of_nat (Suc i)) ?p ?t (?p + ?t)
              (s\<lparr>buffer_mem := write_prdt cmdtbl (of_nat i) a b (buffer_mem s)\<rparr>))"
      using True unfolding prdt_loop.simps [of cmdtbl n] Let_def round_bytes_def [symmetric]
      by (auto simp: phys_walk [OF less.prems(1) m0] word_neq_0_conv add.commute)
    have bnd: "unat ?t + unat (n - ?t) \<le> 2 ^ 22" "unat b + unat ?t < 2 ^ 64" using less.prems(3) sub t by simp_all
    have id: "s = s\<lparr>buffer_mem := buffer_mem s\<rparr>" by simp
    show ?thesis
    proof (cases "b = 0")
      case True
      show ?thesis unfolding step split pages if_P [OF True]
        unfolding True by (rule loop_result_start [OF ih [OF bnd(1) refl id] t0])
    next
      case False
      then have b: "0 < b" by (simp add: word_neq_0_conv)
      then have last: "last_end = a + b" using less.prems(4) by simp
      show ?thesis
      proof (cases "?p = last_end")
        case True
        have "unat (b + ?t) + unat (n - ?t) \<le> 2 ^ 22"
          using less.prems(3) sub t bnd(2) by (subst unat_add_small) simp_all
        from ih [OF this _ id, of a i] have "loop_result cmdtbl s i (a, b + ?t) (pages_of (v + ?t) (unat (n - ?t))) ?rest
            (prdt_loop cmdtbl (n - ?t) (v + ?t) (of_nat i) a (b + ?t) (?p + ?t) s)"
          using True last by (simp add: add.assoc)
        from loop_result_grow [OF this t0 bnd(2)] show ?thesis
          unfolding step split pages using False True last by simp
      next
        case p: False
        show ?thesis unfolding step split pages if_not_P [OF False] if_not_P [OF p]
          by (rule loop_result_flush [OF ih [OF bnd(1) refl refl] t0 b]) (use less.prems(3) in simp)
      qed
    qed
  qed
qed

lemma build_prdt_regions:
  assumes "pt_wf s" and "\<forall>k<unat bytes. small_mapped s (buffer + of_nat k)" and "unat bytes \<le> 2 ^ 22"
  shows "\<exists>cs. build_prdt cmdtbl bytes buffer s =
      Inr (of_nat (length cs), s\<lparr>buffer_mem := write_regions cmdtbl 0 cs (buffer_mem s)\<rparr>) \<and>
    concat (map region_bytes cs) = map (\<lambda>k. phys_of s (buffer + of_nat k)) [0..<unat bytes] \<and>
    (\<forall>c\<in>set cs. 0 < unat (snd c) \<and> unat (snd c) \<le> 2 ^ 22) \<and> length cs \<le> pages_of buffer (unat bytes)"
proof -
  from prdt_loop_regions [OF assms(1,2), of 0 0 0 cmdtbl 0] assms(3) obtain cs a b where
    r: "prdt_loop cmdtbl bytes buffer 0 0 0 0 s = Inr (of_nat (length cs), a, b, s\<lparr>buffer_mem := write_regions cmdtbl 0 cs (buffer_mem s)\<rparr>)"
    and e: "map (\<lambda>k. phys_of s (buffer + of_nat k)) [0..<unat bytes] = concat (map region_bytes cs) @ region_bytes (a, b)"
    and cs: "\<forall>c\<in>set cs. 0 < unat (snd c) \<and> unat (snd c) \<le> 2 ^ 22" "unat b \<le> 2 ^ 22"
      "length cs + (if 0 < b then 1 else 0) \<le> pages_of buffer (unat bytes)"
    unfolding loop_result_def by auto
  show ?thesis
  proof (cases "0 < b")
    case True
    then show ?thesis
      by (intro exI [of _ "cs @ [(a, b)]"])
        (use r e cs in \<open>auto simp: build_prdt_def write_regions_append word_less_nat_alt add.commute\<close>)
  next
    case False
    then have "b = 0" using word_neq_0_conv by blast
    then show ?thesis by (intro exI [of _ cs]) (use r e cs in \<open>auto simp: build_prdt_def\<close>)
  qed
qed

lemma pages_of_bound: "pages_of v n \<le> (n + 8190) div 4096"
  unfolding pages_of_def using mod_less_divisor [of 4096 "unat v"] by (auto intro!: div_le_mono)

section \<open>Properties\<close>

text \<open>The machine of the examples with an empty heap and no drives.\<close>

definition ahci_small :: "unit ahci_state" where
  "ahci_small = \<lparr>bitmap = 1 # replicate 7 0, bitmap_size_bytes = 8, bitmap_size_frames = 64,
     memory_total_frame_count = 64, memory_used_frame_count = 1, phys_mem = (\<lambda>_. 0), PML4 = DIRECT_MAP_BASE,
     kernel_vma_heap_tree = \<lparr>root = 0, avl_size = 0\<rparr>, kernel_vma_mmio_tree = \<lparr>root = 0, avl_size = 0\<rparr>,
     free_list = 0, free_node_count = 0, in_replenish_cycle = 0, vm_nodes = (\<lambda>_. None),
     buckets = [], page_descs = (\<lambda>_. None), kmem = (\<lambda>_. 0), lbd_drives = replicate 256 0, next_drive_num = 0,
     drive_heap = (\<lambda>_. None), buffer_mem = (\<lambda>_. 0), ahci_data = (\<lambda>_. None), hw = ()\<rparr>"

lemma ahci_small_tables:
  "pt_wf ahci_small" "hw_translate v ahci_small = None" "card (free_frames ahci_small) = 63"
proof -
  have u: "used_frames ahci_small = used_frames vmm_small" by (simp add: used_frames_def ahci_small_def vmm_small_def)
  show "pt_wf ahci_small"
    using vmm_small_wf unfolding pt_wf_def pmm_ok_def u
    by (simp add: pmm_wf_def root_frame_def ahci_small_def vmm_small_def)
  show "hw_translate v ahci_small = None"
    by (simp add: hw_translate_def hw_entry_def mem_rd_def ahci_small_def pte_bits)
  show "card (free_frames ahci_small) = 63"
    using vmm_small_free unfolding free_frames_def u by (simp add: ahci_small_def vmm_small_def)
qed

text \<open>A buffer of two pages in the frames 7 and 8.\<close>

definition buffer_ready :: "unit ahci_state \<Rightarrow> bool" where
  "buffer_ready s \<longleftrightarrow> vmm_map 0x400000 0x7000 2 1 ahci_small = Inr (0, s)"

lemma buffer_ready_example:
  "\<exists>s. buffer_ready s \<and> pt_wf s \<and> (\<forall>k<8192. small_mapped s (0x400000 + of_nat k) \<and> phys_of s (0x400000 + of_nat k) = 0x7000 + of_nat k)"
proof -
  from map_all [OF ahci_small_tables(1), of 2 "0x400000" 1 "0x7000"] obtain s where
    s: "buffer_ready s" "mapped 2 1 0x400000 0x7000 ahci_small s"
    by (auto simp: ahci_small_tables buffer_ready_def)
  have wf: "pt_wf s" and t: "\<forall>j<2. hw_translate (0x400000 + of_nat j * 0x1000) s = Some (page_entry 1 (0x7000 + of_nat j * 0x1000) 0)"
    using s(2) by (simp_all add: mapped_def)
  have "small_mapped s (0x400000 + of_nat k) \<and> phys_of s (0x400000 + of_nat k) = 0x7000 + of_nat k" if k: "k < 8192" for k
  proof -
    define j r where "j = k div 4096" and "r = k mod 4096"
    then have jr: "j < 2" "r < 4096" "k = j * 4096 + r" using k by (simp_all add: less_mult_imp_div_less)
    let ?w = "0x400000 + of_nat j * 0x1000 :: u64"
    have w: "unat ?w mod 4096 = 0" unfolding page_multiple by simp
    have e: "0x400000 + of_nat k = ?w + of_nat r" unfolding jr(3) by (simp add: add.assoc)
    have x: "hw_translate ?w s = Some (page_entry 1 (0x7000 + of_nat j * 0x1000) 0)" using t jr(1) by blast
    then have m: "small_mapped s ?w" by (simp add: small_mapped_def)
    have pw: "phys_of s ?w = 0x7000 + of_nat j * 0x1000"
      using x jr(1) by (cases "j = 0") (auto simp: phys_of_def page_entry_address less_2_cases_iff)
    show ?thesis using within_page [OF wf, of ?w r] w jr(2) m x pw unfolding e
      by (simp add: small_mapped_def jr(3) add.assoc)
  qed
  with s wf show ?thesis by blast
qed

text \<open>C7: The table of physical regions that \<^verbatim>\<open>ahci_read\<close> and \<^verbatim>\<open>ahci_write\<close> build describes the buffer: the regions the
  controller reads from its entries are, concatenated, the physical addresses of the bytes of the buffer, in
  order, whatever the frames are; runs of adjacent frames share an entry, so there are at most as many
  entries as pages.\<close>

theorem build_prdt_lists_buffer:
  assumes "pt_wf s" and "\<forall>k<unat bytes. small_mapped s (buffer + of_nat k)" and "unat bytes \<le> 2 ^ 22"
  shows "\<exists>n m. build_prdt cmdtbl bytes buffer s = Inr (of_nat n, s\<lparr>buffer_mem := m\<rparr>) \<and> n \<le> pages_of buffer (unat bytes) \<and>
    concat (map (\<lambda>i. region_bytes (prdt_entry m cmdtbl i)) [0..<n]) = map (\<lambda>k. phys_of s (buffer + of_nat k)) [0..<unat bytes]"
proof -
  from build_prdt_regions [OF assms, of cmdtbl] obtain cs where
    r: "build_prdt cmdtbl bytes buffer s = Inr (of_nat (length cs), s\<lparr>buffer_mem := write_regions cmdtbl 0 cs (buffer_mem s)\<rparr>)"
    and e: "concat (map region_bytes cs) = map (\<lambda>k. phys_of s (buffer + of_nat k)) [0..<unat bytes]"
    and cs: "\<forall>c\<in>set cs. 0 < unat (snd c) \<and> unat (snd c) \<le> 2 ^ 22" and len: "length cs \<le> pages_of buffer (unat bytes)" by blast
  have "length cs \<le> (2 ^ 22 + 8190) div 4096" using len pages_of_bound [of buffer "unat bytes"] assms(3)
    by (meson add_le_mono1 div_le_mono order_trans)
  then have "0 + length cs < 2 ^ 16" by simp
  from write_regions_read [OF this] cs
  have "prdt_entry (write_regions cmdtbl 0 cs (buffer_mem s)) cmdtbl i = cs ! i" if "i < length cs" for i
    using that by (force simp: case_prod_beta)
  then have "map (\<lambda>i. region_bytes (prdt_entry (write_regions cmdtbl 0 cs (buffer_mem s)) cmdtbl i)) [0..<length cs] = map region_bytes cs"
    by (intro nth_equalityI) simp_all
  then show ?thesis using r e len by (intro exI [of _ "length cs"] exI [of _ "write_regions cmdtbl 0 cs (buffer_mem s)"]) simp
qed

theorem build_prdt_lists_buffer_witness:
  "\<exists>s n m. buffer_ready s \<and> build_prdt 0x500000 8 0x400FFC s = Inr (of_nat n, s\<lparr>buffer_mem := m\<rparr>) \<and> n \<le> 2 \<and>
     concat (map (\<lambda>i. region_bytes (prdt_entry m 0x500000 i)) [0..<n]) = map (\<lambda>k. 0x7FFC + of_nat k) [0..<8]"
proof -
  from buffer_ready_example obtain s where s: "buffer_ready s" "pt_wf s"
    "\<forall>k<8192. small_mapped s (0x400000 + of_nat k) \<and> phys_of s (0x400000 + of_nat k) = 0x7000 + of_nat k" by blast
  have b: "small_mapped s (0x400FFC + of_nat k) \<and> phys_of s (0x400FFC + of_nat k) = 0x7FFC + of_nat k" if "k < 8" for k
    using s(3) [rule_format, of "0xFFC + k"] that by (simp add: add.assoc [symmetric])
  then have m: "map (\<lambda>k. phys_of s (0x400FFC + of_nat k)) [0..<8] = map (\<lambda>k. 0x7FFC + of_nat k) [0..<8]"
    by (intro map_cong refl) (simp del: upt_rec_numeral)
  have u: "unat (8 :: u64) = 8" by simp
  have "pages_of 0x400FFC 8 = 2" by (simp add: pages_of_def)
  with build_prdt_lists_buffer [OF s(2), of 8 "0x400FFC" "0x500000"] b s(1) show ?thesis
    unfolding u m by auto
qed

text \<open>C12: A transfer within the limits that the driver announces, 128 sectors of at most 4096 bytes, needs at most
  129 entries: the table stays in the page that was allocated for it and no other memory is written.\<close>

theorem build_prdt_stays_in_page:
  assumes "pt_wf s" and "\<forall>k<unat (transfer_bytes count d). small_mapped s (buffer + of_nat k)"
    and "count \<le> 128" and "logical_sector_size_bytes (device_info d) \<le> 4096"
  shows "\<exists>n m. build_prdt cmdtbl (transfer_bytes count d) buffer s = Inr (of_nat n, s\<lparr>buffer_mem := m\<rparr>) \<and> n \<le> 129 \<and>
    (\<forall>x. (\<forall>k<4096. x \<noteq> cmdtbl + of_nat k) \<longrightarrow> m x = buffer_mem s x)"
proof -
  let ?b = "transfer_bytes count d"
  have "unat count * unat (logical_sector_size_bytes (device_info d)) \<le> 128 * 4096"
    using assms(3,4) by (intro mult_le_mono) (simp_all add: word_le_nat_alt)
  then have b: "unat ?b \<le> 128 * 4096"
    by (simp add: transfer_bytes_def unat_mult_lem [THEN iffD1] unat_ucast_u64)
  then have "unat ?b \<le> 2 ^ 22" by simp
  from build_prdt_regions [OF assms(1,2) this, of cmdtbl] obtain cs where
    r: "build_prdt cmdtbl ?b buffer s = Inr (of_nat (length cs), s\<lparr>buffer_mem := write_regions cmdtbl 0 cs (buffer_mem s)\<rparr>)"
    and len: "length cs \<le> pages_of buffer (unat ?b)" by blast
  have "pages_of buffer (unat ?b) \<le> (128 * 4096 + 8190) div 4096"
    using pages_of_bound [of buffer "unat ?b"] b by (meson add_le_mono1 div_le_mono order_trans)
  with len have "length cs \<le> 129" by simp
  then show ?thesis using r write_regions_outside [of 0 cs] by (intro exI conjI) (assumption, simp_all)
qed

text \<open>A drive with sectors of 512 bytes.\<close>

definition drive_small :: lbd_logical_drive_t where
  "drive_small = \<lparr>driver_api = 0, device_info = \<lparr>total_sectors = 1000, logical_sector_size_bytes = 512,
     physical_sector_size_bytes = 512, logical_alignment_offset = 0, max_sectors_per_transfer = 128, device_flags = 1\<rparr>,
     driver_data = 0, drive_name = [], drive_no = 0\<rparr>"

theorem build_prdt_stays_in_page_witness:
  "\<exists>s n m. buffer_ready s \<and> build_prdt 0x500000 (transfer_bytes 3 drive_small) 0x400F00 s = Inr (of_nat n, s\<lparr>buffer_mem := m\<rparr>) \<and> n \<le> 129 \<and>
     m 0x501000 = buffer_mem s 0x501000"
proof -
  from buffer_ready_example obtain s where s: "buffer_ready s" "pt_wf s"
    "\<forall>k<8192. small_mapped s (0x400000 + of_nat k) \<and> phys_of s (0x400000 + of_nat k) = 0x7000 + of_nat k" by blast
  have b: "small_mapped s (0x400F00 + of_nat k)" if "k < 1536" for k
    using s(3) [rule_format, of "0xF00 + k"] that by (simp add: add.assoc [symmetric])
  have x: "\<forall>k<4096. (0x501000 :: u64) \<noteq> 0x500000 + of_nat k"
  proof (intro allI impI notI)
    fix k :: nat assume "k < 4096" "(0x501000 :: u64) = 0x500000 + of_nat k"
    then have "(0x500000 :: u64) + of_nat 4096 = 0x500000 + of_nat k" by simp
    from prdt_byte_inj [OF this] \<open>k < 4096\<close> show False by simp
  qed
  from build_prdt_stays_in_page [OF s(2), of 3 drive_small "0x400F00" "0x500000"] b obtain n m where
    "build_prdt 0x500000 (transfer_bytes 3 drive_small) 0x400F00 s = Inr (of_nat n, s\<lparr>buffer_mem := m\<rparr>)" "n \<le> 129"
    "\<forall>y. (\<forall>k<4096. y \<noteq> 0x500000 + of_nat k) \<longrightarrow> m y = buffer_mem s y"
    by (auto simp: transfer_bytes_def drive_small_def)
  with s(1) x show ?thesis by blast
qed

text \<open>The block address and the sector count as the device assembles them from the bytes of the command.\<close>

definition fis_address48 :: "memory \<Rightarrow> u64 \<Rightarrow> u64" where
  "fis_address48 m fis = ucast (m (fis + 4)) OR push_bit 8 (ucast (m (fis + 5))) OR push_bit 16 (ucast (m (fis + 6)))
     OR push_bit 24 (ucast (m (fis + 8))) OR push_bit 32 (ucast (m (fis + 9))) OR push_bit 40 (ucast (m (fis + 10)))"

definition fis_address28 :: "memory \<Rightarrow> u64 \<Rightarrow> u64" where
  "fis_address28 m fis = ucast (m (fis + 4)) OR push_bit 8 (ucast (m (fis + 5))) OR push_bit 16 (ucast (m (fis + 6)))
     OR push_bit 24 (ucast (m (fis + 7) AND 0xF))"

definition fis_count16 :: "memory \<Rightarrow> u64 \<Rightarrow> u64" where
  "fis_count16 m fis = ucast (m (fis + 12)) OR push_bit 8 (ucast (m (fis + 13)))"

definition fis_count8 :: "memory \<Rightarrow> u64 \<Rightarrow> u64" where
  "fis_count8 m fis = ucast (m (fis + 12))"

lemma low_bits: "bit (0xFF :: u64) n \<longleftrightarrow> n < 8" "bit (0xF :: u64) n \<longleftrightarrow> n < 4" "bit (0xF :: u8) n \<longleftrightarrow> n < 4"
  "bit (0x40 :: u8) n \<longleftrightarrow> n = 6"
proof -
  have m: "(0xFF :: u64) = mask 8" "(0xF :: u64) = mask 4" "(0xF :: u8) = mask 4" by (simp_all add: mask_eq_exp_minus_1)
  show "bit (0xFF :: u64) n \<longleftrightarrow> n < 8" "bit (0xF :: u64) n \<longleftrightarrow> n < 4" "bit (0xF :: u8) n \<longleftrightarrow> n < 4"
    unfolding m bit_mask_iff by auto
  have e: "(0x40 :: u8) = push_bit 6 1" by simp
  show "bit (0x40 :: u8) n \<longleftrightarrow> n = 6" unfolding e bit_push_bit_iff bit_1_iff by auto
qed

text \<open>A byte of a number, as a bit string.\<close>

lemma byte_bit: "bit (ucast (ucast (drop_bit k x AND 0xFF) :: u8) :: u64) n \<longleftrightarrow> n < 8 \<and> bit (x :: u64) (k + n)"
  "bit (ucast (ucast (x AND 0xFF) :: u8) :: u64) n \<longleftrightarrow> n < 8 \<and> bit x n"
  unfolding bit_ucast_iff bit_and_iff bit_drop_bit_eq low_bits using bit_imp_le_length [of x "k + n"] by auto

lemma fis_bytes48:
  "fis_address48 (fis_lba48 command lba count fis m) fis = take_bit 48 lba"
  "fis_count16 (fis_lba48 command lba count fis m) fis = take_bit 16 count"
proof (rule_tac [!] bit_eqI)
  fix n
  show "bit (fis_address48 (fis_lba48 command lba count fis m) fis) n = bit (take_bit 48 lba) n"
    if "possible_bit TYPE(u64) n"
  proof -
    consider "n < 8" | "8 \<le> n \<and> n < 16" | "16 \<le> n \<and> n < 24" | "24 \<le> n \<and> n < 32" | "32 \<le> n \<and> n < 40" | "40 \<le> n \<and> n < 48" | "48 \<le> n"
      by linarith
    then show ?thesis unfolding fis_address48_def fis_lba48_def using that
      by cases (auto simp: bit_or_iff bit_push_bit_iff bit_take_bit_iff byte_bit bit_drop_bit_eq)
  qed
  show "bit (fis_count16 (fis_lba48 command lba count fis m) fis) n = bit (take_bit 16 count) n"
    if "possible_bit TYPE(u64) n"
  proof -
    consider "n < 8" | "8 \<le> n \<and> n < 16" | "16 \<le> n" by linarith
    then show ?thesis unfolding fis_count16_def fis_lba48_def using that
      by cases (auto simp: bit_or_iff bit_push_bit_iff bit_take_bit_iff byte_bit bit_drop_bit_eq)
  qed
qed

lemma fis_bytes28:
  "fis_address28 (fis_lba28 command lba count fis m) fis = take_bit 28 lba"
  "fis_count8 (fis_lba28 command lba count fis m) fis = take_bit 8 count"
proof (rule_tac [!] bit_eqI)
  fix n
  have nib: "bit (ucast ((ucast (drop_bit 24 lba AND 0xF) OR 0x40 :: u8) AND 0xF) :: u64) j \<longleftrightarrow> j < 4 \<and> bit lba (24 + j)" for j
    unfolding bit_ucast_iff bit_and_iff bit_or_iff bit_drop_bit_eq low_bits using bit_imp_le_length [of lba "24 + j"] by auto
  show "bit (fis_address28 (fis_lba28 command lba count fis m) fis) n = bit (take_bit 28 lba) n"
    if "possible_bit TYPE(u64) n"
  proof -
    consider "n < 8" | "8 \<le> n \<and> n < 16" | "16 \<le> n \<and> n < 24" | "24 \<le> n \<and> n < 28" | "28 \<le> n" by linarith
    then show ?thesis unfolding fis_address28_def fis_lba28_def using that
      by cases (auto simp: bit_or_iff bit_push_bit_iff bit_take_bit_iff byte_bit bit_drop_bit_eq nib)
  qed
  show "bit (fis_count8 (fis_lba28 command lba count fis m) fis) n = bit (take_bit 8 count) n"
    by (auto simp: fis_count8_def fis_lba28_def bit_take_bit_iff byte_bit)
qed

text \<open>C28: The block address and the count of a command come back from the bytes the device reads: 48 bits of the address
  and 16 of the count with the extended commands, 28 and 8 otherwise. Larger values are cut off without an error.\<close>

theorem fis_address_roundtrip:
  "fis_address48 (fis_lba48 command lba count fis m) fis = lba mod 2 ^ 48 \<and>
   fis_count16 (fis_lba48 command lba count fis m) fis = count mod 2 ^ 16 \<and>
   fis_address28 (fis_lba28 command lba count fis m) fis = lba mod 2 ^ 28 \<and>
   fis_count8 (fis_lba28 command lba count fis m) fis = count mod 2 ^ 8"
  by (simp only: fis_bytes48 fis_bytes28 take_bit_eq_mod)

end
