(* ===== verification/Vma_Tree.thy ===== *)
theory Vma_Tree
  imports Vma
begin

text \<open>
  The trees of virtual memory areas as clients of the AVL tree: the callback keeps, at every node, the
  size of the largest free area below it, the comparator orders areas by their start addresses as
  long as these lie within 2 gigabytes of each other, and the three lookups find the area that starts
  at an address, the area that contains an address, and a largest free area.
\<close>

section \<open>The client of the AVL tree\<close>

text \<open>The fields that the callback does not change, as a node without links and with slot 0.\<close>

definition vm_kept :: "vm_more \<Rightarrow> vm_ds_node" where
  "vm_kept m = (avl_node.extend \<lparr>parent = 0, left = 0, right = 0, subtree_max_depth = 0, update = 0\<rparr> m)
     \<lparr>subtree_max_free_slot := 0\<rparr>"

definition vm_valid :: "u64 \<Rightarrow> vm_ds_node \<Rightarrow> bool" where
  "vm_valid f k \<longleftrightarrow> f = VM_AVL_UPDATE"

definition vm_cmp :: "vm_ds_node \<Rightarrow> vm_ds_node \<Rightarrow> int" where
  "vm_cmp a b = to_int (start_addr a - start_addr b)"

definition free_size :: "vm_ds_node \<Rightarrow> u64" where
  "free_size n = (if node_type n = VMA_FREE then node_size n else 0)"

definition slot_of :: "vm_heap \<Rightarrow> u64 \<Rightarrow> u64" where
  "slot_of h p = (if p = 0 then 0 else case h p of None \<Rightarrow> 0 | Some m \<Rightarrow> subtree_max_free_slot m)"

definition vm_aug :: "vm_heap \<Rightarrow> u64 \<Rightarrow> bool" where
  "vm_aug h a \<longleftrightarrow> (case h a of None \<Rightarrow> False
     | Some n \<Rightarrow> subtree_max_free_slot n = max (max (slot_of h (left n)) (slot_of h (right n))) (free_size n))"

lemma vm_kept_sel [simp]:
  "start_addr (vm_kept (avl_node.more n)) = start_addr n"
  "node_size (vm_kept (avl_node.more n)) = node_size n"
  "node_type (vm_kept (avl_node.more n)) = node_type n"
  "node_flags (vm_kept (avl_node.more n)) = node_flags n"
  "backing (vm_kept (avl_node.more n)) = backing n"
  by (cases n; simp add: vm_kept_def avl_node.defs)+

lemma vm_kept_eq:
  "vm_kept (avl_node.more n) = vm_kept (avl_node.more m) \<longleftrightarrow>
     start_addr n = start_addr m \<and> node_size n = node_size m \<and> node_type n = node_type m \<and>
     node_flags n = node_flags m \<and> backing n = backing m"
  by (cases n; cases m; simp add: vm_kept_def avl_node.defs)

lemma more_slot: "avl_node.more_update (\<lambda>_. avl_node.more (n\<lparr>subtree_max_free_slot := v\<rparr>)) n = n\<lparr>subtree_max_free_slot := v\<rparr>"
  by (cases n) simp

lemma more_eq:
  "avl_node.more (n :: vm_ds_node) = avl_node.more m \<longleftrightarrow>
     start_addr n = start_addr m \<and> node_size n = node_size m \<and> node_type n = node_type m \<and>
     node_flags n = node_flags m \<and> backing n = backing m \<and> subtree_max_free_slot n = subtree_max_free_slot m"
  by (cases n; cases m; simp)

interpretation vm: avl_client vm_callbacks vm_aug vm_kept vm_valid vm_avl_comp_addr vm_cmp
proof (unfold_locales, goal_cases)
  case (1 h a n)
  let ?v = "max (max (slot_of h (left n)) (slot_of h (right n))) (free_size n)"
  let ?h = "h(a \<mapsto> n\<lparr>subtree_max_free_slot := ?v\<rparr>)"
  have upd: "update n = VM_AVL_UPDATE" "VM_AVL_UPDATE \<noteq> 0"
    using 1 by (simp_all add: vm_valid_def VM_AVL_UPDATE_def)
  have l: "(if left n \<noteq> 0 then bindE (rd h (left n)) (\<lambda>l. Inr (subtree_max_free_slot l)) else Inr 0) = Inr (slot_of h (left n))"
    and r: "(if right n \<noteq> 0 then bindE (rd h (right n)) (\<lambda>l. Inr (subtree_max_free_slot l)) else Inr 0) = Inr (slot_of h (right n))"
    using 1 by (auto simp: slot_of_def)
  have "vm_avl_update h a = Inr ?h"
    using 1(1,2) unfolding vm_avl_update_def by (simp add: l r free_size_def)
  then have "(if update n \<noteq> 0 then vm_callbacks (update n) h a else Inr h) = Inr ?h"
    using upd by (simp add: vm_callbacks_def)
  moreover have "vm_aug ?h a" using 1(4,5) by (simp add: vm_aug_def slot_of_def free_size_def)
  moreover have "vm_kept (avl_node.more (n\<lparr>subtree_max_free_slot := ?v\<rparr>)) = vm_kept (avl_node.more n)"
    by (simp add: vm_kept_eq)
  ultimately show ?case
    by (intro exI [of _ "avl_node.more (n\<lparr>subtree_max_free_slot := ?v\<rparr>)"]) (simp only: more_slot)
next
  case (2 h a n h' n')
  have "slot_of h' c = slot_of h c" if "c = left n \<or> c = right n" for c
    using 2(6) [OF that] by (auto simp: slot_of_def more_eq split: option.splits)
  with 2 show ?case by (simp add: vm_aug_def more_eq free_size_def)
next
  case (3 h a n b m)
  then show ?case by (simp add: vm_avl_comp_addr_def vm_cmp_def)
qed

section \<open>Sequences of areas\<close>

definition start :: "vm_heap \<Rightarrow> u64 \<Rightarrow> u64" where
  "start h a = start_addr (the (h a))"

definition extent :: "vm_heap \<Rightarrow> u64 \<Rightarrow> u64" where
  "extent h a = node_size (the (h a))"

text \<open>Start addresses whose differences fit into the \<^verbatim>\<open>int\<close> that the comparator returns.\<close>

definition near :: "u64 set \<Rightarrow> bool" where
  "near A \<longleftrightarrow> (\<forall>a\<in>A. \<forall>b\<in>A. uint a < uint b + 2 ^ 31)"

definition area_tree :: "vm_heap \<Rightarrow> avl_tree \<Rightarrow> u64 tree \<Rightarrow> bool" where
  "area_tree h T t \<longleftrightarrow> vm.tree_at h 0 (root T) t \<and> distinct (inorder t) \<and> avl t \<and>
     sorted_wrt (<) (map (start h) (inorder t)) \<and> near (start h ` set_tree t)"

definition fresh_area :: "vm_heap \<Rightarrow> u64 \<Rightarrow> bool" where
  "fresh_area h x \<longleftrightarrow> x \<noteq> 0 \<and>
     (case h x of None \<Rightarrow> False
      | Some n \<Rightarrow> parent n = 0 \<and> left n = 0 \<and> right n = 0 \<and> subtree_max_depth n = 0 \<and>
          update n = VM_AVL_UPDATE \<and> subtree_max_free_slot n = free_size n)"

lemma keyof_start [simp]: "start_addr (vm.keyof h a) = start h a"
  by (simp add: vm.keyof_def start_def)

lemma frame_fields:
  assumes "vm.frame A h h'" and "h a = Some n"
  shows "\<exists>n'. h' a = Some n' \<and> start_addr n' = start_addr n \<and> node_size n' = node_size n \<and>
     node_type n' = node_type n \<and> node_flags n' = node_flags n \<and> backing n' = backing n \<and> update n' = update n"
  using vm.frame_Some [OF assms] by (auto simp: vm.stat_def vm_kept_eq)

lemma tree_node_alloc: "vm.tree_at h par p t \<Longrightarrow> a \<in> set_tree t \<Longrightarrow> \<exists>n. h a = Some n"
  by (induction t arbitrary: par p) auto

lemma path_at_alloc: "vm.path_at g h par p t \<Longrightarrow> a \<in> set_tree t \<Longrightarrow> \<exists>n. h a = Some n"
  by (induction t arbitrary: par p) (auto dest: tree_node_alloc split: if_splits)

lemma to_int_near:
  assumes "uint a < uint b + 2 ^ 31" and "uint b < uint a + 2 ^ 31"
  shows "to_int (a - b) = uint a - uint (b :: u64)"
proof -
  have "a - b = word_of_int (uint a - uint b)" by simp
  then show ?thesis using to_int_of_int [of "uint a - uint b"] assms by simp
qed

lemma vm_cmp_near: "near A \<Longrightarrow> start_addr a \<in> A \<Longrightarrow> start_addr b \<in> A \<Longrightarrow> vm_cmp a b = uint (start_addr a) - uint (start_addr b)"
  unfolding vm_cmp_def near_def by (rule to_int_near) blast+

lemma goes_left_near:
  assumes "near (start h ` insert x A)" and "a \<in> A"
  shows "vm.goes_left h x a \<longleftrightarrow> start h x < start h a"
  using vm_cmp_near [OF assms(1), of "vm.keyof h a" "vm.keyof h x"] assms(2)
  by (simp add: vm.goes_left_def word_less_def)

lemma fresh_area_leaf: "fresh_area h x \<Longrightarrow> vm.tree_at h 0 x (Node Leaf x Leaf)"
  by (auto simp: fresh_area_def vm_aug_def slot_of_def vm_valid_def split: option.splits)

text \<open>Insertion, also when the nodes on the way to the new place are out of date.\<close>

lemma insert_areas:
  assumes path: "vm.path_at (vm.goes_left h x) h 0 (root T) t" and d: "distinct (inorder t)" and "avl t"
    and x: "x \<notin> set_tree t" "fresh_area h x"
    and sorted: "sorted_wrt (<) (map (start h) (inorder t))"
    and new: "start h x \<notin> start h ` set_tree t" and near: "near (start h ` insert x (set_tree t))"
  shows "\<exists>T' h' t'. avl_insert vm_callbacks vm_avl_comp_addr T h x = Inr (T', h') \<and> area_tree h' T' t' \<and>
    inorder t' = filter (\<lambda>a. start h a < start h x) (inorder t) @ x # filter (\<lambda>a. start h x < start h a) (inorder t) \<and>
    vm.frame (insert x (set_tree t)) h h'"
proof -
  let ?g = "vm.goes_left h x"
  have g: "?g a \<longleftrightarrow> start h x < start h a" if "a \<in> set_tree t" for a
    by (rule goes_left_near [OF near that])
  from vm.insert_law [OF path d assms(3) x(1) fresh_area_leaf [OF x(2)]] obtain T' h' where
    h': "avl_insert vm_callbacks vm_avl_comp_addr T h x = Inr (T', h')" "vm.tree_at h' 0 (root T') (ins ?g x t)"
      "vm.frame (insert x (set_tree t)) h h'" by blast
  have "sorted_wrt (\<lambda>a b. start h a < start h b) (inorder t)" using sorted by (simp add: sorted_wrt_map)
  then have "sorted_wrt (\<lambda>a b. ?g a \<longrightarrow> ?g b) (inorder t)"
    by (rule sorted_wrt_mono_rel [rotated]) (auto simp: g)
  then have "inorder (ins ?g x t) = filter (\<lambda>a. \<not> ?g a) (inorder t) @ x # filter ?g (inorder t)"
    by (rule inorder_ins)
  moreover have "\<not> ?g a \<longleftrightarrow> start h a < start h x" if "a \<in> set_tree t" for a
    using g [OF that] new that by force
  then have "filter (\<lambda>a. \<not> ?g a) (inorder t) = filter (\<lambda>a. start h a < start h x) (inorder t)"
    by (intro filter_cong) auto
  moreover have "filter ?g (inorder t) = filter (\<lambda>a. start h x < start h a) (inorder t)"
    using g by (intro filter_cong) auto
  ultimately have i: "inorder (ins ?g x t) =
      filter (\<lambda>a. start h a < start h x) (inorder t) @ x # filter (\<lambda>a. start h x < start h a) (inorder t)"
    by simp
  have st: "start h' a = start h a" if "a \<in> insert x (set_tree t)" for a
  proof -
    have "\<exists>n. h a = Some n" using that path_at_alloc [OF path] x(2) by (auto simp: fresh_area_def split: option.splits)
    then show ?thesis using frame_fields [OF h'(3)] by (force simp: start_def)
  qed
  have "sorted_wrt (\<lambda>a b. start h a < start h b) (inorder (ins ?g x t))"
    unfolding i using sorted by (fastforce simp: sorted_wrt_append sorted_wrt_map intro: sorted_wrt_filter)
  then have "sorted_wrt (\<lambda>a b. start h' a < start h' b) (inorder (ins ?g x t))"
    by (rule sorted_wrt_mono_rel [rotated]) (auto simp: st)
  moreover have "start h' ` set_tree (ins ?g x t) = start h ` insert x (set_tree t)"
    using st by (auto simp: image_iff)
  ultimately have "area_tree h' T' (ins ?g x t)"
    using h'(2) ins_avl [OF assms(3), of ?g x] distinct_ins [OF d x(1)] near by (simp add: area_tree_def sorted_wrt_map)
  with h'(1,3) i show ?thesis by blast
qed

text \<open>The abstract content of a tree: start, size and type of its areas in address order.\<close>

definition area :: "vm_heap \<Rightarrow> u64 \<Rightarrow> u64 \<times> u64 \<times> vm_node_type" where
  "area h a = (start h a, extent h a, node_type (the (h a)))"

definition areas :: "vm_heap \<Rightarrow> u64 tree \<Rightarrow> (u64 \<times> u64 \<times> vm_node_type) list" where
  "areas h t = map (area h) (inorder t)"

lemma frame_area: "vm.frame A h h' \<Longrightarrow> h a = Some n \<Longrightarrow> area h' a = area h a"
  using frame_fields [of A h h' a n] by (auto simp: area_def start_def extent_def)

section \<open>Lookups\<close>

lemma temp_key_tree:
  assumes "area_tree h T t" and "TEMP_KEY \<notin> set_tree t"
  shows "vm.tree_at (h(TEMP_KEY \<mapsto> k)) 0 (root T) t"
  using assms by (auto simp: area_tree_def intro: vm.tree_at_cong)

text \<open>Every lookup by address whose comparator answers \<open>c\<close> consistently with the order of the areas.\<close>

lemma get_node_by_addr_law:
  assumes tree: "area_tree (vm_nodes s) T t" and key: "TEMP_KEY \<notin> set_tree t"
    and c: "\<And>a k. a \<in> set_tree t \<Longrightarrow> start_addr k = addr \<Longrightarrow>
              compare ((vm_nodes s)(TEMP_KEY \<mapsto> k)) a TEMP_KEY = Inr (c a)"
    and ord: "sorted_wrt (vm.search_order c) (inorder t)"
  shows "\<exists>q. get_node_by_addr compare T addr s = Inr q \<and>
           (q = 0 \<and> (\<forall>a\<in>set_tree t. c a \<noteq> 0) \<or> q \<in> set_tree t \<and> c q = 0)"
proof -
  let ?k = "zero_node\<lparr>start_addr := addr\<rparr>"
  have "\<forall>a\<in>set_tree t. compare ((vm_nodes s)(TEMP_KEY \<mapsto> ?k)) a TEMP_KEY = Inr (c a)" by (simp add: c)
  from vm.get_node_law [where compare = compare, OF temp_key_tree [OF tree key, of ?k] _ this ord] tree
  show ?thesis unfolding get_node_by_addr_def area_tree_def by blast
qed

lemma tree_node:
  "vm.tree_at h par p t \<Longrightarrow> a \<in> set_tree t \<Longrightarrow> \<exists>n. h a = Some n \<and> a \<noteq> 0"
  using tree_node_alloc [of h par p t a] vm.tree_at_nonzero [of h par p t] by metis

lemma TEMP_KEY_nonzero [simp]: "TEMP_KEY \<noteq> 0"
  by (simp add: TEMP_KEY_def)

lemma get_node_by_start_law:
  assumes tree: "area_tree (vm_nodes s) T t" and key: "TEMP_KEY \<notin> set_tree t"
    and near: "near (insert addr (start (vm_nodes s) ` set_tree t))"
  shows "\<exists>q. get_node_by_addr vm_avl_comp_addr T addr s = Inr q \<and>
           (q = 0 \<and> addr \<notin> start (vm_nodes s) ` set_tree t \<or> q \<in> set_tree t \<and> start (vm_nodes s) q = addr)"
proof -
  let ?h = "vm_nodes s"
  define c where "c a = uint (start ?h a) - uint addr" for a
  have "vm_avl_comp_addr (?h(TEMP_KEY \<mapsto> k)) a TEMP_KEY = Inr (c a)"
    if a: "a \<in> set_tree t" "start_addr k = addr" for a k
  proof -
    obtain n where "?h a = Some n" "a \<noteq> 0"
      using tree_node [of ?h 0 "root T" t a] tree a by (auto simp: area_tree_def)
    moreover have "to_int (start ?h a - addr) = c a"
      unfolding c_def using near a by (intro to_int_near) (auto simp: near_def)
    moreover have "a \<noteq> TEMP_KEY" using key a by auto
    ultimately show ?thesis using a by (simp add: vm_avl_comp_addr_def start_def)
  qed
  moreover have "sorted_wrt (\<lambda>a b. start ?h a < start ?h b) (inorder t)"
    using tree by (simp add: area_tree_def sorted_wrt_map)
  then have "sorted_wrt (vm.search_order c) (inorder t)"
    by (rule sorted_wrt_mono_rel [rotated]) (auto simp: vm.search_order_def c_def word_less_def)
  ultimately obtain q where "get_node_by_addr vm_avl_comp_addr T addr s = Inr q"
      "q = 0 \<and> (\<forall>a\<in>set_tree t. c a \<noteq> 0) \<or> q \<in> set_tree t \<and> c q = 0"
    using get_node_by_addr_law [OF tree key, of addr vm_avl_comp_addr c] by blast
  moreover have "c a = 0 \<longleftrightarrow> start ?h a = addr" for a by (simp add: c_def word_uint_eq_iff)
  ultimately show ?thesis by (auto simp: image_iff)
qed

text \<open>Areas that do not overlap and do not reach the end of the address space.\<close>

definition disjoint_areas :: "vm_heap \<Rightarrow> u64 tree \<Rightarrow> bool" where
  "disjoint_areas h t \<longleftrightarrow>
     sorted_wrt (\<lambda>a b. unat (start h a) + unat (extent h a) \<le> unat (start h b)) (inorder t) \<and>
     (\<forall>a\<in>set_tree t. unat (start h a) + unat (extent h a) < 2 ^ 64)"

definition in_area :: "vm_heap \<Rightarrow> u64 \<Rightarrow> u64 \<Rightarrow> bool" where
  "in_area h addr a \<longleftrightarrow> unat (start h a) \<le> unat addr \<and> unat addr < unat (start h a) + unat (extent h a)"

lemma get_node_by_space_law:
  assumes tree: "area_tree (vm_nodes s) T t" and key: "TEMP_KEY \<notin> set_tree t"
    and disj: "disjoint_areas (vm_nodes s) t"
  shows "\<exists>q. get_node_by_addr vm_avl_comp_addr_space T addr s = Inr q \<and>
           (q = 0 \<and> (\<forall>a\<in>set_tree t. \<not> in_area (vm_nodes s) addr a) \<or> q \<in> set_tree t \<and> in_area (vm_nodes s) addr q)"
proof -
  let ?h = "vm_nodes s"
  define c where "c a = (if in_area ?h addr a then 0 else if start ?h a > addr then 1 else - 1 :: int)" for a
  have "vm_avl_comp_addr_space (?h(TEMP_KEY \<mapsto> k)) a TEMP_KEY = Inr (c a)"
    if a: "a \<in> set_tree t" "start_addr k = addr" for a k
  proof -
    obtain n where n: "?h a = Some n" "a \<noteq> 0"
      using tree_node [of ?h 0 "root T" t a] tree a by (auto simp: area_tree_def)
    then have "unat (start_addr n + node_size n) = unat (start_addr n) + unat (node_size n)"
      using disj a by (intro unat_add_small) (force simp: disjoint_areas_def start_def extent_def)
    moreover have "a \<noteq> TEMP_KEY" using key a by auto
    ultimately show ?thesis
      using n a by (auto simp: vm_avl_comp_addr_space_def c_def in_area_def start_def extent_def word_le_nat_alt word_less_nat_alt)
  qed
  moreover have "sorted_wrt (\<lambda>a b. unat (start ?h a) + unat (extent ?h a) \<le> unat (start ?h b)) (inorder t)"
    using disj by (simp add: disjoint_areas_def)
  then have "sorted_wrt (vm.search_order c) (inorder t)"
    by (rule sorted_wrt_mono_rel [rotated])
       (auto simp: vm.search_order_def c_def in_area_def word_less_nat_alt split: if_splits)
  ultimately obtain q where "get_node_by_addr vm_avl_comp_addr_space T addr s = Inr q"
      "q = 0 \<and> (\<forall>a\<in>set_tree t. c a \<noteq> 0) \<or> q \<in> set_tree t \<and> c q = 0"
    using get_node_by_addr_law [OF tree key, of addr vm_avl_comp_addr_space c] by blast
  then show ?thesis by (auto simp: c_def split: if_splits)
qed

text \<open>The slot of a subtree is the size of its largest free area, and the worst-fit lookup finds it.\<close>

lemma slot_max:
  assumes "vm.tree_at h par p t"
  shows "(\<forall>a\<in>set_tree t. free_size (the (h a)) \<le> slot_of h p) \<and>
         (slot_of h p \<noteq> 0 \<longrightarrow> (\<exists>a\<in>set_tree t. free_size (the (h a)) = slot_of h p))"
  using assms
proof (induction t arbitrary: par p)
  case Leaf
  then show ?case by (simp add: slot_of_def)
next
  case (Node l a r)
  from Node.prems obtain n where n: "p = a" "a \<noteq> 0" "h a = Some n" "vm_aug h a"
      "vm.tree_at h a (left n) l" "vm.tree_at h a (right n) r" by auto
  have "slot_of h p = max (max (slot_of h (left n)) (slot_of h (right n))) (free_size n)"
    using n by (simp add: slot_of_def vm_aug_def)
  with Node.IH(1) [OF n(5)] Node.IH(2) [OF n(6)] n(3) show ?case
    by (auto simp: max_def le_max_iff_disj split: if_splits intro: order_trans)
qed

lemma worst_fit_rec_law:
  assumes "vm.tree_at h par p t" and "height t < fuel"
  shows "\<exists>q. avl_get_node_rec fuel vm_avl_comp_max_free_slot h p key = Inr q \<and>
           (q = 0 \<and> slot_of h p = 0 \<or>
            q \<in> set_tree t \<and> node_type (the (h q)) = VMA_FREE \<and> node_size (the (h q)) = slot_of h p)"
  using assms
proof (induction t arbitrary: par p fuel)
  case Leaf
  then show ?case by (cases fuel) (auto simp: slot_of_def)
next
  case (Node l a r)
  from Node.prems(2) obtain f where f: "fuel = Suc f" by (cases fuel) auto
  from Node.prems(1) obtain n where n: "p = a" "a \<noteq> 0" "h a = Some n" "vm_aug h a"
      "vm.tree_at h a (left n) l" "vm.tree_at h a (right n) r" by auto
  have slot: "slot_of h p = max (max (slot_of h (left n)) (slot_of h (right n))) (free_size n)"
    "subtree_max_free_slot n = slot_of h p" using n by (simp_all add: slot_of_def vm_aug_def)
  have left: "(if left n \<noteq> 0 then bindE (rd h (left n)) (\<lambda>l. Inr (subtree_max_free_slot l = subtree_max_free_slot n))
      else Inr False) = Inr (left n \<noteq> 0 \<and> slot_of h (left n) = slot_of h p)"
    using vm.tree_at_alloc [OF n(5)] slot(2) by (auto simp: slot_of_def)
  have hl: "height l < f" "height r < f" using Node.prems(2) f by auto
  show ?case
  proof (cases "node_size n = slot_of h p \<and> node_type n = VMA_FREE")
    case True
    then show ?thesis using n f slot by (auto simp: vm_avl_comp_max_free_slot_def free_size_def)
  next
    case False
    have cmp: "vm_avl_comp_max_free_slot h a key = Inr (if left n \<noteq> 0 \<and> slot_of h (left n) = slot_of h p then 1 else - 1)"
      using False n(2,3) slot(2) left unfolding vm_avl_comp_max_free_slot_def by auto
    show ?thesis
    proof (cases "left n \<noteq> 0 \<and> slot_of h (left n) = slot_of h p")
      case True
      from Node.IH(1) [OF n(5) hl(1)] True show ?thesis using n f cmp by auto
    next
      case go: False
      then have "slot_of h (right n) = slot_of h p"
        using slot(1) False by (auto simp: max_def slot_of_def free_size_def split: if_splits)
      with Node.IH(2) [OF n(6) hl(2)] show ?thesis using n f cmp go by auto
    qed
  qed
qed

lemma worst_fit_law:
  assumes tree: "area_tree h T t"
  shows "\<exists>q. avl_get_node vm_avl_comp_max_free_slot T h key = Inr q \<and>
           (q = 0 \<and> (\<forall>a\<in>set_tree t. free_size (the (h a)) = 0) \<or>
            q \<in> set_tree t \<and> node_type (the (h q)) = VMA_FREE \<and>
            (\<forall>a\<in>set_tree t. free_size (the (h a)) \<le> extent h q))"
proof -
  have t: "vm.tree_at h 0 (root T) t" "distinct (inorder t)" using tree by (simp_all add: area_tree_def)
  have "height t < AVL_FUEL"
    using height_le_size_tree [of t] size_addr_tree [OF t(2) vm.tree_at_nonzero [OF t(1)]]
    by (simp add: AVL_FUEL_def)
  from worst_fit_rec_law [OF t(1) this, of key] slot_max [OF t(1)] vm.tree_at_root [OF t(1)]
  show ?thesis unfolding avl_get_node_def extent_def by (cases "root T = 0") auto
qed

section \<open>Properties\<close>

text \<open>
  A tree of two areas: an allocated page at 0x10000 and five free pages behind it. The node at 0x3000 is
  not in the tree; it describes a free page behind them.
\<close>

definition vm_small :: vm_heap where
  "vm_small = [
     0x1000 \<mapsto> zero_node\<lparr>right := 0x2000, subtree_max_depth := 1, update := VM_AVL_UPDATE, start_addr := 0x10000,
       node_size := 0x1000, node_type := VMA_REGULAR, subtree_max_free_slot := 0x5000\<rparr>,
     0x2000 \<mapsto> zero_node\<lparr>parent := 0x1000, update := VM_AVL_UPDATE, start_addr := 0x11000,
       node_size := 0x5000, subtree_max_free_slot := 0x5000\<rparr>,
     0x3000 \<mapsto> zero_node\<lparr>update := VM_AVL_UPDATE, start_addr := 0x16000,
       node_size := 0x1000, subtree_max_free_slot := 0x1000\<rparr>]"

definition vm_small_tree :: avl_tree where "vm_small_tree = \<lparr>root = 0x1000, avl_size = 0\<rparr>"

abbreviation vm_small_shape :: "u64 tree" where
  "vm_small_shape \<equiv> Node Leaf 0x1000 (Node Leaf 0x2000 Leaf)"

definition vma_small :: vma_state where
  "vma_small = \<lparr>bitmap = [], bitmap_size_bytes = 0, bitmap_size_frames = 0, memory_total_frame_count = 0,
     memory_used_frame_count = 0, phys_mem = (\<lambda>_. 0), PML4 = 0, kernel_vma_heap_tree = vm_small_tree,
     kernel_vma_mmio_tree = \<lparr>root = 0, avl_size = 0\<rparr>, free_list = 0x3000, free_node_count = 10,
     in_replenish_cycle = 0, vm_nodes = vm_small\<rparr>"

lemma vm_small_start [simp]:
  "start vm_small 0x1000 = 0x10000" "start vm_small 0x2000 = 0x11000" "start vm_small 0x3000 = 0x16000"
  "extent vm_small 0x1000 = 0x1000" "extent vm_small 0x2000 = 0x5000"
  by (simp_all add: start_def extent_def vm_small_def)

lemma vm_small_area_tree: "area_tree vm_small vm_small_tree vm_small_shape"
  by (simp add: area_tree_def vm_small_tree_def near_def)
     (simp add: vm_small_def vm_aug_def slot_of_def vm_valid_def free_size_def zero_node_def)

lemma vm_small_disjoint: "disjoint_areas vm_small vm_small_shape"
  by (simp add: disjoint_areas_def)

lemma vm_small_free: "free_size (the (vm_small 0x2000)) = 0x5000" "free_size (the (vm_small 0x1000)) = 0"
  by (simp_all add: vm_small_def free_size_def zero_node_def)

lemma vma_small_sel [simp]:
  "vm_nodes vma_small = vm_small" "free_list vma_small = 0x3000" "free_node_count vma_small = 10"
  "get_tree HEAP_TREE vma_small = vm_small_tree"
  by (simp_all add: vma_small_def get_tree_def)

text \<open>C5: Inserting an initialised node into a tree of areas, all of whose start addresses lie within 2
  gigabytes of each other, returns a tree that is again balanced, ordered by start address and
  correctly augmented, contains exactly one more node, and leaves the areas themselves and all other
  nodes unchanged.\<close>

theorem vma_insert_keeps_tree:
  assumes "area_tree h T t" and "x \<notin> set_tree t" and "fresh_area h x"
    and "start h x \<notin> start h ` set_tree t" and "near (start h ` insert x (set_tree t))"
  shows "\<exists>T' h' t'. avl_insert vm_callbacks vm_avl_comp_addr T h x = Inr (T', h') \<and> area_tree h' T' t' \<and>
    set_tree t' = insert x (set_tree t) \<and> (\<forall>a\<in>set_tree t'. area h' a = area h a) \<and>
    (\<forall>a. a \<notin> set_tree t' \<longrightarrow> h' a = h a)"
proof -
  have t: "vm.tree_at h 0 (root T) t" "distinct (inorder t)" "avl t" "sorted_wrt (<) (map (start h) (inorder t))"
    using assms(1) by (simp_all add: area_tree_def)
  from insert_areas [OF vm.tree_at_path [OF t(1)] t(2,3) assms(2,3) t(4) assms(4,5)] obtain T' h' t' where
    h': "avl_insert vm_callbacks vm_avl_comp_addr T h x = Inr (T', h')" "area_tree h' T' t'"
      "inorder t' = filter (\<lambda>a. start h a < start h x) (inorder t) @ x # filter (\<lambda>a. start h x < start h a) (inorder t)"
      "vm.frame (insert x (set_tree t)) h h'" by blast
  have set: "set_tree t' = insert x (set_tree t)"
    using arg_cong [OF h'(3), of set] assms(4) by (auto simp: neq_iff)
  have "area h' a = area h a" if "a \<in> set_tree t'" for a
  proof -
    have "\<exists>n. h a = Some n"
      using that tree_node_alloc [OF t(1)] assms(3) by (auto simp: set fresh_area_def split: option.splits)
    then show ?thesis using frame_area [OF h'(4)] by blast
  qed
  moreover have "h' a = h a" if "a \<notin> set_tree t'" for a
    using vm.frame_out [OF h'(4)] that by (simp add: set)
  ultimately show ?thesis using h'(1,2) set by blast
qed

theorem vma_insert_keeps_tree_witness:
  "\<exists>T' h' t'. avl_insert vm_callbacks vm_avl_comp_addr vm_small_tree vm_small 0x3000 = Inr (T', h') \<and> area_tree h' T' t' \<and>
    set_tree t' = {0x1000, 0x2000, 0x3000}"
proof -
  have "fresh_area vm_small 0x3000"
    by (simp add: fresh_area_def vm_small_def zero_node_def free_size_def)
  then show ?thesis
    using vma_insert_keeps_tree [OF vm_small_area_tree, of "0x3000"] by (force simp: near_def)
qed

text \<open>C18: The lookup by start address, which release uses, returns the node that starts at the address
  if there is one and \<^verbatim>\<open>NULL\<close> otherwise, as long as the address and the start addresses lie within 2
  gigabytes of each other.\<close>

theorem vma_lookup_start_correct:
  assumes "area_tree (vm_nodes s) T t" and "TEMP_KEY \<notin> set_tree t"
    and "near (insert addr (start (vm_nodes s) ` set_tree t))"
  shows "\<exists>q. get_node_by_addr vm_avl_comp_addr T addr s = Inr q \<and>
    (if addr \<in> start (vm_nodes s) ` set_tree t then q \<in> set_tree t \<and> start (vm_nodes s) q = addr else q = 0)"
  using get_node_by_start_law [OF assms] by auto

theorem vma_lookup_start_correct_witness:
  "\<exists>q. get_node_by_addr vm_avl_comp_addr vm_small_tree 0x11000 vma_small = Inr q \<and> q \<in> {0x1000, 0x2000} \<and>
     start vm_small q = 0x11000"
  using vma_lookup_start_correct [where s = vma_small and T = vm_small_tree and t = vm_small_shape and addr = "0x11000"]
    vm_small_area_tree by (auto simp: near_def TEMP_KEY_def)



text \<open>C17: The worst-fit lookup returns a free area that no other free area exceeds in size; it returns
  \<^verbatim>\<open>NULL\<close> only when no area with any free space is left.\<close>

theorem vma_worst_fit_correct:
  assumes "area_tree h T t"
  shows "\<exists>q. avl_get_node vm_avl_comp_max_free_slot T h key = Inr q \<and>
    (q = 0 \<and> (\<forall>a\<in>set_tree t. free_size (the (h a)) = 0) \<or>
     q \<in> set_tree t \<and> node_type (the (h q)) = VMA_FREE \<and> (\<forall>a\<in>set_tree t. free_size (the (h a)) \<le> extent h q))"
  by (rule worst_fit_law [OF assms])

theorem vma_worst_fit_correct_witness:
  "\<exists>q. avl_get_node vm_avl_comp_max_free_slot vm_small_tree vm_small 0 = Inr q \<and>
    q \<in> {0x1000, 0x2000} \<and> node_type (the (vm_small q)) = VMA_FREE"
  using vma_worst_fit_correct [OF vm_small_area_tree, of 0] vm_small_free by auto

text \<open>The comparator by start address truncates a 64-bit difference to \<^verbatim>\<open>int\<close>: two areas that start a
  multiple of 4 gigabytes apart, inside the 16 gigabytes of the kernel heap, compare as equal.\<close>

theorem vm_avl_comp_addr_truncates:
  assumes "h a = Some n" and "h b = Some m" and "a \<noteq> 0" and "b \<noteq> 0" and "start_addr n = start_addr m + of_nat k * 0x100000000"
  shows "vm_avl_comp_addr h a b = Inr 0"
proof -
  have "start_addr n - start_addr m = word_of_int (int k * 2 ^ 32)" using assms(5) by simp
  moreover have "(word_of_int (int k * 2 ^ 32) :: u32) = word_of_int 0"
    unfolding word_of_int_eq_iff take_bit_eq_mod by simp
  then have "(ucast (word_of_int (int k * 2 ^ 32) :: u64) :: u32) = 0" by (simp only: ucast_word_of_int_u32 of_int_0)
  ultimately show ?thesis using assms(1-4) by (simp add: vm_avl_comp_addr_def to_int_def)
qed

theorem vm_avl_comp_addr_truncates_witness:
  "vm_avl_comp_addr [0x1000 \<mapsto> zero_node\<lparr>start_addr := KERNEL_HEAP_START + 0x100000000\<rparr>,
      0x2000 \<mapsto> zero_node\<lparr>start_addr := KERNEL_HEAP_START\<rparr>] 0x1000 0x2000 = Inr 0"
  using vm_avl_comp_addr_truncates [where k = 1] by simp

end
