(* ===== verification/Vma_Alloc.thy ===== *)
theory Vma_Alloc
  imports Vma_Tree
begin

text \<open>
  Allocation from a tree of virtual memory areas implements an operation on the sequence of areas: a
  largest free area is cut in two, the front part becomes the allocated area and the rest stays free.
\<close>

section \<open>The operation on sequences of areas\<close>

fun carve :: "u64 \<Rightarrow> u64 \<Rightarrow> vm_node_type \<Rightarrow> (u64 \<times> u64 \<times> vm_node_type) list \<Rightarrow> (u64 \<times> u64 \<times> vm_node_type) list" where
  "carve st sz ty [] = []"
| "carve st sz ty ((a, n, k) # as) =
     (if a = st then (a, sz, ty) # (a + sz, n - sz, VMA_FREE) # as else (a, n, k) # carve st sz ty as)"

lemma carve_append:
  "st \<notin> fst ` set xs \<Longrightarrow> carve st sz ty (xs @ (st, n, k) # ys) = xs @ (st, sz, ty) # (st + sz, n - sz, VMA_FREE) # ys"
  by (induction xs) auto

lemma get_set_tree_ref [simp]:
  "get_tree tr (set_tree_ref tr T s) = T" "vm_nodes (set_tree_ref tr T s) = vm_nodes s"
  "free_list (set_tree_ref tr T s) = free_list s" "free_node_count (set_tree_ref tr T s) = free_node_count s"
  by (simp_all add: get_tree_def set_tree_ref_def split: tree_ref.splits)

lemma get_tree_upd [simp]:
  "get_tree tr (s\<lparr>vm_nodes := h\<rparr>) = get_tree tr s" "get_tree tr (s\<lparr>free_list := p\<rparr>) = get_tree tr s"
  "get_tree tr (s\<lparr>free_node_count := c\<rparr>) = get_tree tr s"
  by (simp_all add: get_tree_def split: tree_ref.splits)

section \<open>Cutting an area in two\<close>

text \<open>The node for the part that is left over, and the heap in which it is inserted.\<close>

definition leftover :: "vm_heap \<Rightarrow> u64 \<Rightarrow> u64 \<Rightarrow> vm_ds_node" where
  "leftover h q sz = zero_node\<lparr>start_addr := start h q + sz, node_size := extent h q - sz, node_type := VMA_FREE,
     subtree_max_free_slot := extent h q - sz, update := VM_AVL_UPDATE\<rparr>"

definition cut_heap :: "vm_heap \<Rightarrow> u64 \<Rightarrow> u64 \<Rightarrow> u64 \<Rightarrow> vm_node_type \<Rightarrow> u32 \<Rightarrow> vm_heap" where
  "cut_heap h q f sz ty flags =
     h(f \<mapsto> leftover h q sz, q \<mapsto> (the (h q))\<lparr>node_type := ty, node_flags := flags, node_size := sz\<rparr>)"

lemma cut_start:
  "q \<noteq> f \<Longrightarrow> start (cut_heap h q f sz ty fl) a = (if a = f then start h q + sz else start h a)"
  by (auto simp: cut_heap_def start_def leftover_def)

lemma cut_area:
  assumes "q \<noteq> f"
  shows "area (cut_heap h q f sz ty fl) a =
     (if a = q then (start h q, sz, ty) else if a = f then (start h q + sz, extent h q - sz, VMA_FREE) else area h a)"
  using assms by (auto simp: cut_heap_def area_def start_def extent_def leftover_def)

lemma cut_fresh: "q \<noteq> f \<Longrightarrow> f \<noteq> 0 \<Longrightarrow> fresh_area (cut_heap h q f sz ty fl) f"
  by (simp add: fresh_area_def cut_heap_def leftover_def zero_node_def free_size_def)

lemma disjoint_order:
  assumes "disjoint_areas h t" and "area_tree h T t" and "inorder t = xs @ q # ys"
  shows "\<forall>a\<in>set xs. start h a < start h q" and "\<forall>a\<in>set ys. unat (start h q) + unat (extent h q) \<le> unat (start h a)"
  using assms by (auto simp: disjoint_areas_def area_tree_def sorted_wrt_append sorted_wrt_map)

lemma cut_path:
  assumes tree: "area_tree h T t" and disj: "disjoint_areas h t" and q: "q \<in> set_tree t" and f: "f \<notin> set_tree t"
    and sz: "sz < extent h q" "sz \<noteq> 0"
    and near: "near (insert (start h q + sz) (start h ` set_tree t))"
  shows "vm.path_at (vm.goes_left (cut_heap h q f sz ty fl) f) (cut_heap h q f sz ty fl) 0 (root T) t \<and>
    start h q < start h q + sz \<and> (\<forall>a\<in>set_tree t. a \<noteq> q \<longrightarrow> (start h q + sz < start h a \<longleftrightarrow> start h q < start h a)) \<and>
    start h q + sz \<notin> start h ` set_tree t"
proof -
  let ?h = "cut_heap h q f sz ty fl"
  have qf: "q \<noteq> f" using q f by auto
  obtain xs ys where i: "inorder t = xs @ q # ys" using q by (metis set_inorder split_list)
  have st: "set_tree t = set xs \<union> {q} \<union> set ys" using arg_cong [OF i, of set] by auto
  note ord = disjoint_order [OF disj tree i]
  have "unat (start h q) + unat (extent h q) < 2 ^ 64" using disj q by (auto simp: disjoint_areas_def)
  then have add: "unat (start h q + sz) = unat (start h q) + unat sz"
    using sz by (intro unat_add_small) (auto simp: word_less_nat_alt)
  have pos: "0 < unat sz" using sz(2) by (simp add: unat_gt_0)
  have 1: "start h q < start h q + sz" using add pos by (simp add: word_less_nat_alt)
  have 2: "start h q + sz < start h a \<longleftrightarrow> start h q < start h a" if "a \<in> set_tree t" "a \<noteq> q" for a
    using that ord add sz pos by (fastforce simp: st word_less_nat_alt)
  have 3: "start h q + sz \<noteq> start h a" if "a \<in> set_tree t" for a
    using that ord add sz pos 1 by (fastforce simp: st word_less_nat_alt)
  have nodes: "vm.tree_at h 0 (root T) t" "distinct (inorder t)" "sorted_wrt (<) (map (start h) (inorder t))"
    using tree by (simp_all add: area_tree_def)
  obtain n where n: "h q = Some n" using tree_node_alloc [OF nodes(1) q] by blast
  let ?h1 = "h(f \<mapsto> leftover h q sz)"
  have "vm.tree_at ?h1 0 (root T) t" using nodes(1) f by (auto intro: vm.tree_at_cong)
  moreover have "near (start ?h ` insert f (set_tree t))"
    using near f qf by (auto simp: near_def cut_start)
  then have "vm.goes_left ?h f a \<longleftrightarrow> start ?h f < start ?h a" if "a \<in> set_tree t" for a
    by (rule goes_left_near [OF _ that])
  then have "vm.goes_left ?h f a \<longleftrightarrow> uint (start h q) < uint (start h a)" if "a \<in> set_tree t" "a \<noteq> q" for a
    using 2 [OF that] that f qf by (auto simp: cut_start word_less_def)
  moreover have "update n = VM_AVL_UPDATE"
    using nodes(1) q n by (metis vm.tree_at_valid vm_valid_def)
  ultimately have "vm.path_at (vm.goes_left ?h f) (?h1(q \<mapsto> n\<lparr>node_type := ty, node_flags := fl, node_size := sz\<rparr>)) 0 (root T) t"
    using nodes n q qf
    by (intro vm.path_at_changed [where k = "\<lambda>a. uint (start h a)" and n = n])
       (auto simp: vm_valid_def sorted_wrt_map word_less_def)
  then have "vm.path_at (vm.goes_left ?h f) ?h 0 (root T) t" using n by (simp add: cut_heap_def)
  with 1 2 3 show ?thesis by auto
qed

lemma filter_cut:
  assumes "\<forall>a\<in>set xs. P a" and "P q" and "\<forall>a\<in>set ys. \<not> P a"
  shows "filter P (xs @ q # ys) = xs @ [q]"
  using assms by simp

lemma filter_rest:
  assumes "\<forall>a\<in>set xs. \<not> P a" and "\<not> P q" and "\<forall>a\<in>set ys. P a"
  shows "filter P (xs @ q # ys) = ys"
  using assms by simp

lemma inorder_parts:
  assumes "inorder t = xs @ q # ys" and "distinct (inorder t)"
  shows "set_tree t = set xs \<union> {q} \<union> set ys" and "q \<notin> set xs" and "q \<notin> set ys"
proof -
  show "set_tree t = set xs \<union> {q} \<union> set ys" using arg_cong [OF assms(1), of set] by auto
  show "q \<notin> set xs" "q \<notin> set ys" using assms by simp_all
qed

text \<open>What the areas of a tree are after the area of \<open>q\<close> was cut and \<open>f\<close> put behind it.\<close>

lemma carve_areas:
  assumes i: "inorder t = xs @ q # ys" "inorder t' = xs @ q # f # ys"
    and old: "\<And>a. a \<in> set xs \<union> set ys \<Longrightarrow> area h' a = area h a"
    and new: "area h' q = (start h q, sz, ty)" "area h' f = (start h q + sz, extent h q - sz, VMA_FREE)"
    and ord: "\<forall>a\<in>set xs. start h a < start h q"
  shows "areas h' t' = carve (start h q) sz ty (areas h t)"
proof -
  have "start h q \<notin> fst ` set (map (area h) xs)" using ord by (auto simp: area_def)
  then have "carve (start h q) sz ty (map (area h) xs @ area h q # map (area h) ys) =
      map (area h) xs @ (start h q, sz, ty) # (start h q + sz, extent h q - sz, VMA_FREE) # map (area h) ys"
    unfolding area_def [of h q] by (rule carve_append)
  moreover have "map (area h') xs = map (area h) xs" "map (area h') ys = map (area h) ys" using old by simp_all
  ultimately show ?thesis unfolding areas_def i by (simp add: new)
qed

lemma disjoint_cut:
  assumes i: "inorder t = xs @ q # ys" "inorder t' = xs @ q # f # ys"
    and disj: "disjoint_areas h t" and sz: "sz < extent h q"
    and old: "\<And>a. a \<in> set xs \<union> set ys \<Longrightarrow> area h' a = area h a"
    and new: "area h' q = (start h q, sz, ty)" "area h' f = (start h q + sz, extent h q - sz, VMA_FREE)"
  shows "disjoint_areas h' t'"
proof -
  let ?R = "\<lambda>h a b. unat (start h a) + unat (extent h a) \<le> unat (start h b)"
  have st: "set_tree t = set xs \<union> {q} \<union> set ys" "set_tree t' = set xs \<union> {q, f} \<union> set ys"
    using arg_cong [OF i(1), of set] arg_cong [OF i(2), of set] by auto
  have R: "sorted_wrt (?R h) (xs @ q # ys)" "\<forall>a\<in>set xs \<union> {q} \<union> set ys. unat (start h a) + unat (extent h a) < 2 ^ 64"
    using disj unfolding disjoint_areas_def i st by blast+
  have le: "unat sz \<le> unat (extent h q)" using sz by (simp add: word_less_nat_alt)
  have "unat (start h q + sz) = unat (start h q) + unat sz"
    using R(2) le by (intro unat_add_small) auto
  then have eq: "unat (start h' q) = unat (start h q)" "unat (extent h' q) = unat sz"
      "unat (start h' f) = unat (start h q) + unat sz" "unat (extent h' f) = unat (extent h q) - unat sz"
    using new sz by (simp_all add: area_def unat_sub order_less_imp_le)
  have e: "start h' a = start h a" "extent h' a = extent h a" if "a \<in> set xs \<union> set ys" for a
    using old [OF that] by (simp_all add: area_def)
  have "sorted_wrt (?R h') xs" "sorted_wrt (?R h') ys"
    using R(1) by (auto simp: sorted_wrt_append e intro: sorted_wrt_mono_rel [where P = "?R h"])
  moreover have "\<forall>a\<in>set xs. \<forall>b\<in>set ys. ?R h' a b" "\<forall>a\<in>set xs. ?R h' a q" "\<forall>b\<in>set ys. ?R h q b"
    using R(1) by (auto simp: sorted_wrt_append e eq)
  ultimately have "sorted_wrt (?R h') (xs @ q # f # ys)"
    using le by (fastforce simp: sorted_wrt_append e eq)
  moreover have "\<forall>a\<in>set_tree t'. unat (start h' a) + unat (extent h' a) < 2 ^ 64"
    using R(2) le by (auto simp: st e eq)
  ultimately show ?thesis unfolding disjoint_areas_def i by blast
qed

lemma cut_filters:
  fixes s :: "u64 \<Rightarrow> u64"
  assumes i: "inorder t = xs @ q # ys" and d: "distinct (inorder t)"
    and f: "s f = start h q + sz" and s: "\<And>a. a \<in> set_tree t \<Longrightarrow> s a = start h a"
    and ord: "\<forall>a\<in>set xs. start h a < start h q" and up: "start h q < start h q + sz"
    and after: "\<forall>a\<in>set ys. start h q + sz < start h a"
  shows "filter (\<lambda>a. s a < s f) (inorder t) = xs @ [q]" and "filter (\<lambda>a. s f < s a) (inorder t) = ys"
proof -
  note xy = inorder_parts [OF i d]
  have x: "s a < s f" if "a \<in> set xs" for a
    using less_trans [OF ord [rule_format, OF that] up] that xy s f by simp
  have y: "s f < s a" if "a \<in> set ys" for a using after that xy s f by simp
  have q: "s q < s f" using up xy s f by simp
  show "filter (\<lambda>a. s a < s f) (inorder t) = xs @ [q]"
    unfolding i using x y q by (intro filter_cut) (auto dest: less_asym)
  show "filter (\<lambda>a. s f < s a) (inorder t) = ys"
    unfolding i using x y q by (intro filter_rest) (auto dest: less_asym)
qed

lemma cut_law:
  assumes tree: "area_tree h T t" and disj: "disjoint_areas h t" and q: "q \<in> set_tree t" and f: "f \<notin> set_tree t" "f \<noteq> 0"
    and sz: "sz < extent h q" "sz \<noteq> 0"
    and near: "near (insert (start h q + sz) (start h ` set_tree t))"
  shows "\<exists>T' h' t' n. avl_insert vm_callbacks vm_avl_comp_addr T (cut_heap h q f sz ty fl) f = Inr (T', h') \<and>
    area_tree h' T' t' \<and> set_tree t' = insert f (set_tree t) \<and> areas h' t' = carve (start h q) sz ty (areas h t) \<and>
    disjoint_areas h' t' \<and> (\<forall>a. a \<notin> insert f (set_tree t) \<longrightarrow> h' a = h a) \<and>
    q \<noteq> 0 \<and> h' q = Some n \<and> start_addr n = start h q"
proof -
  let ?h = "cut_heap h q f sz ty fl"
  have qf: "q \<noteq> f" using q f by auto
  have path: "vm.path_at (vm.goes_left ?h f) ?h 0 (root T) t" and up: "start h q < start h q + sz"
    and after: "\<And>a. a \<in> set_tree t \<Longrightarrow> a \<noteq> q \<Longrightarrow> start h q + sz < start h a \<longleftrightarrow> start h q < start h a"
    and new: "start h q + sz \<notin> start h ` set_tree t"
    using cut_path [OF tree disj q f(1) sz near, of ty fl] by auto
  have t: "distinct (inorder t)" "avl t" "sorted_wrt (<) (map (start h) (inorder t))" "vm.tree_at h 0 (root T) t"
    using tree by (simp_all add: area_tree_def)
  have st: "start ?h a = start h a" if "a \<in> set_tree t" for a using that f qf by (auto simp: cut_start)
  have eq: "map (start ?h) (inorder t) = map (start h) (inorder t)" by (simp add: st)
  have s1: "sorted_wrt (<) (map (start ?h) (inorder t))" unfolding eq by (rule t(3))
  have n1: "start ?h f \<notin> start ?h ` set_tree t" using new f qf by (auto simp: cut_start)
  have n2: "near (start ?h ` insert f (set_tree t))" using near f qf by (auto simp: near_def cut_start)
  obtain T' h' t' where h': "avl_insert vm_callbacks vm_avl_comp_addr T ?h f = Inr (T', h')" "area_tree h' T' t'"
      "inorder t' = filter (\<lambda>a. start ?h a < start ?h f) (inorder t) @ f # filter (\<lambda>a. start ?h f < start ?h a) (inorder t)"
      "vm.frame (insert f (set_tree t)) ?h h'"
    using insert_areas [OF path t(1,2) f(1) cut_fresh [OF qf f(2)] s1 n1 n2] by blast
  obtain xs ys where i: "inorder t = xs @ q # ys" using q by (metis set_inorder split_list)
  note xy = inorder_parts [OF i t(1)] and ord = disjoint_order [OF disj tree i]
  have ahead: "start h q < start h a" if "a \<in> set ys" for a
    using that ord(2) sz(1) by (fastforce simp: word_less_nat_alt)
  have "start ?h f = start h q + sz" using qf by (simp add: cut_start)
  note parts = cut_filters [OF i t(1) this st ord(1) up]
  have "filter (\<lambda>a. start ?h a < start ?h f) (inorder t) = xs @ [q]" using ahead after xy by (intro parts) auto
  moreover have "filter (\<lambda>a. start ?h f < start ?h a) (inorder t) = ys" using ahead after xy by (intro parts) auto
  ultimately have i': "inorder t' = xs @ q # f # ys" using h'(3) by simp
  have alloc: "\<exists>n. ?h a = Some n" if "a \<in> insert f (set_tree t)" for a
    using that tree_node_alloc [OF t(4)] by (auto simp: cut_heap_def)
  have ar: "area h' a = area ?h a" if "a \<in> insert f (set_tree t)" for a
    using alloc [OF that] frame_area [OF h'(4)] by blast
  have old: "area h' a = area h a" if "a \<in> set xs \<union> set ys" for a
    using that ar [of a] f(1) xy by (auto simp: cut_area [OF qf])
  have arq: "area h' q = (start h q, sz, ty)" "area h' f = (start h q + sz, extent h q - sz, VMA_FREE)"
    using ar [of q] ar [of f] q qf by (simp_all add: cut_area [OF qf])
  have "set_tree t' = insert f (set_tree t)" using arg_cong [OF i', of set] xy(1) by auto
  moreover have "h' a = h a" if "a \<notin> insert f (set_tree t)" for a
    using vm.frame_out [OF h'(4) that] that q by (auto simp: cut_heap_def)
  moreover have "q \<noteq> 0" using vm.tree_at_nonzero [OF t(4)] q by auto
  moreover obtain n where "h' q = Some n" using alloc [of q] frame_fields [OF h'(4)] q by blast
  ultimately show ?thesis
    using h'(1,2) arq(1) carve_areas [OF i i' old arq ord(1)] disjoint_cut [OF i i' disj sz(1) old arq]
    by (auto simp: area_def start_def)
qed

section \<open>Allocation\<close>

text \<open>
  Allocation of a regular area with any node allocator that takes a node off the free list and leaves
  the tree alone.
\<close>

lemma allocate_with_law:
  assumes tree: "area_tree (vm_nodes s) (get_tree tr s) t" and disj: "disjoint_areas (vm_nodes s) t"
    and node: "alloc_node s = Inr (f, s1)" "vm_nodes s1 = (vm_nodes s)(f \<mapsto> zero_node)" "get_tree tr s1 = get_tree tr s"
      "f \<notin> set_tree t" "f \<noteq> 0"
    and room: "\<exists>a\<in>set_tree t. sz < free_size (the (vm_nodes s a))" and sz: "sz \<noteq> 0"
    and near: "\<forall>a\<in>set_tree t. sz < free_size (the (vm_nodes s a)) \<longrightarrow>
                 near (insert (start (vm_nodes s) a + sz) (start (vm_nodes s) ` set_tree t))"
  shows "\<exists>q s' t'. allocate_with alloc_node tr sz VMA_REGULAR fl b s = Inr (start (vm_nodes s) q, s') \<and>
    q \<in> set_tree t \<and> node_type (the (vm_nodes s q)) = VMA_FREE \<and>
    (\<forall>a\<in>set_tree t. free_size (the (vm_nodes s a)) \<le> extent (vm_nodes s) q) \<and>
    area_tree (vm_nodes s') (get_tree tr s') t' \<and> disjoint_areas (vm_nodes s') t' \<and> set_tree t' = insert f (set_tree t) \<and>
    areas (vm_nodes s') t' = carve (start (vm_nodes s) q) sz VMA_REGULAR (areas (vm_nodes s) t) \<and>
    (\<forall>a. a \<notin> insert f (set_tree t) \<longrightarrow> vm_nodes s' a = vm_nodes s a) \<and>
    free_list s' = free_list s1 \<and> free_node_count s' = free_node_count s1"
proof -
  let ?h = "vm_nodes s"
  obtain q where q: "avl_get_node vm_avl_comp_max_free_slot (get_tree tr s) ?h 0 = Inr q" "q \<in> set_tree t"
      "node_type (the (?h q)) = VMA_FREE" "\<forall>a\<in>set_tree t. free_size (the (?h a)) \<le> extent ?h q"
    using worst_fit_law [OF tree, of 0] room by fastforce
  have fit: "sz < extent ?h q" using room q(4) by (auto intro: order_less_le_trans)
  have nq: "near (insert (start ?h q + sz) (start ?h ` set_tree t))"
    using near q(2,3) fit by (auto simp: free_size_def extent_def)
  obtain n where n: "?h q = Some n" "q \<noteq> 0" using tree_node [of ?h 0 "root (get_tree tr s)" t q] tree q(2)
    by (auto simp: area_tree_def)
  have qf: "q \<noteq> f" using q(2) node(4) by auto
  obtain T' h' t' n' where c:
    "avl_insert vm_callbacks vm_avl_comp_addr (get_tree tr s) (cut_heap ?h q f sz VMA_REGULAR fl) f = Inr (T', h')"
    "area_tree h' T' t'" "set_tree t' = insert f (set_tree t)"
    "areas h' t' = carve (start ?h q) sz VMA_REGULAR (areas ?h t)" "disjoint_areas h' t'"
    "\<forall>a. a \<notin> insert f (set_tree t) \<longrightarrow> h' a = ?h a" "h' q = Some n'" "start_addr n' = start ?h q"
    using cut_law [OF tree disj q(2) node(4,5) fit sz nq, of VMA_REGULAR fl] by blast
  have ne: "sz \<noteq> node_size n" using fit n(1) by (auto simp: extent_def)
  define s' where "s' = set_tree_ref tr T' (s1\<lparr>vm_nodes := h'\<rparr>)"
  have "(vm_nodes s1)(f \<mapsto> leftover ?h q sz, q \<mapsto> n\<lparr>node_type := VMA_REGULAR, node_flags := fl, node_size := sz\<rparr>) =
      cut_heap ?h q f sz VMA_REGULAR fl"
    using n(1) by (simp add: cut_heap_def node(2))
  moreover have "zero_node\<lparr>start_addr := start_addr n + sz, node_size := node_size n - sz, node_type := VMA_FREE,
      subtree_max_free_slot := node_size n - sz, parent := 0, left := 0, right := 0, subtree_max_depth := 0,
      update := VM_AVL_UPDATE\<rparr> = leftover ?h q sz"
    using n(1) by (simp add: leftover_def start_def extent_def zero_node_def)
  ultimately have "allocate_with alloc_node tr sz VMA_REGULAR fl b s = Inr (start ?h q, s')"
    using n q(1) qf ne node(1,2,3,5) c(1,7,8)
    by (simp add: allocate_with_def extent_def init_vm_ds_node_def avl_init_def wr_node_def avl_insert_in_def s'_def
        start_def)
  then show ?thesis using q c by (auto simp: s'_def)
qed

text \<open>\<^verbatim>\<open>alloc_vm_ds_node\<close> when enough nodes stay on the free list.\<close>

lemma alloc_node_law:
  assumes "free_list s \<noteq> 0" and "vm_nodes s (free_list s) = Some n" and "free_node_count s > MINIMUM_AVAILABLE_NODES"
  shows "alloc_vm_ds_node s = Inr (free_list s,
    s\<lparr>free_list := start_addr n, free_node_count := free_node_count s - 1,
      vm_nodes := (vm_nodes s)(free_list s \<mapsto> zero_node)\<rparr>)"
proof -
  have "\<not> free_node_count s - 1 < MINIMUM_AVAILABLE_NODES"
    using assms(3) by (simp add: MINIMUM_AVAILABLE_NODES_def) unat_arith
  then show ?thesis using assms(1,2) by (simp add: alloc_vm_ds_node_def pop_vm_ds_node_def)
qed

text \<open>C3: Allocating a regular area from a tree with a free area that is larger than the request
  returns the start of a largest free area. On the sequence of areas in address order it cuts that
  area in two: an allocated area of the requested size and a free area with the rest. The tree stays
  balanced and ordered with correct free-slot sizes, the areas stay disjoint, and the node for the rest
  comes off the free list.\<close>

theorem vma_allocate_refines_carve:
  assumes "area_tree (vm_nodes s) (get_tree tr s) t" and "disjoint_areas (vm_nodes s) t"
    and "free_list s \<noteq> 0" and "vm_nodes s (free_list s) = Some n" and "free_list s \<notin> set_tree t"
    and "free_node_count s > MINIMUM_AVAILABLE_NODES"
    and "\<exists>a\<in>set_tree t. sz < free_size (the (vm_nodes s a))" and "sz \<noteq> 0"
    and "\<forall>a\<in>set_tree t. sz < free_size (the (vm_nodes s a)) \<longrightarrow>
           near (insert (start (vm_nodes s) a + sz) (start (vm_nodes s) ` set_tree t))"
  shows "\<exists>q s' t'. vma_allocate_memory_from_tree tr sz VMA_REGULAR fl b s = Inr (start (vm_nodes s) q, s') \<and>
    q \<in> set_tree t \<and> node_type (the (vm_nodes s q)) = VMA_FREE \<and>
    (\<forall>a\<in>set_tree t. free_size (the (vm_nodes s a)) \<le> extent (vm_nodes s) q) \<and>
    area_tree (vm_nodes s') (get_tree tr s') t' \<and> disjoint_areas (vm_nodes s') t' \<and>
    areas (vm_nodes s') t' = carve (start (vm_nodes s) q) sz VMA_REGULAR (areas (vm_nodes s) t) \<and>
    free_list s' = start_addr n \<and> free_node_count s' = free_node_count s - 1"
proof -
  let ?s1 = "s\<lparr>free_list := start_addr n, free_node_count := free_node_count s - 1,
      vm_nodes := (vm_nodes s)(free_list s \<mapsto> zero_node)\<rparr>"
  have "get_tree tr ?s1 = get_tree tr s" by simp
  from allocate_with_law [where alloc_node = alloc_vm_ds_node and s = s and fl = fl and b = b,
      OF assms(1,2) alloc_node_law [OF assms(3,4,6)] _ this assms(5,3,7,8,9)]
  show ?thesis unfolding vma_allocate_memory_from_tree_def by auto
qed

theorem vma_allocate_refines_carve_witness:
  "\<exists>q s' t'. vma_allocate_memory_from_tree HEAP_TREE 0x2000 VMA_REGULAR 0 None vma_small = Inr (start vm_small q, s') \<and>
     q \<in> {0x1000, 0x2000} \<and> area_tree (vm_nodes s') (get_tree HEAP_TREE s') t' \<and>
     areas (vm_nodes s') t' = carve (start vm_small q) 0x2000 VMA_REGULAR (areas vm_small vm_small_shape)"
proof -
  have "vm_nodes vma_small (free_list vma_small) = Some (the (vm_small 0x3000))"
    by (simp add: vm_small_def)
  from vma_allocate_refines_carve [where s = vma_small and tr = HEAP_TREE and t = vm_small_shape and sz = "0x2000" and
      fl = 0 and b = None and n = "the (vm_small 0x3000)", OF _ _ _ this]
  show ?thesis
    using vm_small_area_tree vm_small_disjoint vm_small_free by (auto simp: MINIMUM_AVAILABLE_NODES_def near_def)
qed

section \<open>Neighbours and removal\<close>

text \<open>The element before and after an element of a sequence of addresses, 0 at the ends.\<close>

fun after_in :: "u64 list \<Rightarrow> u64 \<Rightarrow> u64" where
  "after_in (x # y # xs) a = (if x = a then y else after_in (y # xs) a)"
| "after_in xs a = 0"

lemma after_in_append: "a \<notin> set xs \<Longrightarrow> after_in (xs @ a # ys) a = (case ys of [] \<Rightarrow> 0 | y # _ \<Rightarrow> y)"
proof (induction xs)
  case Nil
  then show ?case by (cases ys) auto
next
  case (Cons x xs)
  then show ?case by (cases xs) (auto split: list.splits)
qed

text \<open>C19: Around a node of a tree of areas, \<^verbatim>\<open>avl_next\<close> and \<^verbatim>\<open>avl_prev\<close> return the nodes of the areas directly
  after and before it in address order, and \<^verbatim>\<open>NULL\<close> at the ends.\<close>

theorem vma_neighbours_correct:
  assumes "area_tree h T t" and "a \<in> set_tree t"
  shows "avl_next h a = Inr (after_in (inorder t) a) \<and> avl_prev h a = Inr (after_in (rev (inorder t)) a)"
proof -
  obtain c l r where t: "t = plug c (Node l a r)" using focus_exists [OF assms(2)] by blast
  have d: "distinct (inorder (plug c (Node l a r)))" and at: "vm.tree_at h 0 (root T) (plug c (Node l a r))"
    using assms(1) by (simp_all add: area_tree_def t)
  have hd0: "vm.hd0 ys = (case ys of [] \<Rightarrow> 0 | y # _ \<Rightarrow> y)" for ys by (simp add: vm.hd0_def split: list.splits)
  have "after_in (inorder t) a = vm.hd0 (inorder r @ after c)"
    using d after_in_append [of a "before c @ inorder l" "inorder r @ after c"] by (simp add: t inorder_plug hd0)
  moreover have "after_in (rev (inorder t)) a = vm.hd0 (rev (before c @ inorder l))"
    using d after_in_append [of a "rev (inorder r @ after c)" "rev (before c @ inorder l)"] by (simp add: t inorder_plug hd0)
  ultimately show ?thesis using vm.next_law [OF at d] vm.prev_law [OF at d] by simp
qed

theorem vma_neighbours_correct_witness: "avl_next vm_small 0x1000 = Inr 0x2000 \<and> avl_prev vm_small 0x1000 = Inr 0"
  using vma_neighbours_correct [OF vm_small_area_tree, of "0x1000"] by simp

text \<open>C20: Removing a node that is not the root and has at most one child removes exactly that node from
  the address order, keeps the links and free-slot sizes of the tree correct and the areas unchanged. The
  heights may differ by more than one afterwards.\<close>

theorem vma_remove_correct:
  assumes "area_tree h T t" and "t = plug (st # c) (Node l x r)" and "l = Leaf \<or> r = Leaf"
  shows "\<exists>T' h' t'. avl_remove vm_callbacks T h x = Inr (T', h') \<and> vm.tree_at h' 0 (root T') t' \<and>
    inorder t' = remove1 x (inorder t) \<and> areas h' t' = map (area h) (remove1 x (inorder t))"
proof -
  have t: "vm.tree_at h 0 (root T) (plug (st # c) (Node l x r))" "distinct (inorder (plug (st # c) (Node l x r)))"
    and "avl t" using assms(1,2) by (simp_all add: area_tree_def)
  have "height (plug (st # c) (Node l x r)) < 2 ^ 30"
    using height_addr_tree [OF \<open>avl t\<close>] t vm.tree_at_nonzero [OF t(1)] assms(2) by fastforce
  from vm.remove_law [OF t(1) assms(3) t(2) this] obtain T' h' where
    h': "avl_remove vm_callbacks T h x = Inr (T', h')" "vm.tree_at h' 0 (root T') (up c (step_node st (only_child l r)))"
      "vm.frame (set_tree (plug (st # c) (Node l x r))) h h'" by blast
  let ?t = "up c (step_node st (only_child l r))"
  have lr: "inorder (only_child l r) = inorder l @ inorder r" using assms(3) by (auto simp: only_child_def)
  have "inorder ?t = inorder (plug (st # c) (only_child l r))" by (simp add: plug_Cons inorder_plug inorder_up)
  then have i: "inorder ?t = before (st # c) @ inorder l @ inorder r @ after (st # c)" by (simp only: inorder_plug lr append_assoc)
  moreover have "inorder t = (before (st # c) @ inorder l) @ x # (inorder r @ after (st # c))"
    unfolding assms(2) inorder_plug by simp
  moreover have "x \<notin> set (before (st # c) @ inorder l)" using t(2) unfolding inorder_plug by auto
  ultimately have r: "inorder ?t = remove1 x (inorder t)" by (simp add: remove1_append)
  have "area h' a = area h a" if "a \<in> set_tree ?t" for a
  proof -
    have "a \<in> set_tree t" using that arg_cong [OF r, of set] set_remove1_subset [of x "inorder t"] by auto
    then have "\<exists>n. h a = Some n" using tree_node_alloc [OF t(1)] assms(2) by blast
    then show ?thesis using frame_area [OF h'(3)] by blast
  qed
  then have "areas h' ?t = map (area h) (inorder ?t)" by (simp add: areas_def)
  with h'(1,2) r show ?thesis by metis
qed

theorem vma_remove_correct_witness:
  "\<exists>T' h' t'. avl_remove vm_callbacks vm_small_tree vm_small 0x2000 = Inr (T', h') \<and> vm.tree_at h' 0 (root T') t' \<and>
     inorder t' = [0x1000]"
  using vma_remove_correct [OF vm_small_area_tree, of "InRight Leaf 0x1000" "[]" Leaf "0x2000" Leaf] by auto

end
