(* ===== verification/Kmalloc_Props.thy ===== *)
theory Kmalloc_Props
  imports Kmalloc Vmm_Props
begin

text \<open>
  The kernel heap: the choice of a bucket, the list of free blocks of a page, allocation followed by
  release, and the release of a block of a full page.
\<close>

section \<open>Buckets\<close>

lemma bits_split: "k < 64 \<Longrightarrow> [0..<64] = [0..<k] @ k # [Suc k..<64 :: nat]"
  using upt_add_eq_append [of 0 k "64 - k"] upt_conv_Cons [of k 64] by simp

lemma clz64_eq:
  assumes "k < 64" and "bit w k" and "\<And>i. k < i \<Longrightarrow> i < 64 \<Longrightarrow> \<not> bit w i"
  shows "clz64 w = 63 - int k"
proof -
  have "rev [0..<64] = rev [Suc k..<64] @ k # rev [0..<k]" unfolding bits_split [OF assms(1)] by simp
  moreover have "takeWhile (\<lambda>i. \<not> bit w i) (rev [Suc k..<64] @ k # rev [0..<k]) = rev [Suc k..<64]"
    using assms(2,3) by (subst takeWhile_append2) auto
  ultimately show ?thesis using assms(1) by (simp add: clz64_def of_nat_diff)
qed

lemma ctz64_eq:
  assumes "k < 64" and "bit w k" and "\<And>i. i < k \<Longrightarrow> \<not> bit w i"
  shows "ctz64 w = int k"
proof -
  have "[0..<64] = [0..<k] @ k # [Suc k..<64]" by (rule bits_split [OF assms(1)])
  moreover have "takeWhile (\<lambda>i. \<not> bit w i) ([0..<k] @ k # [Suc k..<64]) = [0..<k]"
    using assms(2,3) by (subst takeWhile_append2) auto
  ultimately show ?thesis by (simp add: ctz64_def)
qed

text \<open>The highest and the lowest bit of a word.\<close>

lemma high_bit:
  assumes "2 ^ k \<le> unat (w :: u64)" and "unat w < 2 ^ Suc k"
  shows "bit w k" and "k < i \<Longrightarrow> \<not> bit w i"
proof -
  have "unat w div 2 ^ k = 1" using assms by (intro div_nat_eqI) auto
  then have "bit (unat w) k" by (simp add: bit_iff_odd)
  then show "bit w k" by (simp add: bit_unsigned_iff)
next
  assume "k < i"
  then have "2 ^ Suc k \<le> (2 :: nat) ^ i" by (intro power_increasing) auto
  then have "unat w div 2 ^ i = 0" using assms(2) by simp
  then have "\<not> bit (unat w) i" by (simp add: bit_iff_odd)
  then show "\<not> bit w i" by (simp add: bit_unsigned_iff)
qed

lemma power_ctz: "k < 64 \<Longrightarrow> unat (w :: u64) = 2 ^ k \<Longrightarrow> ctz64 w = int k"
proof (rule ctz64_eq)
  assume w: "k < 64" "unat w = 2 ^ k"
  have b: "bit w i \<longleftrightarrow> i = k" for i
  proof -
    have "bit (unat w) i \<longleftrightarrow> i = k" unfolding w(2) by (auto simp: bit_exp_iff)
    then show ?thesis by (simp add: bit_unsigned_iff)
  qed
  then show "bit w k" and "\<And>i. i < k \<Longrightarrow> \<not> bit w i" by auto
qed

lemma not_power_ctz:
  assumes "2 ^ k < unat (w :: u64)" and "unat w < 2 ^ Suc k" and "k < 64"
  shows "ctz64 w < int k"
proof -
  define j where "j = (LEAST i. bit w i)"
  have "bit w k" using assms high_bit(1) [of k w] by simp
  then have j: "bit w j" "j \<le> k" "\<And>i. i < j \<Longrightarrow> \<not> bit w i"
    unfolding j_def by (auto intro: LeastI Least_le dest: not_less_Least)
  have "j \<noteq> k"
  proof
    assume "j = k"
    then have "bit (unat w) i \<longleftrightarrow> bit (2 ^ k :: nat) i" for i
      using j high_bit(2) [of k w i] \<open>bit w k\<close> assms bit_exp_iff [of k i, where 'a = nat]
      by (cases i k rule: linorder_cases) (auto simp: bit_unsigned_iff)
    then have "unat w = 2 ^ k" by (rule bit_eqI)
    then show False using assms(1) by simp
  qed
  moreover have "ctz64 w = int j" using j assms(3) by (intro ctz64_eq) auto
  ultimately show ?thesis using j(2) by simp
qed

text \<open>For sizes of at least 16 bytes: the logarithm, rounded up.\<close>

lemma bucket_power:
  assumes "4 \<le> k" and "k \<le> 10" and "unat sz = 2 ^ k"
  shows "get_bucket_from_size sz = of_nat (k - 4)"
proof -
  have "(2 :: nat) ^ 4 \<le> 2 ^ k" "(2 :: nat) ^ k \<le> 2 ^ 10" using power_increasing [of 4 k "2 :: nat"] power_increasing [of k 10 "2 :: nat"] power_increasing [of "Suc k" 10 "2 :: nat"] assms by simp_all
  then have "\<not> sz > 1024" "\<not> sz < 16" using assms(3) by (auto simp: word_less_nat_alt)
  moreover have "clz64 sz = 63 - int k" using assms high_bit [of k sz] by (intro clz64_eq) auto
  moreover have "ctz64 sz = int k" using assms by (intro power_ctz) auto
  ultimately show ?thesis using assms(1) by (simp add: get_bucket_from_size_def SMALL_BUCKET_AGGREGATES_def of_nat_diff)
qed

lemma bucket_between:
  assumes "4 \<le> k" and "k < 10" and "2 ^ k < unat sz" and "unat sz < 2 ^ Suc k"
  shows "get_bucket_from_size sz = of_nat (k - 3)"
proof -
  have "(2 :: nat) ^ 4 \<le> 2 ^ k" "(2 :: nat) ^ Suc k \<le> 2 ^ 10" using power_increasing [of 4 k "2 :: nat"] power_increasing [of k 10 "2 :: nat"] power_increasing [of "Suc k" 10 "2 :: nat"] assms by simp_all
  then have "\<not> sz > 1024" "\<not> sz < 16" using assms(3,4) by (auto simp: word_less_nat_alt)
  moreover have "clz64 sz = 63 - int k" using assms high_bit [of k sz] by (intro clz64_eq) auto
  moreover have "ctz64 sz < int k" using assms by (intro not_power_ctz) auto
  moreover have "uint (of_nat (Suc k) :: u8) = int (Suc k)" using assms(2) by (subst uint_nat, subst unat_of_nat) simp
  ultimately show ?thesis
    using assms(1) by (simp add: get_bucket_from_size_def SMALL_BUCKET_AGGREGATES_def of_nat_diff)
qed

lemma bucket_law:
  assumes "0 < sz" and "sz \<le> 1024"
  shows "\<exists>i<7. get_bucket_from_size sz = of_nat i \<and> unat sz \<le> 16 * 2 ^ i \<and> (i = 0 \<or> 16 * 2 ^ (i - 1) < unat sz)"
proof (cases "sz < 16")
  case True
  then have "unat sz \<le> 16" by (simp add: word_less_nat_alt)
  moreover have "get_bucket_from_size sz = of_nat 0" using True by (auto simp: get_bucket_from_size_def word_less_nat_alt)
  ultimately show ?thesis by (intro exI [of _ 0]) simp
next
  case False
  then have n: "16 \<le> unat sz" "unat sz \<le> 1024" using assms(2) by (auto simp: word_less_nat_alt word_le_nat_alt)
  then obtain k where k: "2 ^ k \<le> unat sz" "unat sz < 2 ^ Suc k" using ex_power_ivl1 [of 2 "unat sz"] by auto
  have "k < 11" using power_less_imp_less_exp [of "2 :: nat" k 11] k(1) n(2) by simp
  moreover have "4 < Suc k" using power_less_imp_less_exp [of "2 :: nat" 4 "Suc k"] k(2) n(1) by simp
  ultimately have k4: "4 \<le> k" "k \<le> 10" by simp_all
  show ?thesis
  proof (cases "unat sz = 2 ^ k")
    case True
    have "16 * 2 ^ (k - 4) = (2 :: nat) ^ k" using k4(1) power_add [of "2 :: nat" 4 "k - 4"] by simp
    moreover have "k - 4 = 0 \<or> 16 * 2 ^ (k - 4 - 1) < (16 * 2 ^ (k - 4) :: nat)" by (cases "k - 4") auto
    ultimately show ?thesis using bucket_power [OF k4 True] k4 True by (intro exI [of _ "k - 4"]) auto
  next
    case False
    have "unat sz \<le> 2 ^ 10" using n(2) by simp
    then have "k \<noteq> 10" using False k(1) by auto
    then have k9: "k < 10" using k4(2) by simp
    have "16 * 2 ^ (k - 3) = (2 :: nat) ^ Suc k" "16 * 2 ^ (k - 3 - 1) = (2 :: nat) ^ k"
      using k4(1) power_add [of "2 :: nat" 4 "k - 3"] power_add [of "2 :: nat" 4 "k - 4"] by (simp_all add: Suc_diff_le)
    then show ?thesis using bucket_between [OF k4(1) k9 _ k(2)] k False k9 by (intro exI [of _ "k - 3"]) auto
  qed
qed

section \<open>The free list of a page\<close>

text \<open>The blocks that are linked from an address on, the last one pointing to NULL.\<close>

fun chain :: "(u64 \<Rightarrow> u64) \<Rightarrow> u64 \<Rightarrow> u64 list \<Rightarrow> bool" where
  "chain m p [] \<longleftrightarrow> p = 0"
| "chain m p (x # xs) \<longleftrightarrow> p = x \<and> x \<noteq> 0 \<and> chain m (m x) xs"

definition holes :: "u64 \<Rightarrow> u64 \<Rightarrow> nat \<Rightarrow> u64 list" where
  "holes first stride n = map (\<lambda>k. first + of_nat k * stride) [0..<n]"

lemma holes_Suc: "holes h st (Suc n) = h # holes (h + st) st n"
  unfolding holes_def by (simp only: map_upt_Suc) (simp add: algebra_simps)

lemma last_hole: "h + of_nat (Suc n) * st = (h + st) + of_nat n * (st :: u64)"
  by (simp add: algebra_simps)

lemma link_holes_other: "a \<notin> set (holes h st n) \<Longrightarrow> link_holes n h st m a = m a"
  by (induction n arbitrary: h m) (auto simp: holes_Suc)

lemma holes_mono: "set (holes h st n) \<subseteq> set (holes h st (Suc n))"
  by (auto simp: holes_def)

lemma chain_link_holes:
  assumes "distinct (holes h st (Suc n))" and "0 \<notin> set (holes h st (Suc n))" and "m (h + of_nat n * st) = 0"
  shows "chain (link_holes n h st m) h (holes h st (Suc n))"
  using assms
proof (induction n arbitrary: h m)
  case 0
  then show ?case by (simp add: holes_def)
next
  case (Suc n)
  note d = Suc.prems(1,2) [unfolded holes_Suc [of h st "Suc n"]]
  have "h + st + of_nat n * st \<in> set (holes (h + st) st (Suc n))" by (simp add: holes_def)
  then have "h + st + of_nat n * st \<noteq> h" using d(1) by (metis distinct.simps(2))
  then have z: "(m(h := h + st)) (h + st + of_nat n * st) = 0" using Suc.prems(3) unfolding last_hole by simp
  have "chain (link_holes n (h + st) st (m(h := h + st))) (h + st) (holes (h + st) st (Suc n))"
    by (rule Suc.IH [of "h + st" "m(h := h + st)", OF _ _ z]) (use d in simp_all)
  moreover have "h \<notin> set (holes (h + st) st n)" using d(1) holes_mono [of "h + st" st n] by auto
  ultimately show ?case using d(2) unfolding holes_Suc [of h st "Suc n"] by (simp add: link_holes_other)
qed

lemma in_page:
  assumes "p AND 0xFFF = (0 :: u64)" and "off < 0x1000"
  shows "(p + off) AND NOT 0xFFF = p"
proof -
  have p: "unat p mod 4096 = 0" using offset_unat [of p] assms(1) by simp
  note a = page_offset [OF p assms(2)] 
  let ?x = "p + off"
  have "(x AND NOT m) AND (x AND m) = 0" "(x AND NOT m) OR (x AND m) = x" for x m :: u64
    by (rule bit_eqI; auto simp: bit_and_iff bit_or_iff bit_not_iff)+
  note split = this [of ?x "0xFFF"]
  have "(?x AND NOT 0xFFF) + (?x AND 0xFFF) = (?x AND NOT 0xFFF) OR (?x AND 0xFFF)" by (rule disjunctive_add_eq_or [OF split(1)])
  also have "\<dots> = ?x" by (rule split(2))
  finally show ?thesis using a by simp
qed

lemma holes_in_page:
  assumes "p AND 0xFFF = (0 :: u64)" and "0 < first" and "0 < st" and "unat first + n * unat st \<le> 4096"
  shows "distinct (holes (p + first) st n)" and "x \<in> set (holes (p + first) st n) \<Longrightarrow> x AND NOT 0xFFF = p \<and> x \<noteq> p"
proof -
  have st: "0 < unat st" and first: "0 < unat first" using assms(2,3) by (simp_all add: word_less_nat_alt)
  have bound: "unat first + k * unat st < 4096" if "k < n" for k
  proof -
    have "unat first + Suc k * unat st \<le> unat first + n * unat st" using that by (intro add_left_mono mult_right_mono) auto
    then show ?thesis using st assms(4) by simp
  qed
  have hole: "(p + first) + of_nat k * st = p + of_nat (unat first + k * unat st)" for k by simp
  have off: "unat (of_nat (unat first + k * unat st) :: u64) = unat first + k * unat st" if "k < n" for k
    using bound [OF that] by (intro unat_of_nat_small) simp
  show "distinct (holes (p + first) st n)"
    unfolding holes_def distinct_map hole
  proof (intro conjI inj_onI)
    fix k l assume kl: "k \<in> set [0..<n]" "l \<in> set [0..<n]" and
      "p + of_nat (unat first + k * unat st) = p + of_nat (unat first + l * unat st)"
    then have "unat (of_nat (unat first + k * unat st) :: u64) = unat (of_nat (unat first + l * unat st) :: u64)"
      by (simp only: add_left_cancel)
    then have "unat first + k * unat st = unat first + l * unat st" using kl by (simp only: off set_upt atLeastLessThan_iff)
    then show "k = l" using st by simp
  qed simp
  assume "x \<in> set (holes (p + first) st n)"
  then obtain k where k: "k < n" "x = p + of_nat (unat first + k * unat st)" unfolding holes_def hole by auto
  have "of_nat (unat first + k * unat st) < (0x1000 :: u64)" using bound [OF k(1)] off [OF k(1)] by (simp only: word_less_nat_alt) simp
  moreover have "of_nat (unat first + k * unat st) \<noteq> (0 :: u64)" using off [OF k(1)] first by force
  ultimately show "x AND NOT 0xFFF = p \<and> x \<noteq> p" unfolding k(2) using in_page [OF assms(1)] by simp
qed

lemma unat_u16_Suc:
  assumes "unat (x :: u16) + 1 < unat (y :: u16)"
  shows "unat (x + 1) = unat x + 1"
proof -
  have "unat y < 2 ^ 16" using unsigned_less [of y, where 'a = nat] by simp
  then show ?thesis using assms by (simp add: unat_word_ariths)
qed

lemma unat_u16_pred: "0 < (x :: u16) \<Longrightarrow> unat (x - 1) + 1 = unat x"
  using unat_minus_one [of x] unat_gt_0 [of x] by (simp add: word_neq_0_conv)

section \<open>Properties\<close>

text \<open>C31: A request of 1 to 1024 bytes goes to one of the seven buckets, and to the smallest one whose blocks are
  large enough.\<close>

theorem get_bucket_from_size_smallest:
  assumes "0 < sz" and "sz \<le> 1024"
  shows "\<exists>i<7. get_bucket_from_size sz = of_nat i \<and> unat sz \<le> 16 * 2 ^ i \<and> (i = 0 \<or> 16 * 2 ^ (i - 1) < unat sz)"
  by (rule bucket_law [OF assms])

theorem get_bucket_from_size_smallest_witness:
  "\<exists>i<7. get_bucket_from_size 1000 = of_nat i \<and> unat (1000 :: u64) \<le> 16 * 2 ^ i \<and> (i = 0 \<or> 16 * 2 ^ (i - 1) < unat (1000 :: u64))"
  by (rule get_bucket_from_size_smallest) simp_all



text \<open>C30: Releasing a block right after it was allocated restores the state of the heap, as long as the allocation
  did not fill the page and the page was not empty before.\<close>

theorem kmalloc_kfree_roundtrip:
  assumes "0 < sz" and "sz \<le> 1024" and "length (buckets s) = 7"
    and "free_page_list (buckets s ! unat (get_bucket_from_size sz)) = p" and "p \<noteq> 0" and "page_descs s p = Some d"
    and "block_list d = a" and "a AND NOT 0xFFF = p" and "a AND 0xFFF \<noteq> 0"
    and "blocks_in_use d \<noteq> 0" and "unat (blocks_in_use d) + 1 < unat (total_blocks d)"
  shows "\<exists>s1. kmalloc sz s = Inr (a, s1) \<and> kfree a s1 = Inr s"
proof -
  from bucket_law [OF assms(1,2)] obtain i where i: "i < 7" "get_bucket_from_size sz = of_nat i" by blast
  have "unat (get_bucket_from_size sz) = i" unfolding i(2) using i(1) by (subst unat_of_nat) simp
  then have b: "get_bucket_from_size sz \<noteq> 255" "unat (get_bucket_from_size sz) < 7"
    "unat (ucast (get_bucket_from_size sz) :: u64) = unat (get_bucket_from_size sz)"
    using i(1) by (auto simp: unat_ucast_u64)
  define d1 where "d1 = d\<lparr>blocks_in_use := blocks_in_use d + 1, block_list := kmem s a\<rparr>"
  define s1 where "s1 = s\<lparr>page_descs := (page_descs s)(p \<mapsto> d1)\<rparr>"
  have a: "a \<noteq> 0" using assms(9) by auto
  have use: "unat (blocks_in_use d + 1) = unat (blocks_in_use d) + 1" using assms(11) by (metis unat_u16_Suc)
  then have full: "blocks_in_use d + 1 \<noteq> total_blocks d" using assms(11) by auto
  have "kmalloc sz s = Inr (a, s1)"
    using assms b a full by (simp add: kmalloc_def take_block_def upd_desc_def d1_def s1_def)
  moreover have "kfree a s1 = Inr (s\<lparr>page_descs := (page_descs s)(p \<mapsto> d\<lparr>block_list := a\<rparr>)\<rparr>)"
    using assms(5-11) a by (simp add: kfree_def upd_desc_def d1_def s1_def)
  moreover have "d\<lparr>block_list := a\<rparr> = d" "(page_descs s)(p := Some d) = page_descs s"
    using assms(6,7) fun_upd_idem [of "page_descs s" p "Some d"] by (simp_all add: kmalloc_page_descriptor.equality)
  then have "s\<lparr>page_descs := (page_descs s)(p \<mapsto> d\<lparr>block_list := a\<rparr>)\<rparr> = s" by (simp only:) simp
  ultimately show ?thesis by simp
qed

text \<open>The heap of the examples: pages 0x5000 and 0x6000 with the given descriptors and the given heads of the lists
  of the 128-byte bucket.\<close>

definition kheap_small :: "u64 \<Rightarrow> u64 \<Rightarrow> kmalloc_page_descriptor \<Rightarrow> kmalloc_state" where
  "kheap_small free_pages full_pages d =
     \<lparr>bitmap = [], bitmap_size_bytes = 0, bitmap_size_frames = 0, memory_total_frame_count = 0,
      memory_used_frame_count = 0, phys_mem = (\<lambda>_. 0), PML4 = 0, kernel_vma_heap_tree = \<lparr>root = 0, avl_size = 0\<rparr>,
      kernel_vma_mmio_tree = \<lparr>root = 0, avl_size = 0\<rparr>, free_list = 0, free_node_count = 0,
      in_replenish_cycle = 0, vm_nodes = (\<lambda>_. None),
      buckets = (replicate 7 \<lparr>bucket_size = 16, free_page_list = 0, full_page_list = 0\<rparr>)
        [3 := \<lparr>bucket_size = 128, free_page_list = free_pages, full_page_list = full_pages\<rparr>],
      page_descs = [0x5000 \<mapsto> d, 0x6000 \<mapsto> d], kmem = (\<lambda>_. 0)\<rparr>"

definition desc_small :: "u16 \<Rightarrow> u64 \<Rightarrow> kmalloc_page_descriptor" where
  "desc_small n blocks = \<lparr>bucket_index = 3, blocks_in_use = n, total_blocks = 31, block_list = blocks,
     next_page_descriptor = 0, prev_page_descriptor = 0\<rparr>"

lemma bucket_of_100: "get_bucket_from_size 100 = 3"
  using bucket_between [of 6 100] by simp

theorem kmalloc_kfree_roundtrip_witness:
  "\<exists>s1. kmalloc 100 (kheap_small 0x5000 0 (desc_small 5 0x5300)) = Inr (0x5300, s1) \<and>
     kfree 0x5300 s1 = Inr (kheap_small 0x5000 0 (desc_small 5 0x5300))"
  by (rule kmalloc_kfree_roundtrip [where p = "0x5000" and d = "desc_small 5 0x5300"])
     (simp_all add: kheap_small_def desc_small_def bucket_of_100)

text \<open>C33: Releasing a block of a page that was the only full page of its bucket. If the bucket has another page with
  free blocks, \<^verbatim>\<open>kfree\<close> dereferences NULL; if it has none, the page is put at the head of the list of full pages of
  bucket 0 and is on neither list of its own bucket.\<close>

theorem kfree_block_of_full_page:
  assumes "v AND 0xFFF \<noteq> 0" and "p = v AND NOT 0xFFF" and "p \<noteq> 0" and "page_descs s p = Some d"
    and "length (buckets s) = 7" and "i = unat (bucket_index d)" and "0 < i" and "i < 7"
    and "blocks_in_use d = total_blocks d" and "0 < total_blocks d"
    and "prev_page_descriptor d = 0" and "next_page_descriptor d = 0"
  shows "if free_page_list (buckets s ! i) \<noteq> 0 then kfree v s = Inl NullDeref
    else \<exists>s'. kfree v s = Inr s' \<and> free_page_list (buckets s' ! i) = 0 \<and> full_page_list (buckets s' ! i) = 0 \<and>
      full_page_list (buckets s' ! 0) = p"
proof -
  have i: "unat (ucast (bucket_index d) :: u64) = i" using assms(6) by (simp add: unat_ucast_u64)
  have "unat (total_blocks d - 1) + 1 = unat (total_blocks d)" using assms(10) by (rule unat_u16_pred)
  then show ?thesis
    using assms i by (simp add: kfree_def upd_desc_def upd_bucket_def unlink_page_def Let_def)
qed

theorem kfree_block_of_full_page_witness:
  "kfree 0x5300 (kheap_small 0x6000 0x5000 (desc_small 31 0)) = Inl NullDeref"
proof -
  let ?s = "kheap_small 0x6000 0x5000 (desc_small 31 0)"
  have "free_page_list (buckets ?s ! 3) \<noteq> 0" by (simp add: kheap_small_def)
  moreover have "if free_page_list (buckets ?s ! 3) \<noteq> 0 then kfree 0x5300 ?s = Inl NullDeref
    else \<exists>s'. kfree 0x5300 ?s = Inr s' \<and> free_page_list (buckets s' ! 3) = 0 \<and> full_page_list (buckets s' ! 3) = 0 \<and>
      full_page_list (buckets s' ! 0) = 0x5000"
    by (rule kfree_block_of_full_page [where d = "desc_small 31 0"]) (simp_all add: kheap_small_def desc_small_def)
  ultimately show ?thesis by (simp only: if_True not_False_eq_True)
qed

end
