(* ===== verification/Boot.thy ===== *)
theory Boot
  imports Bytes Vma Vmm_Map
begin

text \<open>
  The boot loader, \<^verbatim>\<open>bootloader/efi.c\<close> with the structures of \<^verbatim>\<open>bootloader/efi.h\<close> and \<^verbatim>\<open>include/kernel/elf.h\<close>. It runs with
  physical memory mapped one to one, so the bitmap of frames, the page tables, the kernel file and the firmware's
  memory map are bytes of one memory; the structure \<^verbatim>\<open>boot_info\<close> that the kernel gets is a record. The services
  of the firmware are the parameter \<^verbatim>\<open>efi_services\<close>: each may change memory and the firmware's own state.
\<close>

section \<open>Definitions\<close>

subsection \<open>Structures of the firmware and of the kernel file\<close>

datatype EFI_MEMORY_TYPE =
  EfiReservedMemoryType | EfiLoaderCode | EfiLoaderData | EfiBootServicesCode | EfiBootServicesData
  | EfiRuntimeServicesCode | EfiRuntimeServicesData | EfiConventionalMemory | EfiUnusableMemory
  | EfiACPIReclaimMemory | EfiACPIMemoryNVS | EfiMemoryMappedIO | EfiMemoryMappedIOPortSpace | EfiPalCode
  | EfiPersistentMemory | EfiUnacceptedMemoryType | EfiMaxMemoryType

text \<open>The numbers of the enumeration, as they are in memory.\<close>

fun memory_type_code :: "EFI_MEMORY_TYPE \<Rightarrow> u32" where
  "memory_type_code EfiReservedMemoryType = 0"
| "memory_type_code EfiLoaderCode = 1"
| "memory_type_code EfiLoaderData = 2"
| "memory_type_code EfiBootServicesCode = 3"
| "memory_type_code EfiBootServicesData = 4"
| "memory_type_code EfiRuntimeServicesCode = 5"
| "memory_type_code EfiRuntimeServicesData = 6"
| "memory_type_code EfiConventionalMemory = 7"
| "memory_type_code EfiUnusableMemory = 8"
| "memory_type_code EfiACPIReclaimMemory = 9"
| "memory_type_code EfiACPIMemoryNVS = 10"
| "memory_type_code EfiMemoryMappedIO = 11"
| "memory_type_code EfiMemoryMappedIOPortSpace = 12"
| "memory_type_code EfiPalCode = 13"
| "memory_type_code EfiPersistentMemory = 14"
| "memory_type_code EfiUnacceptedMemoryType = 15"
| "memory_type_code EfiMaxMemoryType = 16"

record EFI_MEMORY_DESCRIPTOR =
  desc_Type :: u32
  PhysicalStart :: u64
  VirtualStart :: u64
  NumberOfPages :: u64
  desc_Attribute :: u64

definition read_descriptor :: "memory \<Rightarrow> u64 \<Rightarrow> EFI_MEMORY_DESCRIPTOR" where
  "read_descriptor m p =
     \<lparr>desc_Type = load32 m p, PhysicalStart = load64 m (p + 8), VirtualStart = load64 m (p + 16),
      NumberOfPages = load64 m (p + 24), desc_Attribute = load64 m (p + 32)\<rparr>"

definition has_type :: "EFI_MEMORY_DESCRIPTOR \<Rightarrow> EFI_MEMORY_TYPE list \<Rightarrow> bool" where
  "has_type d ts \<longleftrightarrow> desc_Type d \<in> set (map memory_type_code ts)"

datatype EFI_GUID =
  EFI_GRAPHICS_OUTPUT_PROTOCOL_GUID | EFI_LOADED_IMAGE_PROTOCOL_GUID | EFI_SIMPLE_FILE_SYSTEM_PROTOCOL_GUID | EFI_FILE_INFO_ID

text \<open>The fields the loader reads through pointers that the firmware returned.\<close>

definition DeviceHandle :: "memory \<Rightarrow> u64 \<Rightarrow> u64" where "DeviceHandle m loaded_image = load64 m (loaded_image + 24)"
definition FileSize :: "memory \<Rightarrow> u64 \<Rightarrow> u64" where "FileSize m file_info = load64 m (file_info + 8)"
definition gop_Mode :: "memory \<Rightarrow> u64 \<Rightarrow> u64" where "gop_Mode m gop_interface = load64 m (gop_interface + 24)"
definition mode_Info :: "memory \<Rightarrow> u64 \<Rightarrow> u64" where "mode_Info m mode = load64 m (mode + 8)"
definition FrameBufferBase :: "memory \<Rightarrow> u64 \<Rightarrow> u64" where "FrameBufferBase m mode = load64 m (mode + 24)"
definition FrameBufferSize :: "memory \<Rightarrow> u64 \<Rightarrow> u64" where "FrameBufferSize m mode = load64 m (mode + 32)"
definition HorizontalResolution :: "memory \<Rightarrow> u64 \<Rightarrow> u32" where "HorizontalResolution m i = load32 m (i + 4)"
definition VerticalResolution :: "memory \<Rightarrow> u64 \<Rightarrow> u32" where "VerticalResolution m i = load32 m (i + 8)"
definition PixelsPerScanLine :: "memory \<Rightarrow> u64 \<Rightarrow> u32" where "PixelsPerScanLine m i = load32 m (i + 32)"

text \<open>Fields of the file header and of a program header, which has 56 bytes.\<close>

definition e_ident8 :: "memory \<Rightarrow> u64 \<Rightarrow> u64" where "e_ident8 m h = load64 m h"
definition e_entry :: "memory \<Rightarrow> u64 \<Rightarrow> u64" where "e_entry m h = load64 m (h + 24)"
definition e_phoff :: "memory \<Rightarrow> u64 \<Rightarrow> u64" where "e_phoff m h = load64 m (h + 32)"
definition e_phnum :: "memory \<Rightarrow> u64 \<Rightarrow> u16" where "e_phnum m h = load16 m (h + 56)"
definition p_type :: "memory \<Rightarrow> u64 \<Rightarrow> u32" where "p_type m ph = load32 m ph"
definition p_flags :: "memory \<Rightarrow> u64 \<Rightarrow> u32" where "p_flags m ph = load32 m (ph + 4)"
definition p_offset :: "memory \<Rightarrow> u64 \<Rightarrow> u64" where "p_offset m ph = load64 m (ph + 8)"
definition p_vaddr :: "memory \<Rightarrow> u64 \<Rightarrow> u64" where "p_vaddr m ph = load64 m (ph + 16)"
definition p_filesz :: "memory \<Rightarrow> u64 \<Rightarrow> u64" where "p_filesz m ph = load64 m (ph + 32)"
definition p_memsz :: "memory \<Rightarrow> u64 \<Rightarrow> u64" where "p_memsz m ph = load64 m (ph + 40)"
definition PHDR_BYTES :: u64 where "PHDR_BYTES = 56"

text \<open>
  The services, with what they return: a status, the results that the C interface stores through pointers,
  memory and the firmware's state. \<^verbatim>\<open>GetMemoryMap\<close> returns size, key and descriptor size.
\<close>

record 'f efi_services =
  AllocatePages :: "u64 \<Rightarrow> memory \<Rightarrow> 'f \<Rightarrow> u64 \<times> u64 \<times> memory \<times> 'f"
  AllocatePool :: "u64 \<Rightarrow> memory \<Rightarrow> 'f \<Rightarrow> u64 \<times> u64 \<times> memory \<times> 'f"
  GetMemoryMap :: "u64 \<Rightarrow> u64 \<Rightarrow> memory \<Rightarrow> 'f \<Rightarrow> u64 \<times> u64 \<times> u64 \<times> u64 \<times> memory \<times> 'f"
  HandleProtocol :: "u64 \<Rightarrow> EFI_GUID \<Rightarrow> memory \<Rightarrow> 'f \<Rightarrow> u64 \<times> u64 \<times> memory \<times> 'f"
  LocateProtocol :: "EFI_GUID \<Rightarrow> memory \<Rightarrow> 'f \<Rightarrow> u64 \<times> u64 \<times> memory \<times> 'f"
  OpenVolume :: "u64 \<Rightarrow> memory \<Rightarrow> 'f \<Rightarrow> u64 \<times> u64 \<times> memory \<times> 'f"
  OpenFile :: "u64 \<Rightarrow> string \<Rightarrow> u64 \<Rightarrow> u64 \<Rightarrow> memory \<Rightarrow> 'f \<Rightarrow> u64 \<times> u64 \<times> memory \<times> 'f"
  ReadFile :: "u64 \<Rightarrow> u64 \<Rightarrow> u64 \<Rightarrow> memory \<Rightarrow> 'f \<Rightarrow> u64 \<times> u64 \<times> memory \<times> 'f"
  GetInfo :: "u64 \<Rightarrow> EFI_GUID \<Rightarrow> u64 \<Rightarrow> u64 \<Rightarrow> memory \<Rightarrow> 'f \<Rightarrow> u64 \<times> u64 \<times> memory \<times> 'f"
  ExitBootServices :: "u64 \<Rightarrow> u64 \<Rightarrow> memory \<Rightarrow> 'f \<Rightarrow> u64 \<times> u64 \<times> memory \<times> 'f"
  CopyMem :: "u64 \<Rightarrow> u64 \<Rightarrow> u64 \<Rightarrow> memory \<Rightarrow> memory"
  SetMem :: "u64 \<Rightarrow> u64 \<Rightarrow> u8 \<Rightarrow> memory \<Rightarrow> memory"

record 'f boot_state =
  boot_mem :: memory
  BootInfo :: boot_info
  conout :: "string list"
  firmware :: 'f

subsection \<open>Text\<close>

text \<open>The loop that writes the digits, last one first; the buffer is static.\<close>

lemma u8_Suc: "(i :: u8) < j \<Longrightarrow> unat (i + 1) = unat i + 1"
  by unat_arith

lemma u8_pred: "(i :: u8) < j \<Longrightarrow> unat (j - 1) = unat j - 1"
  by unat_arith

function to_string_loop :: "u8 \<Rightarrow> u64 \<Rightarrow> u16 list \<Rightarrow> (u8 \<times> u16 list) res" where
  "to_string_loop i input buffer =
     (if i < 63 \<and> input > 0
      then bindE (arr_set buffer (ucast i) (0x0030 + ucast (input mod 10))) (\<lambda>b. to_string_loop (i + 1) (input div 10) b)
      else Inr (i, buffer))"
  by pat_completeness auto
termination
  by (relation "measure (\<lambda>(i, input, buffer). 63 - unat i)") (auto simp: u8_Suc, simp_all add: word_less_nat_alt)

function reverse_loop :: "u8 \<Rightarrow> u8 \<Rightarrow> u16 list \<Rightarrow> u16 list res" where
  "reverse_loop left_ptr right_ptr buffer =
     (if left_ptr \<le> right_ptr \<and> left_ptr \<noteq> right_ptr then
        bindE (arr_get buffer (ucast left_ptr)) (\<lambda>temp.
        bindE (arr_get buffer (ucast right_ptr)) (\<lambda>r.
        bindE (arr_set buffer (ucast left_ptr) r) (\<lambda>b1.
        bindE (arr_set b1 (ucast right_ptr) temp) (\<lambda>b2.
          reverse_loop (left_ptr + 1) (right_ptr - 1) b2))))
      else Inr buffer)"
  by pat_completeness auto
termination
proof (relation "measure (\<lambda>(left_ptr, right_ptr, buffer). unat right_ptr - unat left_ptr)", goal_cases)
  case 1
  then show ?case by simp
next
  case (2 l r buffer)
  then have "unat l < unat r" by (simp add: word_le_nat_alt word_unat_eq_iff)
  then have "unat (l + 1) = unat l + 1" "unat (r - 1) = unat r - 1"
    using u8_Suc [of l r] u8_pred [of l r] by (auto simp: word_less_nat_alt)
  with \<open>unat l < unat r\<close> show ?case by simp
qed

declare to_string_loop.simps [simp del] reverse_loop.simps [simp del]

definition efi_to_string :: "u64 \<Rightarrow> u16 list \<Rightarrow> u16 list res" where
  "efi_to_string input buffer =
     (if input = 0 then bindE (arr_set buffer 0 0x0030) (\<lambda>b. arr_set b 1 0)
      else
        bindE (to_string_loop 0 input buffer) (\<lambda>(i, b).
        bindE (arr_set b (ucast i) 0) (\<lambda>b1. reverse_loop 0 (i - 1) b1)))"

definition efi_hex_chars :: "u16 list" where
  "efi_hex_chars = [0x30, 0x31, 0x32, 0x33, 0x34, 0x35, 0x36, 0x37, 0x38, 0x39, 0x41, 0x42, 0x43, 0x44, 0x45, 0x46]"

function to_string_hex_loop :: "u8 \<Rightarrow> u64 \<Rightarrow> u16 list \<Rightarrow> (u8 \<times> u16 list) res" where
  "to_string_hex_loop i input buffer =
     (if i < 16 then
        let next_hex = ucast (input AND 0xF) :: u8 in
        bindE (arr_get efi_hex_chars (ucast next_hex)) (\<lambda>c.
        bindE (arr_set buffer (ucast i) c) (\<lambda>b. to_string_hex_loop (i + 1) (drop_bit 4 input) b))
      else Inr (i, buffer))"
  by pat_completeness auto
termination
  by (relation "measure (\<lambda>(i, input, buffer). 16 - unat i)") (auto simp: u8_Suc, simp_all add: word_less_nat_alt)

declare to_string_hex_loop.simps [simp del]

definition efi_to_string_hex :: "u64 \<Rightarrow> u16 list \<Rightarrow> u16 list res" where
  "efi_to_string_hex input buffer =
     bindE (to_string_hex_loop 0 input buffer) (\<lambda>(i, b).
     bindE (arr_set b (ucast i) 0) (\<lambda>b1. reverse_loop 0 (i - 1) b1))"

subsection \<open>Calls of the firmware\<close>

text \<open>The characters of a buffer up to the end of the text, and the end of a line.\<close>

definition text_of :: "u16 list \<Rightarrow> string" where
  "text_of buffer = map (\<lambda>c. char_of (unat c)) (takeWhile (\<lambda>c. c \<noteq> 0) buffer)"

definition CRLF :: string where
  "CRLF = [CHR 0x0D, CHR 0x0A]"

definition OutputString :: "string \<Rightarrow> ('f, 'a) boot_state_scheme \<Rightarrow> ('f, 'a) boot_state_scheme" where
  "OutputString t s = s\<lparr>conout := conout s @ [t]\<rparr>"

text \<open>A status other than 0 is printed and the machine halts.\<close>

definition check_EFI_error :: "u64 \<Rightarrow> string \<Rightarrow> ('f, 'a) boot_state_scheme \<Rightarrow> ('f, 'a) boot_state_scheme res" where
  "check_EFI_error status error_message s =
     (if status \<noteq> 0
      then bindE (efi_to_string_hex status (replicate 17 0)) (\<lambda>b. Inl (Panic (error_message @ '' Error Hex: '' @ text_of b @ CRLF)))
      else Inr s)"

text \<open>A service that returns a status and one value, with the test of the status that follows it.\<close>

definition call_service ::
  "(memory \<Rightarrow> 'f \<Rightarrow> u64 \<times> u64 \<times> memory \<times> 'f) \<Rightarrow> string \<Rightarrow> ('f, 'a) boot_state_scheme \<Rightarrow> (u64 \<times> ('f, 'a) boot_state_scheme) res" where
  "call_service f error_message s =
     (case f (boot_mem s) (firmware s) of (status, result, m, fw) \<Rightarrow>
        bindE (check_EFI_error status error_message (s\<lparr>boot_mem := m, firmware := fw\<rparr>)) (\<lambda>s1. Inr (result, s1)))"

definition set_mem :: "'f efi_services \<Rightarrow> u64 \<Rightarrow> u64 \<Rightarrow> u8 \<Rightarrow> ('f, 'a) boot_state_scheme \<Rightarrow> ('f, 'a) boot_state_scheme" where
  "set_mem E buf len v s = s\<lparr>boot_mem := SetMem E buf len v (boot_mem s)\<rparr>"

text \<open>
  \<^verbatim>\<open>get_memory_map\<close>: the size is asked for, a buffer with room for two more descriptors is allocated, and the
  map is fetched. The result is the map, its size, the size of a descriptor and the key.
\<close>

definition get_memory_map ::
  "'f efi_services \<Rightarrow> u64 \<Rightarrow> ('f, 'a) boot_state_scheme \<Rightarrow> ((u64 \<times> u64 \<times> u64 \<times> u64) \<times> ('f, 'a) boot_state_scheme) res" where
  "get_memory_map E map_size s =
     (case GetMemoryMap E map_size 0 (boot_mem s) (firmware s) of (_, sz1, _, descriptor_size1, m1, fw1) \<Rightarrow>
        let sz2 = sz1 + 2 * descriptor_size1 in
        bindE (call_service (AllocatePages E ((sz2 + 4095) div 4096)) ''Unable to allocate memory for memory map!''
                 (s\<lparr>boot_mem := m1, firmware := fw1\<rparr>)) (\<lambda>(map_buffer, s1).
        case GetMemoryMap E sz2 map_buffer (boot_mem s1) (firmware s1) of (status, sz3, map_key, descriptor_size, m2, fw2) \<Rightarrow>
          bindE (check_EFI_error status ''Unable to execute getmap!'' (s1\<lparr>boot_mem := m2, firmware := fw2\<rparr>)) (\<lambda>s2.
            Inr ((map_buffer, sz3, descriptor_size, map_key), s2))))"

subsection \<open>The bitmap\<close>

definition efi_set_bitmap_bit :: "u64 \<Rightarrow> memory \<Rightarrow> u64 \<Rightarrow> memory" where
  "efi_set_bitmap_bit bm m bit_number =
     m(bm + bit_number div 8 := m (bm + bit_number div 8) OR push_bit (unat (bit_number mod 8)) 1)"

definition efi_unset_bitmap_bit :: "u64 \<Rightarrow> memory \<Rightarrow> u64 \<Rightarrow> memory" where
  "efi_unset_bitmap_bit bm m bit_number =
     m(bm + bit_number div 8 := m (bm + bit_number div 8) AND
         (push_bit (unat (bit_number mod 8)) 254 OR (push_bit (unat (bit_number mod 8)) 1 - 1)))"

definition efi_get_bitmap_bit :: "u64 \<Rightarrow> memory \<Rightarrow> u64 \<Rightarrow> u8" where
  "efi_get_bitmap_bit bm m bit_number = drop_bit (unat (bit_number mod 8)) (m (bm + bit_number div 8)) AND 0x1"

text \<open>
  A \<^verbatim>\<open>for\<close> loop over an unsigned 64-bit variable that starts at \<open>i\<close>, runs while it is below a limit and grows by
  \<open>step\<close>. The variable may wrap around, so the loop has fuel.
\<close>

fun for_loop :: "nat \<Rightarrow> ('s \<Rightarrow> u64) \<Rightarrow> ('s \<Rightarrow> u64) \<Rightarrow> (u64 \<Rightarrow> 's \<Rightarrow> 's res) \<Rightarrow> u64 \<Rightarrow> 's \<Rightarrow> 's res" where
  "for_loop 0 limit step body i s = Inl OutOfFuel"
| "for_loop (Suc n) limit step body i s =
     (if i < limit s then bindE (body i s) (\<lambda>s1. for_loop n limit step body (i + step s1) s1) else Inr s)"

definition LOOP_FUEL :: nat where "LOOP_FUEL = 2 ^ 64"

definition ram_types :: "EFI_MEMORY_TYPE list" where
  "ram_types = [EfiConventionalMemory, EfiLoaderCode, EfiLoaderData, EfiBootServicesCode, EfiBootServicesData,
     EfiACPIReclaimMemory, EfiACPIMemoryNVS, EfiRuntimeServicesCode, EfiRuntimeServicesData]"

definition usable_types :: "EFI_MEMORY_TYPE list" where
  "usable_types = [EfiConventionalMemory, EfiLoaderCode, EfiLoaderData, EfiBootServicesCode, EfiBootServicesData]"

definition direct_map_types :: "EFI_MEMORY_TYPE list" where
  "direct_map_types = [EfiConventionalMemory, EfiLoaderCode, EfiLoaderData, EfiBootServicesCode, EfiBootServicesData,
     EfiACPIReclaimMemory]"

record memory_scan =
  max_memory_address :: u64
  physical_memory_frame_count :: u64
  physical_memory_used_frame_count :: u64

definition scan_descriptor :: "EFI_MEMORY_DESCRIPTOR \<Rightarrow> memory_scan \<Rightarrow> memory_scan" where
  "scan_descriptor d sc =
     (if \<not> has_type d ram_types then sc
      else
        let sc1 = sc\<lparr>physical_memory_frame_count := physical_memory_frame_count sc + NumberOfPages d\<rparr> in
        if \<not> has_type d usable_types
        then sc1\<lparr>physical_memory_used_frame_count := physical_memory_used_frame_count sc1 + NumberOfPages d\<rparr>
        else
          let top = PhysicalStart d + 4096 * NumberOfPages d in
          sc1\<lparr>max_memory_address := (if top > max_memory_address sc1 then top else max_memory_address sc1)\<rparr>)"

definition scan_memory_map :: "memory \<Rightarrow> u64 \<Rightarrow> u64 \<Rightarrow> u64 \<Rightarrow> memory_scan res" where
  "scan_memory_map m map_ptr map_size descriptor_size =
     for_loop LOOP_FUEL (\<lambda>_. map_size) (\<lambda>_. descriptor_size)
       (\<lambda>i sc. Inr (scan_descriptor (read_descriptor m (map_ptr + i)) sc)) 0
       \<lparr>max_memory_address = 0, physical_memory_frame_count = 0, physical_memory_used_frame_count = 0\<rparr>"

definition bitmap_size_of :: "u64 \<Rightarrow> u64" where
  "bitmap_size_of max_address = ((max_address + 4095) div 4096 + 7) div 8"

definition bitmap_frame_count_of :: "u64 \<Rightarrow> u64" where
  "bitmap_frame_count_of max_address = drop_bit 12 ((max_address + 4095) div 4096)"

text \<open>The frames of a descriptor, and the inner loop that clears their bits.\<close>

definition first_frame :: "EFI_MEMORY_DESCRIPTOR \<Rightarrow> u64" where
  "first_frame d = drop_bit 12 ((PhysicalStart d + 4095) AND NOT 4095)"

definition end_frame :: "EFI_MEMORY_DESCRIPTOR \<Rightarrow> u64" where
  "end_frame d = drop_bit 12 (PhysicalStart d + NumberOfPages d * 0x1000)"

function unset_range :: "u64 \<Rightarrow> u64 \<Rightarrow> u64 \<Rightarrow> memory \<Rightarrow> memory" where
  "unset_range bm bit_to_change higher_bit m =
     (if bit_to_change < higher_bit
      then unset_range bm (bit_to_change + 1) higher_bit (efi_unset_bitmap_bit bm m bit_to_change)
      else m)"
  by pat_completeness auto
termination
  by (relation "measure (\<lambda>(bm, bit_to_change, higher_bit, m). unat higher_bit - unat bit_to_change)")
     (auto simp: unat_Suc_less word_less_nat_alt)

declare unset_range.simps [simp del]

definition free_descriptor :: "u64 \<Rightarrow> u64 \<Rightarrow> u64 \<Rightarrow> memory \<Rightarrow> memory res" where
  "free_descriptor bm map_ptr i m =
     (let mmap = read_descriptor m (map_ptr + i) in
      if \<not> has_type mmap usable_types then Inr m
      else Inr (unset_range bm (first_frame mmap) (end_frame mmap) m))"

definition free_usable_frames :: "u64 \<Rightarrow> u64 \<Rightarrow> u64 \<Rightarrow> u64 \<Rightarrow> memory \<Rightarrow> memory res" where
  "free_usable_frames bm map_ptr map_size descriptor_size m =
     for_loop LOOP_FUEL (\<lambda>_. map_size) (\<lambda>_. descriptor_size) (free_descriptor bm map_ptr) 0 m"

text \<open>A frame that the kernel has to leave alone is marked and counted.\<close>

definition mark_used :: "u64 \<Rightarrow> u64 \<Rightarrow> ('f, 'a) boot_state_scheme \<Rightarrow> ('f, 'a) boot_state_scheme" where
  "mark_used bm frame s =
     s\<lparr>boot_mem := efi_set_bitmap_bit bm (boot_mem s) frame,
       BootInfo := (BootInfo s)\<lparr>memory_physical_used_frames := memory_physical_used_frames (BootInfo s) + 1\<rparr>\<rparr>"

primrec mark_run :: "nat \<Rightarrow> u64 \<Rightarrow> u64 \<Rightarrow> ('f, 'a) boot_state_scheme \<Rightarrow> ('f, 'a) boot_state_scheme" where
  "mark_run 0 bm frame s = s"
| "mark_run (Suc n) bm frame s = mark_run n bm (frame + 1) (mark_used bm frame s)"

subsection \<open>Page tables\<close>

definition boot_entry :: "u64 \<Rightarrow> u64 \<Rightarrow> ('f, 'a) boot_state_scheme \<Rightarrow> u64" where
  "boot_entry table index s = load64 (boot_mem s) (entry_at table index)"

definition set_boot_entry :: "u64 \<Rightarrow> u64 \<Rightarrow> u64 \<Rightarrow> ('f, 'a) boot_state_scheme \<Rightarrow> ('f, 'a) boot_state_scheme" where
  "set_boot_entry table index e s = s\<lparr>boot_mem := store64 (boot_mem s) (entry_at table index) e\<rparr>"

definition walk_and_crate_next_table ::
  "'f efi_services \<Rightarrow> u64 \<Rightarrow> u64 \<Rightarrow> u64 \<Rightarrow> ('f, 'a) boot_state_scheme \<Rightarrow> (u64 \<times> ('f, 'a) boot_state_scheme) res" where
  "walk_and_crate_next_table E bm table index s =
     (if pte_present (boot_entry table index s) = 0 then
        bindE (call_service (AllocatePages E 1) ''Unable to allocate page for a page table!'' s) (\<lambda>(next_table_p, s1).
          let s2 = set_mem E next_table_p 4096 0 s1;
              e = boot_entry table index s2;
              s3 = set_boot_entry table index
                     (bf_set 12 40 (drop_bit 12 next_table_p) (bf_set 2 1 1 (bf_set 1 1 1 (bf_set 0 1 1 e)))) s2
          in Inr (next_table_p, mark_used bm (drop_bit 12 next_table_p) s3))
      else Inr (push_bit 12 (pte_physical_address (boot_entry table index s)), s))"

text \<open>The branch for huge pages goes on into the last level.\<close>

definition map_vaddr_to_paddr ::
  "'f efi_services \<Rightarrow> u64 \<Rightarrow> u64 \<Rightarrow> u64 \<Rightarrow> u64 \<Rightarrow> u64 \<Rightarrow> ('f, 'a) boot_state_scheme \<Rightarrow> ('f, 'a) boot_state_scheme res" where
  "map_vaddr_to_paddr E bm pml4 vaddr paddr flags s =
     bindE (walk_and_crate_next_table E bm pml4 (PML4_index vaddr) s) (\<lambda>(PDPT, s1).
     bindE (walk_and_crate_next_table E bm PDPT (PDPT_index vaddr) s1) (\<lambda>(PD, s2).
     let s3 = (if flags AND 0x10 \<noteq> 0
               then set_boot_entry PD (PD_index vaddr) (huge_entry flags paddr (boot_entry PD (PD_index vaddr) s2)) s2
               else s2) in
     bindE (walk_and_crate_next_table E bm PD (PD_index vaddr) s3) (\<lambda>(PT, s4).
       Inr (set_boot_entry PT (PT_index vaddr) (page_entry flags paddr (boot_entry PT (PT_index vaddr) s4)) s4))))"

definition KERNEL_STACK_PAGE_COUNT :: nat where "KERNEL_STACK_PAGE_COUNT = 8"

subsection \<open>The phases of \<^verbatim>\<open>efi_main\<close>\<close>

text \<open>The bitmap of frames: all bits set, then those of usable memory cleared. \<open>map_size\<close> is not initialised by the code.\<close>

definition build_bitmap ::
  "'f efi_services \<Rightarrow> u64 \<Rightarrow> ('f, 'a) boot_state_scheme \<Rightarrow> ((u64 \<times> memory_scan \<times> u64) \<times> ('f, 'a) boot_state_scheme) res" where
  "build_bitmap E map_size s =
     bindE (get_memory_map E map_size s) (\<lambda>((map_ptr, sz1, descriptor_size1, _), s1).
     bindE (scan_memory_map (boot_mem s1) map_ptr sz1 descriptor_size1) (\<lambda>sc.
     let bitmap_size_bytes = bitmap_size_of (max_memory_address sc) in
     bindE (call_service (AllocatePages E ((bitmap_size_bytes + 4095) div 4096)) ''Cannot allocate pages for memory bitmap!'' s1)
       (\<lambda>(bitmap_paddr, s2).
     let s3 = set_mem E bitmap_paddr bitmap_size_bytes 255 s2 in
     bindE (get_memory_map E sz1 s3) (\<lambda>((map_ptr2, sz2, descriptor_size2, _), s4).
     bindE (free_usable_frames bitmap_paddr map_ptr2 sz2 descriptor_size2 (boot_mem s4)) (\<lambda>m.
       Inr ((bitmap_paddr, sc, sz2), s4\<lparr>boot_mem := m\<rparr>))))))"

text \<open>The structure for the kernel, the frames that stay in use, and the top-level table.\<close>

definition prepare_boot_info ::
  "'f efi_services \<Rightarrow> u64 \<Rightarrow> memory_scan \<Rightarrow> ('f, 'a) boot_state_scheme \<Rightarrow> ((u64 \<times> u64) \<times> ('f, 'a) boot_state_scheme) res" where
  "prepare_boot_info E bitmap_paddr sc s =
     (let bitmap_size_bytes = bitmap_size_of (max_memory_address sc) in
      bindE (call_service (AllocatePages E 1) ''Could not allocate a page for the boot struct!'' s) (\<lambda>(boot_info_p, s1).
      let s2 = s1\<lparr>BootInfo := (BootInfo s1)\<lparr>memory_bitmap_address := bitmap_paddr, memory_bitmap_size := bitmap_size_bytes,
                 memory_bitmap_frame_count := bitmap_frame_count_of (max_memory_address sc),
                 memory_physical_total_frames := physical_memory_frame_count sc,
                 memory_physical_used_frames := physical_memory_used_frame_count sc\<rparr>\<rparr>;
          s3 = mark_run (unat ((bitmap_size_bytes + 4095) div 4096)) bitmap_paddr (drop_bit 12 bitmap_paddr) s2;
          s4 = (if efi_get_bitmap_bit bitmap_paddr (boot_mem s3) 0 = 0 then mark_used bitmap_paddr 0 s3 else s3);
          s5 = mark_used bitmap_paddr (drop_bit 12 boot_info_p) s4 in
      bindE (call_service (AllocatePages E 1) ''Cannot allocate page for PML4 table!'' s5) (\<lambda>(pml4, s6).
      let s7 = set_mem E pml4 4096 0 s6;
          s8 = s7\<lparr>BootInfo := (BootInfo s7)\<lparr>bi_PML4 := pml4\<rparr>\<rparr> in
      Inr ((boot_info_p, pml4), mark_used bitmap_paddr (drop_bit 12 pml4) s8))))"

definition read_framebuffer :: "'f efi_services \<Rightarrow> ('f, 'a) boot_state_scheme \<Rightarrow> ('f, 'a) boot_state_scheme res" where
  "read_framebuffer E s =
     bindE (call_service (LocateProtocol E EFI_GRAPHICS_OUTPUT_PROTOCOL_GUID) ''Unable to get the GOP!'' s) (\<lambda>(gop_interface, s1).
     let s2 = OutputString (''Got GOP!'' @ CRLF) s1; m = boot_mem s2; mode = gop_Mode m gop_interface; i = mode_Info m mode in
     Inr (s2\<lparr>BootInfo := (BootInfo s2)\<lparr>framebuffer_base := FrameBufferBase m mode, framebuffer_size := FrameBufferSize m mode,
            horizontal_resolution := HorizontalResolution m i, vertical_resolution := VerticalResolution m i,
            pixels_per_scan_line := PixelsPerScanLine m i\<rparr>\<rparr>))"

definition open_kernel_file :: "'f efi_services \<Rightarrow> u64 \<Rightarrow> ('f, 'a) boot_state_scheme \<Rightarrow> (u64 \<times> ('f, 'a) boot_state_scheme) res" where
  "open_kernel_file E ImageHandle s =
     bindE (call_service (HandleProtocol E ImageHandle EFI_LOADED_IMAGE_PROTOCOL_GUID) ''Unable to get loaded image protocol!'' s)
       (\<lambda>(loaded_image, s1).
     bindE (call_service (HandleProtocol E (DeviceHandle (boot_mem s1) loaded_image) EFI_SIMPLE_FILE_SYSTEM_PROTOCOL_GUID)
              ''Unable to get file system protocol!'' s1) (\<lambda>(file_system, s2).
     bindE (call_service (OpenVolume E file_system) ''Unable to get root directory file protocol!'' s2) (\<lambda>(root_dir, s3).
       call_service (OpenFile E root_dir ''kcore.elf'' 1 0) ''Unable to find or open kernel file!'' s3)))"

text \<open>The whole file is read into memory; a short read is reported and not otherwise acted upon.\<close>

definition read_kernel_file :: "'f efi_services \<Rightarrow> u64 \<Rightarrow> ('f, 'a) boot_state_scheme \<Rightarrow> (u64 \<times> ('f, 'a) boot_state_scheme) res" where
  "read_kernel_file E kernel_file s =
     (case GetInfo E kernel_file EFI_FILE_INFO_ID 0 0 (boot_mem s) (firmware s) of (_, info_size, m1, fw1) \<Rightarrow>
      bindE (call_service (AllocatePool E info_size) ''Unable to allocate memory for file info!'' (s\<lparr>boot_mem := m1, firmware := fw1\<rparr>))
        (\<lambda>(file_info, s1).
      bindE (call_service (GetInfo E kernel_file EFI_FILE_INFO_ID info_size file_info) ''Unable to execute getinfo for the kernel file!'' s1)
        (\<lambda>(_, s2).
      bindE (call_service (AllocatePages E ((FileSize (boot_mem s2) file_info + 4095) div 4096))
               ''Unable to allocate memory to store kernel elf file!'' s2) (\<lambda>(kernel_elf_buffer, s3).
      case ReadFile E kernel_file (FileSize (boot_mem s3) file_info) kernel_elf_buffer (boot_mem s3) (firmware s3) of
        (status, size_read, m4, fw4) \<Rightarrow>
          let s4 = s3\<lparr>boot_mem := m4, firmware := fw4\<rparr>;
              s5 = (if size_read \<noteq> FileSize m4 file_info then OutputString (''Did not load entire file!'' @ CRLF) s4 else s4) in
          bindE (check_EFI_error status ''Unable to read kernel elf file!'' s5) (\<lambda>s6.
            Inr (kernel_elf_buffer, OutputString (''Opened and read kernel elf!'' @ CRLF) s6))))))"

text \<open>One page of a segment; \<open>consumed\<close> counts the bytes of the file that were copied.\<close>

definition load_segment_page ::
  "'f efi_services \<Rightarrow> u64 \<Rightarrow> u64 \<Rightarrow> u64 \<Rightarrow> u64 \<Rightarrow> u64 \<Rightarrow> u64 \<times> ('f, 'a) boot_state_scheme \<Rightarrow> (u64 \<times> ('f, 'a) boot_state_scheme) res" where
  "load_segment_page E bm pml4 elf ph segment_vaddr cs =
     (case cs of (consumed, s) \<Rightarrow>
      bindE (call_service (AllocatePages E 1) ''Unable to allocate page for kernel!'' s) (\<lambda>(frame, s1).
      let filesz = p_filesz (boot_mem s1) ph;
          size_to_copy = (if filesz - consumed \<ge> 4096 then 4096 else filesz - consumed);
          s2 = s1\<lparr>boot_mem := CopyMem E frame (elf + p_offset (boot_mem s1) ph + consumed) size_to_copy (boot_mem s1)\<rparr>;
          s3 = (if size_to_copy < 4096 then set_mem E (frame + size_to_copy) (4096 - size_to_copy) 0 s2 else s2);
          write_flag = drop_bit 1 (p_flags (boot_mem s3) ph) AND 1;
          nx_flag = (if p_flags (boot_mem s3) ph AND 1 = 0 then 0x40 else 0) in
      bindE (map_vaddr_to_paddr E bm pml4 segment_vaddr frame (PT_GLOBAL OR ucast write_flag OR nx_flag) s3) (\<lambda>s4.
        Inr (consumed + size_to_copy, mark_used bm (drop_bit 12 frame) s4))))"

definition load_segment ::
  "'f efi_services \<Rightarrow> u64 \<Rightarrow> u64 \<Rightarrow> u64 \<Rightarrow> u64 \<Rightarrow> ('f, 'a) boot_state_scheme \<Rightarrow> ('f, 'a) boot_state_scheme res" where
  "load_segment E bm pml4 elf ph s =
     bindE (for_loop LOOP_FUEL (\<lambda>(_, s). p_vaddr (boot_mem s) ph + p_memsz (boot_mem s) ph) (\<lambda>_. 0x1000)
              (load_segment_page E bm pml4 elf ph) (p_vaddr (boot_mem s) ph) (0, s)) (\<lambda>(_, s1). Inr s1)"

definition load_kernel ::
  "'f efi_services \<Rightarrow> u64 \<Rightarrow> u64 \<Rightarrow> u64 \<Rightarrow> ('f, 'a) boot_state_scheme \<Rightarrow> (u64 \<times> ('f, 'a) boot_state_scheme) res" where
  "load_kernel E bm pml4 elf s =
     (if e_ident8 (boot_mem s) elf AND 0xFFFFFFFFFFFF \<noteq> 0x0102464c457f
      then Inl (Panic (''Kernel ELF file is not valid!'' @ CRLF))
      else
        let ELF_program_header = elf + e_phoff (boot_mem s) elf; kernel_entry_point = e_entry (boot_mem s) elf in
        bindE (for_loop LOOP_FUEL (\<lambda>s. ucast (e_phnum (boot_mem s) elf)) (\<lambda>_. 1) (\<lambda>phindex s.
                 let ph = ELF_program_header + PHDR_BYTES * phindex in
                 if p_type (boot_mem s) ph \<noteq> 1 then Inr s else load_segment E bm pml4 elf ph s) 0 s) (\<lambda>s1.
          Inr (kernel_entry_point, OutputString (''Finished parsing and loading elf!'' @ CRLF) s1)))"

definition direct_map_region ::
  "'f efi_services \<Rightarrow> u64 \<Rightarrow> u64 \<Rightarrow> u64 \<Rightarrow> u64 \<Rightarrow> ('f, 'a) boot_state_scheme \<Rightarrow> ('f, 'a) boot_state_scheme res" where
  "direct_map_region E bm pml4 map_ptr i s =
     (let d = read_descriptor (boot_mem s) (map_ptr + i) in
      if \<not> has_type d direct_map_types then Inr s
      else
        let low_bound_phys = (PhysicalStart d + 4095) AND NOT 0xFFF;
            high_bound_phys = (PhysicalStart d + NumberOfPages d * 0x1000) AND NOT 0xFFF in
        for_loop LOOP_FUEL (\<lambda>_. high_bound_phys) (\<lambda>_. 0x1000)
          (\<lambda>current_address. map_vaddr_to_paddr E bm pml4 (current_address + DIRECT_MAP_BASE) current_address (PT_GLOBAL OR PT_WRITEABLE))
          low_bound_phys s)"

definition map_direct ::
  "'f efi_services \<Rightarrow> u64 \<Rightarrow> u64 \<Rightarrow> u64 \<Rightarrow> ('f, 'a) boot_state_scheme \<Rightarrow> (u64 \<times> ('f, 'a) boot_state_scheme) res" where
  "map_direct E bm pml4 map_size s =
     bindE (get_memory_map E map_size s) (\<lambda>((map_ptr, sz1, descriptor_size1, _), s1).
     bindE (for_loop LOOP_FUEL (\<lambda>_. sz1) (\<lambda>_. descriptor_size1) (direct_map_region E bm pml4 map_ptr) 0 s1) (\<lambda>s2.
       Inr (sz1, OutputString (''Finished direct mapping of memory!'' @ CRLF) s2)))"

text \<open>The loop for the stack uses the same virtual address in every round.\<close>

primrec map_stack :: "nat \<Rightarrow> 'f efi_services \<Rightarrow> u64 \<Rightarrow> u64 \<Rightarrow> ('f, 'a) boot_state_scheme \<Rightarrow> ('f, 'a) boot_state_scheme res" where
  "map_stack 0 E bm pml4 s = Inr s"
| "map_stack (Suc n) E bm pml4 s =
     bindE (call_service (AllocatePages E 1) ''Cannot allocate page for kernel's stack!'' s) (\<lambda>(kernel_stack_paddr, s1).
     bindE (map_vaddr_to_paddr E bm pml4 (KERNEL_STACK_BASE - 1) kernel_stack_paddr (PT_GLOBAL OR PT_WRITEABLE) s1) (\<lambda>s2.
       map_stack n E bm pml4 s2))"

text \<open>The pages of the descriptor table that the jump into the kernel uses, from \<open>gdt64\<close> to \<open>gdt64_ptr\<close>.\<close>

definition map_bridge ::
  "'f efi_services \<Rightarrow> u64 \<Rightarrow> u64 \<Rightarrow> u64 \<Rightarrow> u64 \<Rightarrow> ('f, 'a) boot_state_scheme \<Rightarrow> ('f, 'a) boot_state_scheme res" where
  "map_bridge E bm pml4 gdt64 gdt64_ptr s =
     for_loop LOOP_FUEL (\<lambda>_. (gdt64_ptr + 0x1000) AND NOT 0xFFF) (\<lambda>_. 0x1000)
       (\<lambda>current_address. map_vaddr_to_paddr E bm pml4 current_address current_address (PT_GLOBAL OR PT_WRITEABLE))
       (gdt64 AND NOT 0xFFF) s"

text \<open>The arguments of \<^verbatim>\<open>jump_to_kernel\<close>.\<close>

record kernel_jump =
  pml4_phys :: u64
  entry_point :: u64
  stack_top :: u64
  boot_info_ptr :: u64

definition efi_main ::
  "'f efi_services \<Rightarrow> u64 \<Rightarrow> u64 \<Rightarrow> u64 \<Rightarrow> u64 \<Rightarrow> ('f, 'a) boot_state_scheme \<Rightarrow> (kernel_jump \<times> ('f, 'a) boot_state_scheme) res" where
  "efi_main E gdt64 gdt64_ptr map_size0 ImageHandle s =
     bindE (build_bitmap E map_size0 (OutputString (''EFI image loaded!'' @ CRLF) s)) (\<lambda>((bm, sc, map_size1), s1).
     bindE (prepare_boot_info E bm sc s1) (\<lambda>((boot_info_p, pml4), s2).
     bindE (read_framebuffer E s2) (\<lambda>s3.
     bindE (open_kernel_file E ImageHandle s3) (\<lambda>(kernel_file, s4).
     bindE (read_kernel_file E kernel_file s4) (\<lambda>(elf, s5).
     bindE (load_kernel E bm pml4 elf s5) (\<lambda>(kernel_entry_point, s6).
     bindE (map_direct E bm pml4 map_size1 s6) (\<lambda>(map_size2, s7).
     bindE (map_stack KERNEL_STACK_PAGE_COUNT E bm pml4 s7) (\<lambda>s8.
     bindE (map_bridge E bm pml4 gdt64 gdt64_ptr s8) (\<lambda>s9.
     let s10 = OutputString (''Preparing to jump to kernel...'' @ CRLF) (OutputString (''Finished kernel mapping of memory!'' @ CRLF) s9) in
     bindE (get_memory_map E map_size2 s10) (\<lambda>((_, _, _, map_key), s11).
     bindE (call_service (ExitBootServices E ImageHandle map_key) ''ExitBootServices failed!'' s11) (\<lambda>(_, s12).
       Inr (\<lparr>pml4_phys = pml4, entry_point = kernel_entry_point, stack_top = KERNEL_STACK_BASE, boot_info_ptr = boot_info_p\<rparr>, s12))))))))))))"

end
