(* ===== verification/Boot_Props.thy ===== *)
theory Boot_Props
  imports Boot
begin

text \<open>
  The boot loader's bitmap marks exactly the usable memory of the firmware's map, and its page tables translate as
  requested.
\<close>

section \<open>Bits\<close>

text \<open>The set of the frames whose bit is set in the \<open>n\<close> bytes at \<open>bm\<close>.\<close>

definition frame_bits :: "u64 \<Rightarrow> nat \<Rightarrow> memory \<Rightarrow> nat set" where
  "frame_bits bm n m = {f. f < min (8 * n) (2 ^ 64) \<and> bit (m (bm + of_nat (f div 8))) (f mod 8)}"

lemma byte_inj: "f < 2 ^ 64 \<Longrightarrow> g < 2 ^ 64 \<Longrightarrow> bm + of_nat f = bm + (of_nat g :: u64) \<longleftrightarrow> f = g"
proof -
  assume a: "f < 2 ^ 64" "g < 2 ^ 64"
  have "(of_nat f :: u64) = of_nat g \<Longrightarrow> f = g"
    using unat_of_nat_small [of f] unat_of_nat_small [of g] a by metis
  then show ?thesis by auto
qed

lemma frame_bits_write:
  assumes k: "unat k < min (8 * n) (2 ^ 64)"
    and b: "\<And>j. j < 8 \<Longrightarrow> bit v j = (if j = unat k mod 8 then x else bit (m (bm + k div 8)) j)"
  shows "frame_bits bm n (m(bm + k div 8 := v)) = (if x then insert (unat k) (frame_bits bm n m) else frame_bits bm n m - {unat k})"
proof -
  have kd: "k div 8 = of_nat (unat k div 8)" by (simp add: unat_div_mod_8 [symmetric])
  have "f \<in> frame_bits bm n (m(bm + k div 8 := v)) \<longleftrightarrow> f < min (8 * n) (2 ^ 64) \<and> (if f = unat k then x else f \<in> frame_bits bm n m)" for f
  proof (cases "f < min (8 * n) (2 ^ 64) \<and> f div 8 = unat k div 8")
    case True
    then have "f = unat k \<longleftrightarrow> f mod 8 = unat k mod 8" by (metis div_mult_mod_eq)
    then show ?thesis using True k b [of "f mod 8"] unfolding frame_bits_def kd by auto
  next
    case False
    have "bm + of_nat (f div 8) \<noteq> bm + of_nat (unat k div 8)" if "f < 2 ^ 64" "f div 8 \<noteq> unat k div 8"
    proof -
      have "f div 8 < 2 ^ 64" "unat k div 8 < 2 ^ 64" using that(1) unat_less_2p64 [of k] le_less_trans [OF div_le_dividend] by (simp_all del: unat_less_2p64)
      from byte_inj [OF this] that(2) show ?thesis by blast
    qed
    then show ?thesis using False unfolding frame_bits_def kd by auto
  qed
  then show ?thesis using k by (auto simp: frame_bits_def split: if_splits)
qed

lemma efi_set_frame_bits:
  "unat k < min (8 * n) (2 ^ 64) \<Longrightarrow> frame_bits bm n (efi_set_bitmap_bit bm m k) = insert (unat k) (frame_bits bm n m)"
proof -
  let ?b = "m (bm + k div 8)" and ?k = "unat k mod 8"
  assume k: "unat k < min (8 * n) (2 ^ 64)"
  have "bit (?b OR push_bit ?k 1) j = (if j = ?k then True else bit ?b j)" if "j < 8" for j
    using that by (auto simp: bit_simps)
  from frame_bits_write [of k n "?b OR push_bit ?k 1" True m bm, OF k this] show ?thesis by (simp add: efi_set_bitmap_bit_def unat_div_mod_8)
qed

lemma efi_unset_frame_bits:
  "unat k < min (8 * n) (2 ^ 64) \<Longrightarrow> frame_bits bm n (efi_unset_bitmap_bit bm m k) = frame_bits bm n m - {unat k}"
proof -
  let ?b = "m (bm + k div 8)" and ?k = "unat k mod 8"
  let ?m = "push_bit ?k 254 OR (push_bit ?k 1 - 1) :: u8"
  assume k: "unat k < min (8 * n) (2 ^ 64)"
  have "(254 :: u8) = push_bit 1 (mask 7)" "push_bit ?k 1 - 1 = (mask ?k :: u8)" by (simp_all add: mask_eq_exp_minus_1)
  then have m: "?m = push_bit (1 + ?k) (mask 7) OR mask ?k" by (simp only: push_bit_push_bit add.commute)
  have "bit ?m j \<longleftrightarrow> j \<noteq> ?k" if "j < 8" for j
    unfolding m using that by (auto simp: bit_simps simp del: push_bit_Suc)
  then have "bit (?b AND ?m) j = (if j = ?k then False else bit ?b j)" if "j < 8" for j
    using that by (auto simp: bit_and_iff)
  from frame_bits_write [of k n "?b AND ?m" False m bm, OF k this] show ?thesis by (simp add: efi_unset_bitmap_bit_def unat_div_mod_8)
qed

lemma efi_get_frame_bits:
  "unat k < min (8 * n) (2 ^ 64) \<Longrightarrow> efi_get_bitmap_bit bm m k = (if unat k \<in> frame_bits bm n m then 1 else 0)"
proof -
  let ?b = "m (bm + k div 8)" and ?k = "unat k mod 8"
  assume k: "unat k < min (8 * n) (2 ^ 64)"
  have "k div 8 = of_nat (unat k div 8)" by (simp add: unat_div_mod_8 [symmetric])
  moreover have "drop_bit ?k ?b AND 0x1 = (if bit ?b ?k then 1 else 0)"
    by (rule bit_word_eqI) (auto simp: bit_simps bit_1_iff intro: gr0I)
  ultimately show ?thesis using k by (simp add: efi_get_bitmap_bit_def frame_bits_def unat_div_mod_8)
qed

text \<open>The boot loader's copy of the three functions keeps the contract of the kernel's copy.\<close>

interpretation efi_bits: bit_array "\<lambda>m k. Inr (efi_get_bitmap_bit bm m k)" "\<lambda>m k. Inr (efi_set_bitmap_bit bm m k)"
  "\<lambda>m k. Inr (efi_unset_bitmap_bit bm m k)" "\<lambda>_. min (8 * n) (2 ^ 64)" "frame_bits bm n" for bm n
  by unfold_locales (simp_all add: efi_get_frame_bits [of _ n] efi_set_frame_bits efi_unset_frame_bits)

text \<open>Only the bytes of the bitmap change.\<close>

definition outside :: "u64 \<Rightarrow> nat \<Rightarrow> u64 \<Rightarrow> bool" where
  "outside bm n a \<longleftrightarrow> (\<forall>x<n. a \<noteq> bm + of_nat x)"

lemma bitmap_byte:
  assumes "unat k < 8 * n" and "outside bm n a"
  shows "a \<noteq> bm + k div 8"
proof -
  have "k div 8 = of_nat (unat k div 8)" by (simp add: unat_div_mod_8 [symmetric])
  then show ?thesis using assms by (auto simp: outside_def)
qed

lemma efi_bits_outside:
  "unat k < 8 * n \<Longrightarrow> outside bm n a \<Longrightarrow> efi_set_bitmap_bit bm m k a = m a"
  "unat k < 8 * n \<Longrightarrow> outside bm n a \<Longrightarrow> efi_unset_bitmap_bit bm m k a = m a"
  using bitmap_byte by (simp_all add: efi_set_bitmap_bit_def efi_unset_bitmap_bit_def)

lemma unset_range_bits:
  "unat hi \<le> 8 * n \<Longrightarrow> frame_bits bm n (unset_range bm lo hi m) = frame_bits bm n m - {unat lo..<unat hi} \<and>
     (\<forall>a. outside bm n a \<longrightarrow> unset_range bm lo hi m a = m a)"
proof (induction bm lo hi m rule: unset_range.induct)
  case (1 bm lo hi m)
  show ?case
  proof (cases "lo < hi")
    case True
    then have lo: "unat lo < unat hi" "unat lo < min (8 * n) (2 ^ 64)" "unat (lo + 1) = Suc (unat lo)"
      using 1(2) by (simp_all add: word_less_nat_alt unat_Suc_less)
    have e: "unset_range bm lo hi m = unset_range bm (lo + 1) hi (efi_unset_bitmap_bit bm m lo)"
      using True by (subst unset_range.simps) simp
    have i: "{unat lo..<unat hi} = insert (unat lo) {Suc (unat lo)..<unat hi}" using lo(1) by auto
    note IH = 1(1) [OF True 1(2)]
    have "frame_bits bm n (unset_range bm lo hi m) = frame_bits bm n m - {unat lo..<unat hi}"
      unfolding e i using IH lo(3) efi_unset_frame_bits [OF lo(2), of bm m] by auto
    moreover have "unset_range bm lo hi m a = m a" if "outside bm n a" for a
      unfolding e using IH that lo(2) efi_bits_outside(2) [of lo n bm a m] by simp
    ultimately show ?thesis by blast
  next
    case False
    then have "unset_range bm lo hi m = m" by (subst unset_range.simps) simp
    then show ?thesis using False by (simp add: word_less_nat_alt)
  qed
qed

section \<open>Loops\<close>

text \<open>An invariant of a loop that makes \<open>cnt\<close> equal steps, which ends because the variable does not wrap around.\<close>

lemma for_loop_rule:
  assumes d: "0 < unat d" "cnt * unat d < 2 ^ 64" and k: "k \<le> cnt" "cnt - k < fuel" and P: "P k s"
    and step: "\<And>k s. k < cnt \<Longrightarrow> P k s \<Longrightarrow> \<exists>s'. body (of_nat k * d) s = Inr s' \<and> P (Suc k) s'"
  shows "\<exists>s'. for_loop fuel (\<lambda>_. of_nat cnt * d) (\<lambda>_. d) body (of_nat k * d) s = Inr s' \<and> P cnt s'"
  using k P
proof (induction fuel arbitrary: k s)
  case (Suc fuel)
  have u: "unat (of_nat j * d) = j * unat d" if "j \<le> cnt" for j
  proof -
    have "j * unat d < 2 ^ 64" using that d(2) by (meson le_less_trans mult_le_mono1)
    then have "unat (of_nat (j * unat d) :: u64) = j * unat d" by (rule unat_of_nat_small)
    then show ?thesis by simp
  qed
  show ?case
  proof (cases "k = cnt")
    case True
    then show ?thesis using Suc.prems by simp
  next
    case False
    then have lt: "k < cnt" using Suc.prems(1) by simp
    then have "of_nat k * d < of_nat cnt * d" using d(1) by (simp add: word_less_nat_alt u)
    moreover obtain s1 where "body (of_nat k * d) s = Inr s1" "P (Suc k) s1" using step [OF lt Suc.prems(3)] by blast
    moreover have "of_nat k * d + d = of_nat (Suc k) * d" by (simp add: algebra_simps)
    ultimately show ?thesis using Suc.IH [of "Suc k" s1] lt Suc.prems(2) by simp
  qed
qed simp

lemma loop_fuel:
  assumes "0 < unat d" and "cnt * unat d < 2 ^ 64"
  shows "cnt - 0 < LOOP_FUEL"
proof -
  have "cnt * 1 \<le> cnt * unat d" using assms(1) by (intro mult_le_mono2) simp
  then have "cnt < 2 ^ 64" using assms(2) by (simp only: mult_1_right)
  then show ?thesis by (simp only: LOOP_FUEL_def minus_nat.diff_0)
qed

section \<open>The memory map\<close>

text \<open>The descriptors of a map of \<open>cnt\<close> entries.\<close>

definition descriptors :: "memory \<Rightarrow> u64 \<Rightarrow> u64 \<Rightarrow> nat \<Rightarrow> EFI_MEMORY_DESCRIPTOR list" where
  "descriptors m map_ptr dsz cnt = map (\<lambda>k. read_descriptor m (map_ptr + of_nat k * dsz)) [0..<cnt]"

definition usable :: "EFI_MEMORY_DESCRIPTOR \<Rightarrow> bool" where
  "usable d \<longleftrightarrow> has_type d usable_types"

text \<open>A region that does not reach the end of the address space.\<close>

definition sane :: "EFI_MEMORY_DESCRIPTOR \<Rightarrow> bool" where
  "sane d \<longleftrightarrow> unat (PhysicalStart d) + 4096 * unat (NumberOfPages d) + 2 ^ 16 < 2 ^ 64"

text \<open>The frames all of whose bytes lie in one region of a usable type, and those that the loop over the map clears.\<close>

definition usable_frames :: "EFI_MEMORY_DESCRIPTOR list \<Rightarrow> nat set" where
  "usable_frames ds = {f. \<exists>d\<in>set ds. usable d \<and> unat (PhysicalStart d) \<le> 4096 * f \<and>
     4096 * f + 4096 \<le> unat (PhysicalStart d) + 4096 * unat (NumberOfPages d)}"

definition cleared_frames :: "EFI_MEMORY_DESCRIPTOR list \<Rightarrow> nat set" where
  "cleared_frames ds = {f. \<exists>d\<in>set ds. usable d \<and> unat (first_frame d) \<le> f \<and> f < unat (end_frame d)}"

lemma top_unat: "sane d \<Longrightarrow> unat (PhysicalStart d + 4096 * NumberOfPages d) = unat (PhysicalStart d) + 4096 * unat (NumberOfPages d)"
proof -
  assume a: "sane d"
  then have "unat (4096 * NumberOfPages d) = 4096 * unat (NumberOfPages d)" by (subst unat_mult_small) (simp_all add: sane_def)
  with a show ?thesis by (subst unat_add_small) (simp_all add: sane_def)
qed

lemma end_frame_unat: "sane d \<Longrightarrow> unat (end_frame d) = (unat (PhysicalStart d) + 4096 * unat (NumberOfPages d)) div 4096"
  using top_unat [of d] by (simp add: end_frame_def drop_bit_eq_div unat_div mult.commute)

lemma first_frame_unat: "sane d \<Longrightarrow> unat (first_frame d) = (unat (PhysicalStart d) + 4095) div 4096"
proof -
  assume a: "sane d"
  have "drop_bit 12 (x AND NOT 4095) = drop_bit 12 x" for x :: u64
  proof (rule bit_word_eqI)
    fix i assume "i < LENGTH(64)"
    have m: "(4095 :: u64) = mask 12" by (simp add: mask_eq_exp_minus_1)
    show "bit (drop_bit 12 (x AND NOT 4095)) i = bit (drop_bit 12 x) i"
      unfolding m bit_drop_bit_eq comp_def bit_and_iff bit_not_iff bit_mask_iff using bit_imp_le_length [of x "12 + i"] by auto
  qed
  moreover have "unat (PhysicalStart d + 4095) = unat (PhysicalStart d) + 4095" using a by (subst unat_add_small) (simp_all add: sane_def)
  ultimately show ?thesis by (simp add: first_frame_def drop_bit_eq_div unat_div)
qed

lemma cleared_frames_usable:
  assumes "\<forall>d\<in>set ds. sane d"
  shows "cleared_frames ds = usable_frames ds"
proof -
  have n: "(a + 4095) div 4096 \<le> f \<longleftrightarrow> a \<le> 4096 * f" "f < b div 4096 \<longleftrightarrow> 4096 * f + 4096 \<le> b" for a b f :: nat
    using div_less_iff_less_mult [of 4096 "a + 4095" "Suc f"] less_eq_div_iff_mult_less_eq [of 4096 "Suc f" b] by auto
  have "unat (first_frame d) \<le> f \<and> f < unat (end_frame d) \<longleftrightarrow> unat (PhysicalStart d) \<le> 4096 * f \<and>
      4096 * f + 4096 \<le> unat (PhysicalStart d) + 4096 * unat (NumberOfPages d)" if "d \<in> set ds" for d f
    unfolding first_frame_unat [OF assms [rule_format, OF that]] end_frame_unat [OF assms [rule_format, OF that]] n ..
  then show ?thesis unfolding cleared_frames_def usable_frames_def by (intro Collect_cong bex_cong refl conj_cong [OF refl])
qed

lemma usable_ram: "has_type d usable_types \<Longrightarrow> has_type d ram_types"
  by (auto simp: has_type_def usable_types_def ram_types_def)

text \<open>The scan finds the end of usable memory.\<close>

lemma scan_descriptor_max:
  "max_memory_address sc \<le> max_memory_address (scan_descriptor d sc)"
  "usable d \<Longrightarrow> PhysicalStart d + 4096 * NumberOfPages d \<le> max_memory_address (scan_descriptor d sc)"
  using usable_ram [of d] by (auto simp: scan_descriptor_def Let_def usable_def)

lemma scan_descriptor_bound:
  "max_memory_address (scan_descriptor d sc) = max_memory_address sc \<or>
   max_memory_address (scan_descriptor d sc) = PhysicalStart d + 4096 * NumberOfPages d"
  by (auto simp: scan_descriptor_def Let_def)

lemma scan_law:
  assumes "0 < unat dsz" and "cnt * unat dsz < 2 ^ 64" and "\<forall>d\<in>set (descriptors m map_ptr dsz cnt). sane d"
  shows "\<exists>sc. scan_memory_map m map_ptr (of_nat cnt * dsz) dsz = Inr sc \<and> unat (max_memory_address sc) + 2 ^ 16 < 2 ^ 64 \<and>
    (\<forall>d\<in>set (descriptors m map_ptr dsz cnt). usable d \<longrightarrow> PhysicalStart d + 4096 * NumberOfPages d \<le> max_memory_address sc)"
proof -
  let ?d = "\<lambda>k. read_descriptor m (map_ptr + of_nat k * dsz)"
  let ?P = "\<lambda>k sc. unat (max_memory_address sc) + 2 ^ 16 < 2 ^ 64 \<and>
    (\<forall>j<k. usable (?d j) \<longrightarrow> PhysicalStart (?d j) + 4096 * NumberOfPages (?d j) \<le> max_memory_address sc)"
  note fuel = loop_fuel [OF assms(1,2)]
  have "\<exists>sc'. (Inr (scan_descriptor (?d k) sc) :: memory_scan res) = Inr sc' \<and> ?P (Suc k) sc'" if kP: "k < cnt" "?P k sc" for k sc
  proof -
    have "sane (?d k)" using assms(3) kP(1) by (auto simp: descriptors_def)
    then have "unat (max_memory_address (scan_descriptor (?d k) sc)) + 2 ^ 16 < 2 ^ 64"
      using scan_descriptor_bound [of "?d k" sc] top_unat [of "?d k"] kP(2) by (auto simp: sane_def)
    moreover have "PhysicalStart (?d j) + 4096 * NumberOfPages (?d j) \<le> max_memory_address (scan_descriptor (?d k) sc)"
      if j: "j < Suc k" "usable (?d j)" for j
    proof (cases "j = k")
      case True
      then show ?thesis using scan_descriptor_max(2) [of "?d k" sc] j(2) by simp
    next
      case False
      then have "j < k" using j(1) by simp
      with kP(2) j(2) have "PhysicalStart (?d j) + 4096 * NumberOfPages (?d j) \<le> max_memory_address sc" by blast
      also note scan_descriptor_max(1) [of sc "?d k"]
      finally show ?thesis .
    qed
    ultimately show ?thesis by blast
  qed
  note step = this
  let ?s0 = "\<lparr>max_memory_address = 0, physical_memory_frame_count = 0, physical_memory_used_frame_count = 0\<rparr>"
  have "?P 0 ?s0" by simp
  from for_loop_rule [of dsz cnt 0 LOOP_FUEL ?P ?s0 "\<lambda>i sc. Inr (scan_descriptor (read_descriptor m (map_ptr + i)) sc)",
      OF assms(1,2) le0 fuel this step]
  obtain sc where "for_loop LOOP_FUEL (\<lambda>_. of_nat cnt * dsz) (\<lambda>_. dsz)
      (\<lambda>i sc. Inr (scan_descriptor (read_descriptor m (map_ptr + i)) sc)) (of_nat 0 * dsz) ?s0 = Inr sc \<and> ?P cnt sc" ..
  then show ?thesis unfolding scan_memory_map_def descriptors_def by (intro exI [of _ sc]) simp
qed

text \<open>The bitmap is large enough for the frames below the end of usable memory.\<close>

lemma bitmap_covers:
  assumes "unat t + 2 ^ 16 < 2 ^ 64" and "u \<le> unat t"
  shows "u div 4096 \<le> 8 * unat (bitmap_size_of t)"
proof -
  have "unat (t + 4095) = unat t + 4095" using assms(1) by (subst unat_add_small) simp_all
  then have 1: "unat ((t + 4095) div 4096) = (unat t + 4095) div 4096" by (simp add: unat_div)
  have "(unat t + 4095) div 4096 + 7 < 2 ^ 64" using assms(1) by simp
  then have "unat ((t + 4095) div 4096 + 7) = (unat t + 4095) div 4096 + 7" using 1 by (subst unat_add_small) simp_all
  then have "unat (bitmap_size_of t) = ((unat t + 4095) div 4096 + 7) div 8" by (simp add: bitmap_size_of_def unat_div)
  moreover have "u div 4096 \<le> (unat t + 4095) div 4096" using assms(2) by (intro div_le_mono) simp
  ultimately show ?thesis by simp
qed

text \<open>Reading a descriptor depends on its 40 bytes.\<close>

lemma load32_bytes: "(\<And>k. k < 4 \<Longrightarrow> m' (p + of_nat k) = m (p + of_nat k)) \<Longrightarrow> load32 m' p = load32 m p"
proof -
  assume a: "\<And>k. k < 4 \<Longrightarrow> m' (p + of_nat k) = m (p + of_nat k)"
  from a [of 0] a [of 1] a [of 2] a [of 3] show ?thesis by (simp add: load32_def)
qed

lemma read_descriptor_bytes:
  assumes "\<And>k. k < 40 \<Longrightarrow> m' (p + of_nat k) = m (p + of_nat k)"
  shows "read_descriptor m' p = read_descriptor m p"
proof -
  have "load64 m' (p + of_nat c) = load64 m (p + of_nat c)" if "c \<le> 32" for c
  proof (rule load64_bytes)
    fix k :: nat assume "k < 8"
    then have "m' (p + of_nat (c + k)) = m (p + of_nat (c + k))" using assms [of "c + k"] that by simp
    then show "m' (p + of_nat c + of_nat k) = m (p + of_nat c + of_nat k)" by (simp add: add.assoc)
  qed
  from this [of 8] this [of 16] this [of 24] this [of 32] load32_bytes [of m' p m] assms
  show ?thesis by (simp add: read_descriptor_def)
qed

lemma Diff_Diff_Un: "A - B - C = A - (B \<union> C)"
  by blast

text \<open>The map is not in the bitmap.\<close>

definition separate :: "u64 \<Rightarrow> nat \<Rightarrow> u64 \<Rightarrow> u64 \<Rightarrow> nat \<Rightarrow> bool" where
  "separate bm n map_ptr dsz cnt \<longleftrightarrow> (\<forall>k<cnt. \<forall>j<40. outside bm n (map_ptr + of_nat k * dsz + of_nat j))"

lemma free_law:
  assumes "0 < unat dsz" and "cnt * unat dsz < 2 ^ 64" and sep: "separate bm n map_ptr dsz cnt"
    and size: "\<forall>d\<in>set (descriptors m map_ptr dsz cnt). usable d \<longrightarrow> unat (end_frame d) \<le> 8 * n"
  shows "\<exists>m'. free_usable_frames bm map_ptr (of_nat cnt * dsz) dsz m = Inr m' \<and>
    frame_bits bm n m' = frame_bits bm n m - cleared_frames (descriptors m map_ptr dsz cnt) \<and> (\<forall>a. outside bm n a \<longrightarrow> m' a = m a)"
proof -
  let ?d = "\<lambda>k. read_descriptor m (map_ptr + of_nat k * dsz)"
  let ?F = "\<lambda>k. cleared_frames (map ?d [0..<k])"
  let ?P = "\<lambda>k m'. frame_bits bm n m' = frame_bits bm n m - ?F k \<and> (\<forall>a. outside bm n a \<longrightarrow> m' a = m a)"
  have "\<exists>m''. free_descriptor bm map_ptr (of_nat k * dsz) m' = Inr m'' \<and> ?P (Suc k) m''" if k: "k < cnt" and P: "?P k m'" for k m'
  proof -
    have d: "read_descriptor m' (map_ptr + of_nat k * dsz) = ?d k"
    proof (rule read_descriptor_bytes)
      fix j :: nat assume "j < 40"
      then have "outside bm n (map_ptr + of_nat k * dsz + of_nat j)" using sep k unfolding separate_def by blast
      then show "m' (map_ptr + of_nat k * dsz + of_nat j) = m (map_ptr + of_nat k * dsz + of_nat j)" using conjunct2 [OF P] by blast
    qed
    have F: "?F (Suc k) = ?F k \<union> (if usable (?d k) then {unat (first_frame (?d k))..<unat (end_frame (?d k))} else {})"
      by (auto simp: cleared_frames_def)
    show ?thesis
    proof (cases "usable (?d k)")
      case True
      then have "unat (end_frame (?d k)) \<le> 8 * n" using size k by (simp add: descriptors_def)
      note r = unset_range_bits [OF this, of bm "first_frame (?d k)" m']
      have "free_descriptor bm map_ptr (of_nat k * dsz) m' = Inr (unset_range bm (first_frame (?d k)) (end_frame (?d k)) m')"
        using True by (simp add: free_descriptor_def d usable_def Let_def)
      moreover have "frame_bits bm n (unset_range bm (first_frame (?d k)) (end_frame (?d k)) m') = frame_bits bm n m - ?F (Suc k)"
        unfolding F if_P [OF True] r [THEN conjunct1] P [THEN conjunct1] by (rule Diff_Diff_Un)
      moreover have "\<forall>a. outside bm n a \<longrightarrow> unset_range bm (first_frame (?d k)) (end_frame (?d k)) m' a = m a"
        using conjunct2 [OF P] conjunct2 [OF r] by simp
      ultimately show ?thesis by blast
    next
      case False
      then have "free_descriptor bm map_ptr (of_nat k * dsz) m' = Inr m'" by (simp add: free_descriptor_def d usable_def Let_def)
      then show ?thesis unfolding F if_not_P [OF False] Un_empty_right using P by blast
    qed
  qed
  note step = this
  have "?P 0 m" by (simp add: cleared_frames_def)
  from for_loop_rule [of dsz cnt 0 LOOP_FUEL ?P m "free_descriptor bm map_ptr", OF assms(1,2) le0 loop_fuel [OF assms(1,2)] this step]
  obtain m' where "for_loop LOOP_FUEL (\<lambda>_. of_nat cnt * dsz) (\<lambda>_. dsz) (free_descriptor bm map_ptr) (of_nat 0 * dsz) m = Inr m' \<and> ?P cnt m'" ..
  then have "free_usable_frames bm map_ptr (of_nat cnt * dsz) dsz m = Inr m' \<and> ?P cnt m'"
    unfolding free_usable_frames_def semiring_1_class.of_nat_0 mult_zero_left by assumption
  then show ?thesis unfolding descriptors_def by (intro exI [of _ m'])
qed

section \<open>Properties\<close>

lemma boot_bitmap_law:
  assumes "0 < unat dsz" and "cnt * unat dsz < 2 ^ 64" and "\<forall>d\<in>set (descriptors m map_ptr dsz cnt). sane d"
    and "\<And>sc. scan_memory_map m map_ptr (of_nat cnt * dsz) dsz = Inr sc \<Longrightarrow>
           separate bm (unat (bitmap_size_of (max_memory_address sc))) map_ptr dsz cnt"
  shows "\<exists>sc m'. scan_memory_map m map_ptr (of_nat cnt * dsz) dsz = Inr sc \<and>
    free_usable_frames bm map_ptr (of_nat cnt * dsz) dsz m = Inr m' \<and>
    usable_frames (descriptors m map_ptr dsz cnt) \<subseteq> {..<8 * unat (bitmap_size_of (max_memory_address sc))} \<and>
    frame_bits bm (unat (bitmap_size_of (max_memory_address sc))) m' =
      frame_bits bm (unat (bitmap_size_of (max_memory_address sc))) m - usable_frames (descriptors m map_ptr dsz cnt) \<and>
    (\<forall>a. outside bm (unat (bitmap_size_of (max_memory_address sc))) a \<longrightarrow> m' a = m a)"
proof -
  from scan_law [OF assms(1-3)] obtain sc where
    sc: "scan_memory_map m map_ptr (of_nat cnt * dsz) dsz = Inr sc" "unat (max_memory_address sc) + 2 ^ 16 < 2 ^ 64"
      "\<forall>d\<in>set (descriptors m map_ptr dsz cnt). usable d \<longrightarrow> PhysicalStart d + 4096 * NumberOfPages d \<le> max_memory_address sc" by blast
  have e: "unat (end_frame d) \<le> 8 * unat (bitmap_size_of (max_memory_address sc))"
    if "d \<in> set (descriptors m map_ptr dsz cnt)" "usable d" for d
    unfolding end_frame_unat [OF assms(3) [rule_format, OF that(1)]]
    using sc(2,3) that assms(3) top_unat [of d] by (intro bitmap_covers) (auto simp: word_le_nat_alt)
  then have size: "\<forall>d\<in>set (descriptors m map_ptr dsz cnt). usable d \<longrightarrow> unat (end_frame d) \<le> 8 * unat (bitmap_size_of (max_memory_address sc))"
    by blast
  note eq = cleared_frames_usable [OF assms(3)]
  have sub: "usable_frames (descriptors m map_ptr dsz cnt) \<subseteq> {..<8 * unat (bitmap_size_of (max_memory_address sc))}"
    unfolding eq [symmetric] using e by (fastforce simp: cleared_frames_def)
  obtain m' where m': "free_usable_frames bm map_ptr (of_nat cnt * dsz) dsz m = Inr m'"
    "frame_bits bm (unat (bitmap_size_of (max_memory_address sc))) m' =
      frame_bits bm (unat (bitmap_size_of (max_memory_address sc))) m - usable_frames (descriptors m map_ptr dsz cnt)"
    "\<forall>a. outside bm (unat (bitmap_size_of (max_memory_address sc))) a \<longrightarrow> m' a = m a"
    using free_law [OF assms(1,2) assms(4) [OF sc(1)] size, unfolded eq] by (elim exE conjE) (rule that)
  show ?thesis by (intro exI [of _ sc] exI [of _ m'] conjI) (fact sc(1) m' sub)+
qed

text \<open>C9: The bitmap that is sized from the firmware's memory map and freed from it has room for every usable frame, and
  the frames whose bit is cleared are exactly those that lie completely in a region of one of the usable types.
  No byte outside the bitmap is written, and both loops over the map end.\<close>

theorem boot_bitmap_marks_usable_memory:
  assumes "0 < unat dsz" and "cnt * unat dsz < 2 ^ 64" and "\<forall>d\<in>set (descriptors m map_ptr dsz cnt). sane d"
    and "\<And>sc. scan_memory_map m map_ptr (of_nat cnt * dsz) dsz = Inr sc \<Longrightarrow>
           separate bm (unat (bitmap_size_of (max_memory_address sc))) map_ptr dsz cnt"
  shows "\<exists>sc m'. scan_memory_map m map_ptr (of_nat cnt * dsz) dsz = Inr sc \<and>
    free_usable_frames bm map_ptr (of_nat cnt * dsz) dsz m = Inr m' \<and>
    usable_frames (descriptors m map_ptr dsz cnt) \<subseteq> {..<8 * unat (bitmap_size_of (max_memory_address sc))} \<and>
    frame_bits bm (unat (bitmap_size_of (max_memory_address sc))) m' =
      frame_bits bm (unat (bitmap_size_of (max_memory_address sc))) m - usable_frames (descriptors m map_ptr dsz cnt) \<and>
    (\<forall>a. outside bm (unat (bitmap_size_of (max_memory_address sc))) a \<longrightarrow> m' a = m a)"
  using boot_bitmap_law [OF assms] .

text \<open>A map with one region of 16 pages at 1 MiB, below a bitmap that starts with all bits set.\<close>

definition map_small :: memory where
  "map_small = store64 (store64 (store32 (\<lambda>_. 255) 0x1000 7) 0x1008 0x100000) 0x1018 16"

lemma map_small_descriptor:
  "desc_Type (read_descriptor map_small 0x1000) = 7" "PhysicalStart (read_descriptor map_small 0x1000) = 0x100000"
  "NumberOfPages (read_descriptor map_small 0x1000) = 16"
  by (simp_all add: read_descriptor_def map_small_def load32_def load64_def store32_def store64_def byte_of_def)

lemma outside_below:
  assumes "unat a < unat bm" and "unat bm + n \<le> 2 ^ 64"
  shows "outside bm n a"
  unfolding outside_def
proof (intro allI impI notI)
  fix x assume x: "x < n" "a = bm + of_nat x"
  then have u: "unat (of_nat x :: u64) = x" using assms(2) by (intro unat_of_nat_small) simp
  then have "unat (bm + of_nat x) = unat bm + x" using x(1) assms(2) by (subst unat_add_small) simp_all
  then show False using x(2) assms(1) by simp
qed

lemma map_small_scan: "\<exists>sc. scan_memory_map map_small 0x1000 48 48 = Inr sc \<and> max_memory_address sc = 0x110000"
proof -
  obtain n where n: "LOOP_FUEL = Suc (Suc n)" by (rule that [of "2 ^ 64 - 2"]) (simp add: LOOP_FUEL_def)
  show ?thesis
    unfolding scan_memory_map_def n
    by (simp add: scan_descriptor_def Let_def has_type_def ram_types_def usable_types_def map_small_descriptor)
qed

lemma map_small_descriptors: "descriptors map_small 0x1000 48 (Suc 0) = [read_descriptor map_small 0x1000]"
  by (simp add: descriptors_def)

lemma map_small_usable: "usable_frames (descriptors map_small 0x1000 48 (Suc 0)) = {0x100..<0x110}"
  unfolding map_small_descriptors
  by (auto simp: usable_frames_def usable_def has_type_def usable_types_def map_small_descriptor)

lemma map_small_size: "unat (bitmap_size_of 0x110000) = 34"
  by (simp add: bitmap_size_of_def)

lemma map_small_separate: "separate 0x8000 34 0x1000 48 1"
  unfolding separate_def by (auto intro!: outside_below simp: unat_word_ariths)

theorem boot_bitmap_marks_usable_memory_witness:
  "\<exists>sc m'. scan_memory_map map_small 0x1000 48 48 = Inr sc \<and> free_usable_frames 0x8000 0x1000 48 48 map_small = Inr m' \<and>
     frame_bits 0x8000 34 m' = frame_bits 0x8000 34 map_small - {0x100..<0x110}"
proof -
  from map_small_scan obtain sc where sc: "scan_memory_map map_small 0x1000 48 48 = Inr sc" "max_memory_address sc = 0x110000" by blast
  show ?thesis
    using boot_bitmap_marks_usable_memory [of 48 1 map_small "0x1000" "0x8000"] map_small_separate sc map_small_usable
    by (auto simp: map_small_descriptors map_small_size sane_def map_small_descriptor)
qed

end
