(* ===== verification/Boot_Map.thy ===== *)
theory Boot_Map
  imports Boot_Props Vmm_Props
begin

text \<open>
  The boot loader's page tables. They are tables of \<^verbatim>\<open>Vmm_Tables\<close> once memory is read in words of 64 bits, so the kernel's
  walk of the processor (\<^verbatim>\<open>hw_translate\<close>) applies to them.
\<close>

section \<open>Words of a table\<close>

lemma unat_slot_byte:
  assumes "f < 2 ^ 40" "i < 512" "k < 8"
  shows "unat (slot f i + of_nat k) = 4096 * f + 8 * i + k"
proof -
  have "slot f i + of_nat k = of_nat (4096 * f + 8 * i + k)" by (simp add: slot_def)
  moreover have "4096 * f + 8 * i + k < 2 ^ 64" using assms by simp
  ultimately show ?thesis by (simp only: unat_of_nat_small)
qed

definition same_frame :: "nat \<Rightarrow> memory \<Rightarrow> memory \<Rightarrow> bool" where
  "same_frame f m m' \<longleftrightarrow> (\<forall>a. unat a div 4096 = f \<longrightarrow> m' a = m a)"

lemma load64_same_frame:
  assumes "same_frame f m m'" "f < 2 ^ 40" "i < 512"
  shows "load64 m' (slot f i) = load64 m (slot f i)"
proof (rule load64_bytes)
  fix k :: nat assume "k < 8"
  then have "unat (slot f i + of_nat k) div 4096 = f" unfolding unat_slot_byte [OF assms(2,3) \<open>k < 8\<close>] using assms(3) by simp
  then show "m' (slot f i + of_nat k) = m (slot f i + of_nat k)" using assms(1) by (simp add: same_frame_def)
qed

lemma load64_zero_frame:
  assumes "\<forall>a. unat a div 4096 = f \<longrightarrow> m a = 0" "f < 2 ^ 40" "i < 512"
  shows "load64 m (slot f i) = 0"
proof -
  have "load64 m (slot f i) = load64 (\<lambda>_. 0) (slot f i)"
    by (rule load64_same_frame) (use assms in \<open>simp_all add: same_frame_def\<close>)
  then show ?thesis by (simp add: load64_def)
qed

lemma split_digit: "c * x + k = c * y + d \<Longrightarrow> k < c \<Longrightarrow> d < c \<Longrightarrow> x = y \<and> k = (d :: nat)"
  by (metis add_left_cancel div_mult_self4 div_less add_cancel_right_right mod_mult_self4 mod_less gr_implies_not0)

lemma load64_store_slot:
  assumes "f < 2 ^ 40" "g < 2 ^ 40" "i < 512" "j < 512"
  shows "load64 (store64 m (slot f i) e) (slot g j) = (if g = f \<and> j = i then e else load64 m (slot g j))"
proof (cases "g = f \<and> j = i")
  case False
  have "load64 (store64 m (slot f i) e) (slot g j) = load64 m (slot g j)"
  proof (rule load64_bytes)
    fix k :: nat assume k: "k < 8"
    let ?a = "slot g j + of_nat k"
    have "\<not> ?a - slot f i < 8"
    proof
      assume "?a - slot f i < 8"
      then have d: "unat (?a - slot f i) < 8" by (simp add: word_less_nat_alt)
      have "?a = slot f i + of_nat (unat (?a - slot f i))" by simp
      then have "unat ?a = 4096 * f + 8 * i + unat (?a - slot f i)"
        using unat_slot_byte [OF assms(1,3) d] by metis
      then have "4096 * g + 8 * j + k = 4096 * f + 8 * i + unat (?a - slot f i)"
        unfolding unat_slot_byte [OF assms(2,4) k] .
      then have "8 * (512 * g + j) + k = 8 * (512 * f + i) + unat (?a - slot f i)" by simp
      from split_digit [OF this k d] have "512 * g + j = 512 * f + i" by simp
      from split_digit [OF this assms(4,3)] show False using False by simp
    qed
    then show "store64 m (slot f i) e ?a = m ?a" by (simp add: store64_def)
  qed
  then show ?thesis unfolding if_not_P [OF False] .
qed simp

text \<open>A write to the bitmap leaves other frames alone.\<close>

definition bitmap_frames :: "u64 \<Rightarrow> nat \<Rightarrow> nat set" where
  "bitmap_frames bm n = (\<lambda>x. unat (bm + of_nat x) div 4096) ` {..<n}"

lemma mark_used_frame:
  assumes "unat k < 8 * n" and "f \<notin> bitmap_frames bm n"
  shows "same_frame f (boot_mem s) (boot_mem (mark_used bm k s))"
  unfolding same_frame_def
proof (intro allI impI)
  fix a :: u64 assume "unat a div 4096 = f"
  then have "outside bm n a" using assms(2) by (auto simp: outside_def bitmap_frames_def)
  then show "boot_mem (mark_used bm k s) a = boot_mem s a" by (simp add: mark_used_def efi_bits_outside [OF assms(1)])
qed

section \<open>Pages from the firmware\<close>

text \<open>
  What the loader relies on: \<^verbatim>\<open>AllocatePages\<close> succeeds while pages are left and returns a page below the frame
  \<open>lim\<close> that was not handed out before, without changing pages that were; \<^verbatim>\<open>SetMem\<close> writes its value to exactly the
  bytes it is given.
\<close>

definition page_source :: "'f efi_services \<Rightarrow> ('f \<Rightarrow> nat set) \<Rightarrow> ('f \<Rightarrow> nat) \<Rightarrow> nat \<Rightarrow> bool" where
  "page_source E own room lim \<longleftrightarrow> lim \<le> 2 ^ 40 \<and>
     (\<forall>m fw. 0 < room fw \<longrightarrow> (\<exists>b m' fw'. AllocatePages E 1 m fw = (0, of_nat (4096 * b), m', fw') \<and> b < lim \<and>
        b \<notin> own fw \<and> own fw' = insert b (own fw) \<and> room fw = Suc (room fw') \<and> (\<forall>f\<in>own fw. same_frame f m m'))) \<and>
     (\<forall>b m. b < lim \<longrightarrow> SetMem E (of_nat (4096 * b)) 4096 0 m = (\<lambda>a. if unat a div 4096 = b then 0 else m a))"

lemma allocate_page:
  assumes "page_source E own room lim" and "0 < room (firmware s)"
  shows "\<exists>b m' fw'. call_service (AllocatePages E 1) msg s = Inr (of_nat (4096 * b), s\<lparr>boot_mem := m', firmware := fw'\<rparr>) \<and>
    b < lim \<and> b \<notin> own (firmware s) \<and> own fw' = insert b (own (firmware s)) \<and> room (firmware s) = Suc (room fw') \<and>
    (\<forall>f\<in>own (firmware s). same_frame f (boot_mem s) m')"
proof -
  from assms obtain b m' fw' where
    "AllocatePages E 1 (boot_mem s) (firmware s) = (0, of_nat (4096 * b), m', fw')" "b < lim" "b \<notin> own (firmware s)"
    "own fw' = insert b (own (firmware s))" "room (firmware s) = Suc (room fw')" "\<forall>f\<in>own (firmware s). same_frame f (boot_mem s) m'"
    unfolding page_source_def by blast
  then show ?thesis by (intro exI [of _ b] exI [of _ m'] exI [of _ fw']) (simp add: call_service_def check_EFI_error_def)
qed

section \<open>Walks\<close>

text \<open>Tables in pages of the firmware, the bitmap in other pages.\<close>

definition boot_wf :: "('f \<Rightarrow> nat set) \<Rightarrow> u64 \<Rightarrow> nat \<Rightarrow> nat \<Rightarrow> ('f, 'a) boot_state_scheme \<Rightarrow> bool" where
  "boot_wf own bm n r s \<longleftrightarrow> bitmap_frames bm n \<subseteq> own (firmware s) \<and>
     tables_ok (load64 (boot_mem s)) r (own (firmware s) - bitmap_frames bm n)"

text \<open>Memory in which tables were added: absent entries above the last level became links.\<close>

definition grown :: "nat \<Rightarrow> (u64 \<Rightarrow> u64) \<Rightarrow> (u64 \<Rightarrow> u64) \<Rightarrow> bool" where
  "grown r m m' \<longleftrightarrow> (\<forall>p f. valid_path p \<longrightarrow> tab m r p = Some f \<longrightarrow> tab m' r p = Some f) \<and>
     (\<forall>p i. valid_path p \<longrightarrow> i < 512 \<longrightarrow> ent m' r p i = ent m r p i \<or> length p \<le> 2 \<and> ent m r p i = 0 \<and> link (ent m' r p i) \<noteq> None)"

lemma grown_refl: "grown r m m"
  by (simp add: grown_def)

lemma grown_trans: "grown r m m1 \<Longrightarrow> grown r m1 m2 \<Longrightarrow> grown r m m2"
  unfolding grown_def by (auto; metis link_0)

lemma grown_entry:
  assumes "grown r m m'" and "valid_path p" "i < 512" and "\<not> huge (ent m r p i)"
  shows "\<not> huge (ent m' r p i)"
proof -
  have "ent m' r p i = ent m r p i \<or> link (ent m' r p i) \<noteq> None" using assms(1-3) unfolding grown_def by blast
  then show ?thesis using assms(4) by (auto simp: huge_def link_def split: if_splits)
qed

lemma boot_table_entry: "entry_at (of_nat (4096 * f)) i = slot f (unat i)"
  by (simp add: entry_at_def slot_def)

lemma boot_walk_present:
  assumes "link (load64 (boot_mem s) (slot f (unat i))) = Some g"
  shows "walk_and_crate_next_table E bm (of_nat (4096 * f)) i s = Inr (of_nat (4096 * g), s)"
proof -
  let ?e = "load64 (boot_mem s) (slot f (unat i))"
  have e: "bit ?e 0" "frame_of ?e = g" using assms by (auto simp: link_def split: if_splits)
  have "push_bit 12 (pte_physical_address ?e) = of_nat (4096 * g)"
    unfolding e(2) [symmetric] by (simp add: frame_of_def push_bit_eq_mult mult.commute)
  then show ?thesis
    using e(1) by (simp only: walk_and_crate_next_table_def boot_entry_def boot_table_entry pte_bits) simp
qed

lemma agree_slots:
  assumes ok: "tables_ok m r U" and p0: "valid_path p0" "tab m r p0 = Some f0"
    and m': "\<And>f i. f \<in> U \<Longrightarrow> f < 2 ^ 40 \<Longrightarrow> i < 512 \<Longrightarrow> \<not> (f = f0 \<and> i = i0) \<Longrightarrow> m' (slot f i) = m (slot f i)"
  shows "agree m m' r p0 i0"
  unfolding agree_def
proof (intro allI impI)
  fix p f i
  assume p: "valid_path p" "tab m r p = Some f" "i < 512" "(p, i) \<noteq> (p0, i0)"
  have f: "f \<in> U" "f < 2 ^ 40" using ok p unfolding tables_ok_def by blast+
  have "f = f0 \<longrightarrow> p = p0" using ok p p0 unfolding tables_ok_def by blast
  then show "m' (slot f i) = m (slot f i)" using m' [OF f p(3)] p(4) by blast
qed

lemma grown_link:
  assumes p: "valid_path p" "length p \<le> 2" "tab m r p = Some f" and z: "m (slot f i) = 0"
    and new: "ok \<and> (\<forall>q. valid_path q \<longrightarrow> tab m' r q = (if q = p @ [i] then Some b else tab m r q)) \<and>
      (\<forall>q j. valid_path q \<longrightarrow> j < 512 \<longrightarrow> (q, j) \<noteq> (p, i) \<longrightarrow> ent m' r q j = ent m r q j) \<and> ent m' r p i = e"
    and l: "link e = Some b"
  shows "grown r m m'"
proof -
  have none: "tab m r (p @ [i]) = None" using p(3) z by (simp add: tab_snoc)
  have "tab m' r q = Some g" if "valid_path q" "tab m r q = Some g" for q g using new none that by auto
  moreover have "ent m' r q j = ent m r q j \<or> length q \<le> 2 \<and> ent m r q j = 0 \<and> link (ent m' r q j) \<noteq> None"
    if "valid_path q" "j < 512" for q j
  proof (cases "(q, j) = (p, i)")
    case True
    moreover have "ent m r p i = 0" using p(3) z by (simp add: ent_def)
    ultimately show ?thesis using p(2) new l by simp
  next
    case False
    then show ?thesis using new that by blast
  qed
  ultimately show ?thesis unfolding grown_def by blast
qed

text \<open>The memory after a table in a fresh frame was linked from an absent entry.\<close>

lemma boot_link:
  assumes src: "page_source E own room lim" and lim: "lim \<le> 8 * n" and bits: "bitmap_frames bm n \<subseteq> own (firmware s)"
    and f: "f \<in> own (firmware s) - bitmap_frames bm n" "f < 2 ^ 40" and i: "unat i < 512"
    and e: "load64 (boot_mem s) (slot f (unat i)) = 0" and left: "0 < room (firmware s)"
  shows "\<exists>b s'. walk_and_crate_next_table E bm (of_nat (4096 * f)) i s = Inr (of_nat (4096 * b), s') \<and> b < 2 ^ 40 \<and>
    b \<notin> own (firmware s) \<and> own (firmware s') = insert b (own (firmware s)) \<and> room (firmware s) = Suc (room (firmware s')) \<and>
    (\<forall>g j. g \<in> own (firmware s) - bitmap_frames bm n \<longrightarrow> g < 2 ^ 40 \<longrightarrow> j < 512 \<longrightarrow> load64 (boot_mem s') (slot g j) =
       (if g = f \<and> j = unat i then table_entry b else load64 (boot_mem s) (slot g j))) \<and>
    (\<forall>j<512. load64 (boot_mem s') (slot b j) = 0)"
proof -
  from allocate_page [OF src left, of "''Unable to allocate page for a page table!''"] obtain b m1 fw1 where
    a: "call_service (AllocatePages E 1) ''Unable to allocate page for a page table!'' s = Inr (of_nat (4096 * b), s\<lparr>boot_mem := m1, firmware := fw1\<rparr>)"
    and b: "b < lim" "b \<notin> own (firmware s)" and fw1: "own fw1 = insert b (own (firmware s))" "room (firmware s) = Suc (room fw1)"
    and keep: "\<forall>f\<in>own (firmware s). same_frame f (boot_mem s) m1" by blast
  have b40: "b < 2 ^ 40" using b(1) src by (simp add: page_source_def)
  define m2 where "m2 = (\<lambda>a. if unat a div 4096 = b then 0 else m1 a)"
  have set: "SetMem E (of_nat (4096 * b)) 4096 0 m1 = m2" using src b(1) by (simp add: page_source_def m2_def)
  have keep2: "same_frame g (boot_mem s) m2" if "g \<in> own (firmware s)" for g
    using keep that b(2) by (auto simp: same_frame_def m2_def)
  have m2f: "load64 m2 (slot f (unat i)) = 0" using load64_same_frame [OF keep2 f(2) i] f(1) e by simp
  define m3 where "m3 = store64 m2 (slot f (unat i)) (table_entry b)"
  define s3 where "s3 = s\<lparr>firmware := fw1, boot_mem := m3\<rparr>"
  define s' where "s' = mark_used bm (drop_bit 12 (of_nat (4096 * b))) s3"
  have bn: "unat (drop_bit 12 (of_nat (4096 * b)) :: u64) = b" using drop_bit_frame [OF b40] by (simp add: mult.commute)
  have mark: "same_frame g m3 (boot_mem s')" if "g \<notin> bitmap_frames bm n" for g
    using mark_used_frame [of "drop_bit 12 (of_nat (4096 * b))" n g bm s3] that b(1) lim unfolding bn s'_def by (simp add: s3_def)
  have w: "load64 (boot_mem s') (slot g j) = (if g = f \<and> j = unat i then table_entry b else load64 m2 (slot g j))"
    if "g \<notin> bitmap_frames bm n" "g < 2 ^ 40" "j < 512" for g j
    using load64_same_frame [OF mark that(2,3)] that load64_store_slot [OF f(2) that(2) i that(3), of m2 "table_entry b"]
    by (simp add: m3_def)
  have "load64 (boot_mem s') (slot b j) = 0" if "j < 512" for j
  proof -
    have "b \<notin> bitmap_frames bm n" "b \<noteq> f" using f(1) b(2) bits by auto
    moreover have "load64 m2 (slot b j) = 0" by (rule load64_zero_frame [OF _ b40 that]) (simp add: m2_def)
    ultimately show ?thesis using w [of b j] b40 that by simp
  qed
  moreover have "load64 (boot_mem s') (slot g j) = (if g = f \<and> j = unat i then table_entry b else load64 (boot_mem s) (slot g j))"
    if "g \<in> own (firmware s) - bitmap_frames bm n" "g < 2 ^ 40" "j < 512" for g j
  proof -
    have g: "g \<in> own (firmware s)" "g \<notin> bitmap_frames bm n" using that(1) by auto
    show ?thesis unfolding w [OF g(2) that(2,3)] load64_same_frame [OF keep2 [OF g(1)] that(2,3)] ..
  qed
  moreover have "walk_and_crate_next_table E bm (of_nat (4096 * f)) i s = Inr (of_nat (4096 * b), s')"
    using e a set m2f
    by (simp add: walk_and_crate_next_table_def boot_entry_def boot_table_entry [unfolded of_nat_mult of_nat_numeral] pte_bits set_mem_def set_boot_entry_def
        s'_def s3_def m3_def table_entry_def [unfolded mult.commute [of _ 4096]] Let_def)
  moreover have "firmware s' = fw1" by (simp add: s'_def s3_def mark_used_def)
  ultimately show ?thesis using b40 b(2) fw1 by blast
qed

lemma boot_walk_absent:
  assumes src: "page_source E own room lim" and lim: "lim \<le> 8 * n" and wf: "boot_wf own bm n r s"
    and p: "valid_path p" "length p \<le> 2" "tab (load64 (boot_mem s)) r p = Some f" and i: "unat i < 512"
    and e: "\<not> bit (load64 (boot_mem s) (slot f (unat i))) 0" and left: "0 < room (firmware s)"
  shows "\<exists>g s'. walk_and_crate_next_table E bm (of_nat (4096 * f)) i s = Inr (of_nat (4096 * g), s') \<and> boot_wf own bm n r s' \<and>
    grown r (load64 (boot_mem s)) (load64 (boot_mem s')) \<and> room (firmware s) \<le> Suc (room (firmware s')) \<and>
    tab (load64 (boot_mem s')) r (p @ [unat i]) = Some g"
proof -
  let ?U = "own (firmware s) - bitmap_frames bm n" and ?m = "load64 (boot_mem s)"
  have ok: "tables_ok ?m r ?U" "bitmap_frames bm n \<subseteq> own (firmware s)" using wf by (simp_all add: boot_wf_def)
  have f: "f \<in> ?U" "f < 2 ^ 40" "?m (slot f (unat i)) = 0" using ok(1) p i e unfolding tables_ok_def by blast+
  from boot_link [OF src lim ok(2) f(1,2) i f(3) left] obtain b s' where
    walk: "walk_and_crate_next_table E bm (of_nat (4096 * f)) i s = Inr (of_nat (4096 * b), s')"
    and b: "b < 2 ^ 40" "b \<notin> own (firmware s)" and fw: "own (firmware s') = insert b (own (firmware s))" "room (firmware s) = Suc (room (firmware s'))"
    and w: "\<forall>g j. g \<in> ?U \<longrightarrow> g < 2 ^ 40 \<longrightarrow> j < 512 \<longrightarrow> load64 (boot_mem s') (slot g j) =
       (if g = f \<and> j = unat i then table_entry b else ?m (slot g j))"
    and zero: "\<forall>j<512. load64 (boot_mem s') (slot b j) = 0" by blast
  have agree: "agree ?m (load64 (boot_mem s')) r p (unat i)"
  proof (rule agree_slots [OF ok(1) p(1,3)])
    fix g j assume g: "g \<in> ?U" "g < 2 ^ 40" "j < 512" "\<not> (g = f \<and> j = unat i)"
    show "load64 (boot_mem s') (slot g j) = ?m (slot g j)" using w [rule_format, OF g(1-3)] unfolding if_not_P [OF g(4)] .
  qed
  have l: "load64 (boot_mem s') (slot f (unat i)) = table_entry b" "link (table_entry b) = Some b"
    using w [rule_format, OF f(1,2) i] link_table_entry [OF b(1)] by simp_all
  have bU: "b \<notin> ?U" "b \<notin> bitmap_frames bm n" using b(2) ok(2) by auto
  note new = create_table [OF ok(1) p i agree f(3) _ bU(1) b(1) zero [rule_format], unfolded l(1), OF l(2)]
  have "insert b ?U = own (firmware s') - bitmap_frames bm n" using fw(1) bU(2) by auto
  then have "boot_wf own bm n r s'" using new ok(2) fw(1) by (auto simp: boot_wf_def)
  moreover have "grown r ?m (load64 (boot_mem s'))" by (rule grown_link [OF p f(3) new l(2)])
  moreover have "tab (load64 (boot_mem s')) r (p @ [unat i]) = Some b" using new p i by (simp add: valid_path_snoc)
  ultimately show ?thesis using walk fw(2) by auto
qed

lemma boot_walk_law:
  assumes src: "page_source E own room lim" and lim: "lim \<le> 8 * n" and wf: "boot_wf own bm n r s"
    and p: "valid_path p" "length p \<le> 2" "tab (load64 (boot_mem s)) r p = Some f" and i: "unat i < 512"
    and e: "\<not> huge (ent (load64 (boot_mem s)) r p (unat i))" and left: "0 < room (firmware s)"
  shows "\<exists>g s'. walk_and_crate_next_table E bm (of_nat (4096 * f)) i s = Inr (of_nat (4096 * g), s') \<and> boot_wf own bm n r s' \<and>
    grown r (load64 (boot_mem s)) (load64 (boot_mem s')) \<and> room (firmware s) \<le> Suc (room (firmware s')) \<and>
    tab (load64 (boot_mem s')) r (p @ [unat i]) = Some g"
proof (cases "bit (load64 (boot_mem s) (slot f (unat i))) 0")
  case True
  with e p(3) have l: "link (load64 (boot_mem s) (slot f (unat i))) = Some (frame_of (load64 (boot_mem s) (slot f (unat i))))"
    by (simp add: link_def huge_def ent_def)
  show ?thesis
    using boot_walk_present [OF l] wf grown_refl p(3) l by (intro exI conjI) (assumption, simp_all add: tab_snoc)
next
  case False
  then show ?thesis by (rule boot_walk_absent [OF src lim wf p i _ left])
qed

text \<open>All three levels.\<close>

lemma boot_three_walks:
  assumes src: "page_source E own room lim" "lim \<le> 8 * n" and wf: "boot_wf own bm n r s"
    and e: "\<not> huge (ent (load64 (boot_mem s)) r (path2 v) (unat (PD_index v)))" and left: "3 \<le> room (firmware s)"
  shows "\<exists>d s1 c s2 f s3. walk_and_crate_next_table E bm (of_nat (4096 * r)) (PML4_index v) s = Inr (d, s1) \<and>
    walk_and_crate_next_table E bm d (PDPT_index v) s1 = Inr (c, s2) \<and>
    walk_and_crate_next_table E bm c (PD_index v) s2 = Inr (of_nat (4096 * f), s3) \<and> boot_wf own bm n r s3 \<and>
    grown r (load64 (boot_mem s)) (load64 (boot_mem s3)) \<and> room (firmware s) \<le> room (firmware s3) + 3 \<and>
    tab (load64 (boot_mem s3)) r (path3 v) = Some f"
proof -
  have nh: "\<not> huge (ent (load64 (boot_mem s)) r p i)" if "boot_wf own bm n r s" "valid_path p" "length p < 2" "i < 512" for p i and s :: "('a, 'b) boot_state_scheme"
    using that tables_not_huge unfolding boot_wf_def by blast
  from boot_walk_law [OF src wf paths_valid(1) _ _ indices_less(1) nh [OF wf], of r v] left obtain d s1 where
    1: "walk_and_crate_next_table E bm (of_nat (4096 * r)) (PML4_index v) s = Inr (of_nat (4096 * d), s1)" "boot_wf own bm n r s1"
      "grown r (load64 (boot_mem s)) (load64 (boot_mem s1))" "room (firmware s) \<le> Suc (room (firmware s1))"
      "tab (load64 (boot_mem s1)) r [unat (PML4_index v)] = Some d" by auto
  from boot_walk_law [OF src 1(2) paths_valid(2) _ 1(5) indices_less(2) nh [OF 1(2)], of v] left 1(4) obtain c s2 where
    2: "walk_and_crate_next_table E bm (of_nat (4096 * d)) (PDPT_index v) s1 = Inr (of_nat (4096 * c), s2)" "boot_wf own bm n r s2"
      "grown r (load64 (boot_mem s1)) (load64 (boot_mem s2))" "room (firmware s1) \<le> Suc (room (firmware s2))"
      "tab (load64 (boot_mem s2)) r (path2 v) = Some c" by (auto simp: path2_def)
  note g2 = grown_trans [OF 1(3) 2(3)]
  from boot_walk_law [OF src 2(2) paths_valid(3) _ 2(5) indices_less(3) grown_entry [OF g2 paths_valid(3) indices_less(3) e]] left 1(4) 2(4)
  obtain f s3 where
    3: "walk_and_crate_next_table E bm (of_nat (4096 * c)) (PD_index v) s2 = Inr (of_nat (4096 * f), s3)" "boot_wf own bm n r s3"
      "grown r (load64 (boot_mem s2)) (load64 (boot_mem s3))" "room (firmware s2) \<le> Suc (room (firmware s3))"
      "tab (load64 (boot_mem s3)) r (path3 v) = Some f" by auto
  from grown_trans [OF g2 3(3)] 1(1,4) 2(1,4) 3(1,2,4,5) show ?thesis
    by (intro exI conjI) (assumption | simp)+
qed

section \<open>Translation\<close>

text \<open>The kernel's view of the tables, which \<^verbatim>\<open>vmm_init\<close> reaches through the direct map.\<close>

definition kernel_view :: "u64 \<Rightarrow> ('f, 'a) boot_state_scheme \<Rightarrow> vmm_state" where
  "kernel_view pml4 s = \<lparr>bitmap = [], bitmap_size_bytes = 0, bitmap_size_frames = 0, memory_total_frame_count = 0,
     memory_used_frame_count = 0, phys_mem = load64 (boot_mem s), PML4 = pml4 + DIRECT_MAP_BASE\<rparr>"

lemma boot_translate:
  assumes "boot_wf own bm n r s"
  shows "hw_translate v (kernel_view (of_nat (4096 * r)) s) =
    leaf (ent (load64 (boot_mem s)) r (path2 v) (unat (PD_index v))) (ent (load64 (boot_mem s)) r (path3 v) (unat (PT_index v)))"
proof -
  have ok: "tables_ok (load64 (boot_mem s)) r (own (firmware s) - bitmap_frames bm n)" using assms by (simp add: boot_wf_def)
  have "tab (load64 (boot_mem s)) r [] = Some r" by simp
  then have "r < 2 ^ 40" using ok unfolding tables_ok_def by (metis paths_valid(1))
  then have "unat (of_nat (4096 * r) :: u64) = 4096 * r" by (intro unat_of_nat_small) simp
  then have r: "root_frame (kernel_view (of_nat (4096 * r)) s) = r" by (simp only: root_frame_def kernel_view_def vmm_state.simps) simp
  have "PML4 (kernel_view (of_nat (4096 * r)) s) = table_ptr r" by (simp add: kernel_view_def table_ptr_def)
  moreover have "phys_mem (kernel_view (of_nat (4096 * r)) s) = load64 (boot_mem s)" by (simp add: kernel_view_def)
  ultimately show ?thesis
    using hw_translate_tables [of "kernel_view (of_nat (4096 * r)) s"] ok unfolding r by simp
qed

lemma grown_leaf:
  assumes "grown r m m'"
  shows "leaf (ent m' r (path2 v) (unat (PD_index v))) (ent m' r (path3 v) (unat (PT_index v))) =
    leaf (ent m r (path2 v) (unat (PD_index v))) (ent m r (path3 v) (unat (PT_index v)))"
    and "ent m' r (path3 v) (unat (PT_index v)) = ent m r (path3 v) (unat (PT_index v))"
proof -
  have c: "ent m' r p i = ent m r p i \<or> length p \<le> 2 \<and> ent m r p i = 0 \<and> link (ent m' r p i) \<noteq> None"
    if "valid_path p" "i < 512" for p i using assms that unfolding grown_def by blast
  show 1: "ent m' r (path3 v) (unat (PT_index v)) = ent m r (path3 v) (unat (PT_index v))"
    using c [OF paths_valid(4) indices_less(4)] by auto
  show "leaf (ent m' r (path2 v) (unat (PD_index v))) (ent m' r (path3 v) (unat (PT_index v))) =
    leaf (ent m r (path2 v) (unat (PD_index v))) (ent m r (path3 v) (unat (PT_index v)))"
    unfolding 1 using c [OF paths_valid(3) [of v] indices_less(3) [of v]] by (auto simp: leaf_def huge_def link_def split: if_splits)
qed

lemma tables_absent: "tables_ok m r U \<Longrightarrow> valid_path p \<Longrightarrow> i < 512 \<Longrightarrow> bit (ent m r p i) 0 \<or> ent m r p i = 0"
  unfolding tables_ok_def ent_def by (auto split: option.split)

text \<open>Writing the entry of a page.\<close>

lemma boot_write_page:
  assumes wf: "boot_wf own bm n r s" and f: "tab (load64 (boot_mem s)) r (path3 v) = Some f"
    and nh: "\<not> huge (ent (load64 (boot_mem s)) r (path2 v) (unat (PD_index v)))" and e: "bit e 0"
    and s': "s' = set_boot_entry (of_nat (4096 * f)) (PT_index v) e s"
  shows "boot_wf own bm n r s' \<and> (\<forall>u. hw_translate u (kernel_view (of_nat (4096 * r)) s') =
    (if vpage u = vpage v then Some e else hw_translate u (kernel_view (of_nat (4096 * r)) s)))"
proof -
  let ?m = "load64 (boot_mem s)" and ?m' = "load64 (boot_mem s')"
  have ok: "tables_ok ?m r (own (firmware s) - bitmap_frames bm n)" using wf by (simp add: boot_wf_def)
  have f40: "f < 2 ^ 40" using ok f unfolding tables_ok_def by (metis paths_valid(4))
  have w: "?m' (slot g j) = (if g = f \<and> j = unat (PT_index v) then e else ?m (slot g j))" if "g < 2 ^ 40" "j < 512" for g j
    unfolding s' set_boot_entry_def boot_table_entry using load64_store_slot [OF f40 that(1) indices_less(4) that(2)] by simp
  have "agree ?m ?m' r (path3 v) (unat (PT_index v))"
    by (rule agree_slots [OF ok paths_valid(4) f]) (use w in auto)
  from write_leaf [OF ok paths_valid(4) f indices_less(4) this order_refl] e w [OF f40 indices_less(4)] have
    n: "tables_ok ?m' r (own (firmware s) - bitmap_frames bm n)"
       "\<And>p i. valid_path p \<Longrightarrow> i < 512 \<Longrightarrow> (p, i) \<noteq> (path3 v, unat (PT_index v)) \<Longrightarrow> ent ?m' r p i = ent ?m r p i"
       "ent ?m' r (path3 v) (unat (PT_index v)) = e" by auto
  have wf': "boot_wf own bm n r s'" using wf n(1) by (simp add: boot_wf_def s' set_boot_entry_def)
  have 2: "ent ?m' r (path2 u) (unat (PD_index u)) = ent ?m r (path2 u) (unat (PD_index u))" for u
    by (rule n(2)) (simp_all, simp add: path2_def path3_def)
  have "hw_translate u (kernel_view (of_nat (4096 * r)) s') = (if vpage u = vpage v then Some e else hw_translate u (kernel_view (of_nat (4096 * r)) s))" for u
  proof (cases "vpage u = vpage v")
    case True
    then have "path2 u = path2 v" "PD_index u = PD_index v" "path3 u = path3 v" "PT_index u = PT_index v" using same_page_path2 by blast+
    then show ?thesis unfolding boot_translate [OF wf'] 2 using True n(3) nh e by (simp add: leaf_def)
  next
    case False
    then have "(path3 u, unat (PT_index u)) \<noteq> (path3 v, unat (PT_index v))" using same_page_iff [of u v] by auto
    then have "ent ?m' r (path3 u) (unat (PT_index u)) = ent ?m r (path3 u) (unat (PT_index u))" by (intro n(2)) auto
    then show ?thesis unfolding boot_translate [OF wf'] boot_translate [OF wf] 2 using False by simp
  qed
  then show ?thesis using wf' by blast
qed

lemma boot_map_law:
  assumes src: "page_source E own room lim" "lim \<le> 8 * n" and wf: "boot_wf own bm n r s"
    and nh: "\<not> huge (ent (load64 (boot_mem s)) r (path2 v) (unat (PD_index v)))" and left: "3 \<le> room (firmware s)"
    and flags: "flags AND 0x10 = 0"
  shows "\<exists>s'. map_vaddr_to_paddr E bm (of_nat (4096 * r)) v p flags s = Inr s' \<and> boot_wf own bm n r s' \<and> room (firmware s) \<le> room (firmware s') + 3 \<and>
    (\<forall>u. hw_translate u (kernel_view (of_nat (4096 * r)) s') =
      (if vpage u = vpage v then Some (page_entry flags p (ent (load64 (boot_mem s)) r (path3 v) (unat (PT_index v))))
       else hw_translate u (kernel_view (of_nat (4096 * r)) s)))"
proof -
  from boot_three_walks [OF src wf nh left] obtain d s1 c s2 f s3 where
    w: "walk_and_crate_next_table E bm (of_nat (4096 * r)) (PML4_index v) s = Inr (d, s1)"
       "walk_and_crate_next_table E bm d (PDPT_index v) s1 = Inr (c, s2)"
       "walk_and_crate_next_table E bm c (PD_index v) s2 = Inr (of_nat (4096 * f), s3)"
    and s3: "boot_wf own bm n r s3" "grown r (load64 (boot_mem s)) (load64 (boot_mem s3))" "room (firmware s) \<le> room (firmware s3) + 3"
       "tab (load64 (boot_mem s3)) r (path3 v) = Some f" by blast
  let ?e = "ent (load64 (boot_mem s)) r (path3 v) (unat (PT_index v))"
  have e: "boot_entry (of_nat (4096 * f)) (PT_index v) s3 = ?e"
    unfolding boot_entry_def boot_table_entry using grown_leaf(2) [OF s3(2), of v] s3(4) by (simp add: ent_def)
  define s' where "s' = set_boot_entry (of_nat (4096 * f)) (PT_index v) (page_entry flags p ?e) s3"
  have "map_vaddr_to_paddr E bm (of_nat (4096 * r)) v p flags s = Inr s'"
    using flags w(2,3) e by (simp add: map_vaddr_to_paddr_def w(1) [unfolded of_nat_mult of_nat_numeral] s'_def)
  moreover have "room (firmware s) \<le> room (firmware s') + 3" using s3(3) by (simp add: s'_def set_boot_entry_def)
  moreover note boot_write_page [OF s3(1,4) grown_entry [OF s3(2) paths_valid(3) indices_less(3) nh] page_entry_present s'_def]
  moreover have "hw_translate u (kernel_view (of_nat (4096 * r)) s3) = hw_translate u (kernel_view (of_nat (4096 * r)) s)" for u
    unfolding boot_translate [OF s3(1)] boot_translate [OF wf] by (rule grown_leaf(1) [OF s3(2)])
  ultimately show ?thesis by auto
qed

text \<open>A page that the firmware hands out for other uses leaves the tables alone.\<close>

lemma tables_same:
  assumes ok: "tables_ok m r U" and U: "U \<subseteq> U'"
    and m': "\<And>f i. f \<in> U \<Longrightarrow> f < 2 ^ 40 \<Longrightarrow> i < 512 \<Longrightarrow> m' (slot f i) = m (slot f i)"
  shows "tables_ok m' r U' \<and> (\<forall>p i. valid_path p \<longrightarrow> i < 512 \<longrightarrow> ent m' r p i = ent m r p i)"
proof -
  have s: "m' (slot f i) = m (slot f i)" if "valid_path p" "tab m r p = Some f" "i < 512" for p f i
    using m' ok that unfolding tables_ok_def by blast
  then have "agree m m' r [0, 0, 0, 0] 0" by (auto simp: agree_def)
  then have t: "tab m' r p = tab m r p" if "valid_path p" for p
    using tab_agree [of m m' r "[0, 0, 0, 0]" 0 p] that by (force simp: valid_path_def)
  have "ent m' r p i = ent m r p i" if "valid_path p" "i < 512" for p i
    using t [OF that(1)] s [OF that(1) _ that(2)] by (simp add: ent_def split: option.split)
  moreover have "f \<in> U' \<and> f < 2 ^ 40 \<and> (\<forall>i<512. (\<not> bit (m' (slot f i)) 0 \<longrightarrow> m' (slot f i) = 0) \<and>
      (length p < 2 \<longrightarrow> bit (m' (slot f i)) 0 \<longrightarrow> \<not> bit (m' (slot f i)) 7))" if "valid_path p" "tab m' r p = Some f" for p f
    using ok that t [OF that(1)] s [OF that(1)] U unfolding tables_ok_def by (auto; metis)
  moreover have "p = q" if "valid_path p" "valid_path q" "tab m' r p = Some f" "tab m' r q = Some f" for p q f
    using ok that t unfolding tables_ok_def by metis
  ultimately show ?thesis unfolding tables_ok_def by blast
qed

lemma boot_allocate:
  assumes "page_source E own room lim" and wf: "boot_wf own bm n r s" and "0 < room (firmware s)"
  shows "\<exists>b s'. call_service (AllocatePages E 1) msg s = Inr (of_nat (4096 * b), s') \<and> boot_wf own bm n r s' \<and> b < lim \<and>
    room (firmware s) = Suc (room (firmware s')) \<and>
    (\<forall>u. hw_translate u (kernel_view (of_nat (4096 * r)) s') = hw_translate u (kernel_view (of_nat (4096 * r)) s))"
proof -
  from allocate_page [OF assms(1,3), of msg] obtain b m' fw' where
    a: "call_service (AllocatePages E 1) msg s = Inr (of_nat (4096 * b), s\<lparr>boot_mem := m', firmware := fw'\<rparr>)" "b < lim"
      "own fw' = insert b (own (firmware s))" "room (firmware s) = Suc (room fw')" "\<forall>f\<in>own (firmware s). same_frame f (boot_mem s) m'" by blast
  let ?s = "s\<lparr>boot_mem := m', firmware := fw'\<rparr>"
  have ok: "tables_ok (load64 (boot_mem s)) r (own (firmware s) - bitmap_frames bm n)" using wf by (simp add: boot_wf_def)
  have "tables_ok (load64 m') r (own fw' - bitmap_frames bm n) \<and>
      (\<forall>p i. valid_path p \<longrightarrow> i < 512 \<longrightarrow> ent (load64 m') r p i = ent (load64 (boot_mem s)) r p i)"
    by (rule tables_same [OF ok]) (use a(3,5) load64_same_frame in auto)
  then have "boot_wf own bm n r ?s" and e: "\<And>p i. valid_path p \<Longrightarrow> i < 512 \<Longrightarrow> ent (load64 (boot_mem ?s)) r p i = ent (load64 (boot_mem s)) r p i"
    using wf a(3) by (auto simp: boot_wf_def)
  moreover have "hw_translate u (kernel_view (of_nat (4096 * r)) ?s) = hw_translate u (kernel_view (of_nat (4096 * r)) s)" for u
    unfolding boot_translate [OF calculation(1)] boot_translate [OF wf] by (simp only: e paths_valid indices_less)
  ultimately show ?thesis using a(1,2,4) by (intro exI [of _ b] exI [of _ ?s]) simp
qed

lemma page_entry_again: "page_entry flags p (page_entry flags q e) = page_entry flags p e"
  by (rule bit_eqI) (auto simp: page_entry_def set_common_flags_def bit_bf_set)

text \<open>The entry below the walk, for a page that is not mapped or mapped by an entry of the same flags.\<close>

lemma boot_entry_cases:
  assumes wf: "boot_wf own bm n r s"
    and t: "hw_translate v (kernel_view (of_nat (4096 * r)) s) = None \<or> hw_translate v (kernel_view (of_nat (4096 * r)) s) = Some (page_entry flags q 0)"
  shows "\<not> huge (ent (load64 (boot_mem s)) r (path2 v) (unat (PD_index v)))"
    and "page_entry flags p (ent (load64 (boot_mem s)) r (path3 v) (unat (PT_index v))) = page_entry flags p 0"
proof -
  let ?e2 = "ent (load64 (boot_mem s)) r (path2 v) (unat (PD_index v))" and ?e = "ent (load64 (boot_mem s)) r (path3 v) (unat (PT_index v))"
  have l: "leaf ?e2 ?e = None \<or> leaf ?e2 ?e = Some (page_entry flags q 0)" using t unfolding boot_translate [OF wf] .
  show nh: "\<not> huge ?e2" using l by (auto simp: leaf_def huge_def split: if_splits)
  have "bit ?e 0 \<or> ?e = 0" using wf tables_absent [OF _ paths_valid(4) indices_less(4)] unfolding boot_wf_def by blast
  then show "page_entry flags p ?e = page_entry flags p 0"
    using l nh by (auto simp: leaf_def page_entry_again split: if_splits)
qed

lemma map_stack_law:
  assumes src: "page_source E own room lim" "lim \<le> 8 * n" and wf: "boot_wf own bm n r s" and left: "4 * k \<le> room (firmware s)"
    and t: "hw_translate (KERNEL_STACK_BASE - 1) (kernel_view (of_nat (4096 * r)) s) = None \<or>
      (\<exists>q. hw_translate (KERNEL_STACK_BASE - 1) (kernel_view (of_nat (4096 * r)) s) = Some (page_entry (PT_GLOBAL OR PT_WRITEABLE) q 0))"
  shows "\<exists>s'. map_stack k E bm (of_nat (4096 * r)) s = Inr s' \<and> boot_wf own bm n r s' \<and>
    (0 < k \<longrightarrow> (\<exists>q. hw_translate (KERNEL_STACK_BASE - 1) (kernel_view (of_nat (4096 * r)) s') = Some (page_entry (PT_GLOBAL OR PT_WRITEABLE) q 0))) \<and>
    (\<forall>u. vpage u \<noteq> vpage (KERNEL_STACK_BASE - 1) \<longrightarrow>
       hw_translate u (kernel_view (of_nat (4096 * r)) s') = hw_translate u (kernel_view (of_nat (4096 * r)) s))"
  using wf left t
proof (induction k arbitrary: s)
  case (Suc k)
  let ?v = "KERNEL_STACK_BASE - 1" and ?f = "PT_GLOBAL OR PT_WRITEABLE" and ?t = "\<lambda>u s. hw_translate u (kernel_view (of_nat (4096 * r)) s)"
  have "0 < room (firmware s)" using Suc.prems(2) by simp
  from boot_allocate [OF src(1) Suc.prems(1) this, of "''Cannot allocate page for kernel's stack!''"] obtain b s1 where
    1: "call_service (AllocatePages E 1) ''Cannot allocate page for kernel's stack!'' s = Inr (of_nat (4096 * b), s1)" "boot_wf own bm n r s1"
      "room (firmware s) = Suc (room (firmware s1))" "\<forall>u. ?t u s1 = ?t u s" by blast
  obtain q where "?t ?v s1 = None \<or> ?t ?v s1 = Some (page_entry ?f q 0)" using Suc.prems(3) 1(4) by auto
  note c = boot_entry_cases [OF 1(2) this]
  have flags: "?f AND 0x10 = 0" by (simp add: PT_GLOBAL_def PT_WRITEABLE_def)
  have "3 \<le> room (firmware s1)" using Suc.prems(2) 1(3) by simp
  from boot_map_law [OF src 1(2) c(1) this flags, of "of_nat (4096 * b)"] obtain s2 where
    2: "map_vaddr_to_paddr E bm (of_nat (4096 * r)) ?v (of_nat (4096 * b)) ?f s1 = Inr s2" "boot_wf own bm n r s2"
      "room (firmware s1) \<le> room (firmware s2) + 3"
      "\<forall>u. ?t u s2 = (if vpage u = vpage ?v then Some (page_entry ?f (of_nat (4096 * b)) 0) else ?t u s1)" unfolding c(2) by blast
  have "4 * k \<le> room (firmware s2)" using Suc.prems(2) 1(3) 2(3) by simp
  moreover have m: "?t ?v s2 = Some (page_entry ?f (of_nat (4096 * b)) 0)" using 2(4) by simp
  ultimately obtain s3 where
    3: "map_stack k E bm (of_nat (4096 * r)) s2 = Inr s3" "boot_wf own bm n r s3"
      "0 < k \<longrightarrow> (\<exists>q. ?t ?v s3 = Some (page_entry ?f q 0))" "\<forall>u. vpage u \<noteq> vpage ?v \<longrightarrow> ?t u s3 = ?t u s2"
    using Suc.IH [OF 2(2)] by blast
  have "map_stack (Suc k) E bm (of_nat (4096 * r)) s = Inr s3" using 1(1) 2(1) 3(1) by simp
  moreover have "\<exists>q. ?t ?v s3 = Some (page_entry ?f q 0)" using 3(1,3) m by (cases k) auto
  moreover have "?t u s3 = ?t u s" if "vpage u \<noteq> vpage ?v" for u using 3(4) 2(4) 1(4) that by simp
  ultimately show ?case using 3(2) by blast
qed simp

section \<open>Properties\<close>

text \<open>A firmware that hands out the frames from 3 to 199 in order, the bitmap in frame 1, an empty top-level table in frame 2.\<close>

definition firmware_small :: "nat efi_services" where
  "firmware_small = \<lparr>AllocatePages = (\<lambda>_ m fw. (0, of_nat (4096 * fw), m, Suc fw)), AllocatePool = (\<lambda>_ m fw. (1, 0, m, fw)),
     GetMemoryMap = (\<lambda>_ _ m fw. (1, 0, 0, 0, m, fw)), HandleProtocol = (\<lambda>_ _ m fw. (1, 0, m, fw)),
     LocateProtocol = (\<lambda>_ m fw. (1, 0, m, fw)), OpenVolume = (\<lambda>_ m fw. (1, 0, m, fw)), OpenFile = (\<lambda>_ _ _ _ m fw. (1, 0, m, fw)),
     ReadFile = (\<lambda>_ _ _ m fw. (1, 0, m, fw)), GetInfo = (\<lambda>_ _ _ _ m fw. (1, 0, m, fw)), ExitBootServices = (\<lambda>_ _ m fw. (1, 0, m, fw)),
     CopyMem = (\<lambda>_ _ _ m. m), SetMem = (\<lambda>buf len v m a. if a - buf < len then v else m a)\<rparr>"

definition boot_small :: "nat boot_state" where
  "boot_small = \<lparr>boot_mem = (\<lambda>_. 0), BootInfo = \<lparr>framebuffer_base = 0, framebuffer_size = 0, horizontal_resolution = 0,
     vertical_resolution = 0, pixels_per_scan_line = 0, memory_bitmap_address = 0x1000, memory_bitmap_size = 25,
     memory_bitmap_frame_count = 0, memory_physical_total_frames = 200, memory_physical_used_frames = 3, bridge_location = 0,
     bridge_size = 0, bi_PML4 = 0x2000\<rparr>, conout = [], firmware = 3\<rparr>"

lemma page_bytes:
  assumes "b < 2 ^ 40"
  shows "a - of_nat (4096 * b) < (4096 :: u64) \<longleftrightarrow> unat a div 4096 = b"
proof -
  let ?c = "of_nat (4096 * b) :: u64"
  have c: "unat ?c = 4096 * b" using assms by (intro unat_of_nat_small) simp
  show ?thesis
  proof
    assume "a - ?c < 4096"
    then have d: "unat (a - ?c) < 4096" by (simp add: word_less_nat_alt)
    then have "unat (?c + (a - ?c)) = 4096 * b + unat (a - ?c)" using c assms by (subst unat_add_small) simp_all
    then have "unat a = 4096 * b + unat (a - ?c)" by simp
    then show "unat a div 4096 = b" using d by (metis add.commute div_less div_mult_self2 add_0_right zero_neq_numeral)
  next
    assume b: "unat a div 4096 = b"
    then have "unat a = 4096 * b + unat a mod 4096" by (metis mult_div_mod_eq)
    moreover from this have "unat (a - ?c) = unat a - 4096 * b" using c by (subst unat_sub) (simp_all add: word_le_nat_alt)
    ultimately show "a - ?c < 4096" by (simp add: word_less_nat_alt)
  qed
qed

lemma firmware_small_source: "page_source firmware_small (\<lambda>fw. {..<fw}) (\<lambda>fw. 200 - fw) 200"
proof -
  have "SetMem firmware_small (of_nat (4096 * b)) 4096 0 m = (\<lambda>a. if unat a div 4096 = b then 0 else m a)" if "b < 200" for b m
    using page_bytes [of b] that by (simp add: firmware_small_def fun_eq_iff)
  moreover have "AllocatePages firmware_small 1 m fw = (0, of_nat (4096 * fw), m, Suc fw)" for m fw by (simp add: firmware_small_def)
  ultimately show ?thesis unfolding page_source_def by (auto simp: same_frame_def)
qed

lemma boot_small_wf: "boot_wf (\<lambda>fw. {..<fw}) 0x1000 25 2 boot_small"
proof -
  have "unat (0x1000 + of_nat x :: u64) div 4096 = 1" if "x < 25" for x
  proof -
    have "unat (of_nat x :: u64) = x" using that by (intro unat_of_nat_small) simp
    then have "unat (0x1000 + of_nat x :: u64) = 4096 + x" using that by (subst unat_add_small) simp_all
    then show ?thesis using that by simp
  qed
  then have "bitmap_frames 0x1000 25 = (\<lambda>_. 1) ` {..<25 :: nat}" unfolding bitmap_frames_def by (intro image_cong) simp_all
  then have f: "bitmap_frames 0x1000 25 = {1}" by (simp add: image_constant [of 0])
  have "load64 (\<lambda>_. 0) = (\<lambda>_. 0)" by (simp add: load64_def fun_eq_iff)
  then show ?thesis unfolding boot_wf_def f by (simp add: boot_small_def tables_ok_def tab_zero)
qed

lemma boot_small_empty: "hw_translate v (kernel_view 0x2000 boot_small) = None"
proof -
  have "load64 (\<lambda>_. 0) = (\<lambda>_. 0)" by (simp add: load64_def fun_eq_iff)
  then show ?thesis by (simp add: hw_translate_def hw_entry_def mem_rd_def kernel_view_def boot_small_def pte_bits)
qed

text \<open>C10: When the firmware has three pages left, the boot loader's \<^verbatim>\<open>map_vaddr_to_paddr\<close> for an unmapped page of 4 KiB
  keeps the tables well formed and makes the processor's walk, started from the same tables by the kernel,
  translate that page to the requested frame; every other page translates as before.\<close>

theorem boot_map_translates:
  assumes "page_source E own room lim" and "lim \<le> 8 * n" and "boot_wf own bm n r s"
    and "hw_translate v (kernel_view (of_nat (4096 * r)) s) = None" and "3 \<le> room (firmware s)" and "flags AND 0x10 = 0"
  shows "\<exists>s'. map_vaddr_to_paddr E bm (of_nat (4096 * r)) v p flags s = Inr s' \<and> boot_wf own bm n r s' \<and>
    (\<forall>u. hw_translate u (kernel_view (of_nat (4096 * r)) s') =
      (if vpage u = vpage v then Some (page_entry flags p 0) else hw_translate u (kernel_view (of_nat (4096 * r)) s)))"
proof -
  have "hw_translate v (kernel_view (of_nat (4096 * r)) s) = None \<or>
      hw_translate v (kernel_view (of_nat (4096 * r)) s) = Some (page_entry flags 0 0)" using assms(4) by simp
  note c = boot_entry_cases [OF assms(3) this]
  from boot_map_law [OF assms(1-3) c(1) assms(5,6), of p] show ?thesis unfolding c(2) by blast
qed

theorem boot_map_translates_witness:
  "\<exists>s'. map_vaddr_to_paddr firmware_small 0x1000 0x2000 0xFFFFFFFF80000000 0x64000 0x21 boot_small = Inr s' \<and>
     hw_translate 0xFFFFFFFF80000000 (kernel_view 0x2000 s') = Some (page_entry 0x21 0x64000 0)"
proof -
  have "3 \<le> 200 - firmware boot_small" by (simp add: boot_small_def)
  then show ?thesis
    using boot_map_translates [OF firmware_small_source _ boot_small_wf, of "0xFFFFFFFF80000000" "0x21" "0x64000"]
    by (auto simp: boot_small_empty)
qed



end
