(* ===== verification/Handover.thy ===== *)
theory Handover
  imports Boot_Props
begin

text \<open>
  The boot loader and the kernel's physical memory manager together: the bitmap that one builds is the one the other
  allocates from. The kernel reads it through the direct map, in whole pages.
\<close>

section \<open>The bitmap on both sides\<close>

definition direct_map_bytes :: "memory \<Rightarrow> nat \<Rightarrow> u64 \<Rightarrow> u8 list" where
  "direct_map_bytes m len v = map (\<lambda>i. m (v - DIRECT_MAP_BASE + of_nat i)) [0..<len]"

lemma handover_bits:
  assumes "f < 8 * n" and "n \<le> len" and "8 * n \<le> 2 ^ 64"
  shows "f \<in> bitmap_members (direct_map_bytes m len (bm + DIRECT_MAP_BASE)) \<longleftrightarrow> f \<in> frame_bits bm n m"
proof -
  have "f div 8 < len" using assms(1,2) by (simp add: less_mult_imp_div_less mult.commute)
  then show ?thesis using assms by (auto simp: bitmap_members_def frame_bits_def direct_map_bytes_def)
qed

lemma mark_used_bits:
  assumes "\<forall>k\<in>set marks. unat k < min (8 * n) (2 ^ 64)"
  shows "frame_bits bm n (boot_mem (fold (mark_used bm) marks s)) = frame_bits bm n (boot_mem s) \<union> unat ` set marks"
  using assms
proof (induction marks arbitrary: s)
  case (Cons k marks)
  then have "frame_bits bm n (boot_mem (mark_used bm k s)) = insert (unat k) (frame_bits bm n (boot_mem s))"
    by (simp add: mark_used_def efi_set_frame_bits)
  with Cons show ?case by simp
qed simp

lemma bitmap_size_small: "8 * unat (bitmap_size_of a) \<le> 2 ^ 53"
proof -
  have "unat ((a + 4095) div 4096) \<le> unat (a + 4095) div 4096" by (simp add: unat_div)
  also have "\<dots> < 2 ^ 52" using unat_less_2p64 [of "a + 4095"] by (simp add: div_less_iff_less_mult del: unat_less_2p64)
  finally have q: "unat ((a + 4095) div 4096) < 2 ^ 52" .
  then have "unat ((a + 4095) div 4096 + 7) = unat ((a + 4095) div 4096) + 7" by (subst unat_add_small) simp_all
  then have "unat (bitmap_size_of a) = (unat ((a + 4095) div 4096) + 7) div 8" by (simp add: bitmap_size_of_def unat_div)
  moreover have "(unat ((a + 4095) div 4096) + 7) div 8 * 8 \<le> unat ((a + 4095) div 4096) + 7" by (rule div_times_less_eq_dividend)
  ultimately show ?thesis using q by simp
qed

lemma handover_free:
  assumes "frame_bits bm n m' = {..<8 * n} - U" and "f < 8 * n" and "n \<le> len" and "8 * n \<le> 2 ^ 64"
    and "\<forall>k\<in>set marks. unat k < 8 * n"
    and "f \<notin> bitmap_members (direct_map_bytes (boot_mem (fold (mark_used bm) marks (s\<lparr>boot_mem := m'\<rparr>))) len (bm + DIRECT_MAP_BASE))"
  shows "f \<in> U - unat ` set marks"
proof -
  have "f \<notin> frame_bits bm n m' \<union> unat ` set marks"
    using assms(6) unfolding handover_bits [OF assms(2-4)] using mark_used_bits [of marks n bm "s\<lparr>boot_mem := m'\<rparr>"] assms(5) by simp
  then show ?thesis using assms(1,2) by auto
qed

lemma pmm_init_fields:
  "used_frames (pmm_init mem_at bi s) = bitmap_members (mem_at (memory_bitmap_address bi + DIRECT_MAP_BASE))"
  "bitmap_size_frames (pmm_init mem_at bi s) = memory_physical_total_frames bi"
  by (simp_all add: pmm_init_def used_frames_def)

lemma alloc_all_free:
  assumes "pmm_ok s" and "\<forall>(c, a)\<in>set rs. c \<noteq> 0"
  shows "\<exists>ps s'. alloc_all pmm_allocate_frames rs s = Inr (ps, s') \<and>
    (\<forall>i<length rs. \<forall>f\<in>granted (ps ! i) (fst (rs ! i)). f \<notin> used_frames s \<and> f < unat (bitmap_size_frames s))"
proof -
  from pmm_alloc.alloc_all_law [OF assms] obtain ps s' where
    ps: "alloc_all pmm_allocate_frames rs s = Inr (ps, s')"
      "\<forall>i<length rs. granted (ps ! i) (fst (rs ! i)) \<inter> used_frames s = {} \<and>
         granted (ps ! i) (fst (rs ! i)) \<subseteq> {1..<unat (bitmap_size_frames s)} \<and>
         (\<forall>j<i. granted (ps ! i) (fst (rs ! i)) \<inter> granted (ps ! j) (fst (rs ! j)) = {})" by auto
  have "f \<notin> used_frames s \<and> f < unat (bitmap_size_frames s)" if "i < length rs" "f \<in> granted (ps ! i) (fst (rs ! i))" for i f
    using ps(2) [rule_format, OF that(1)] that(2) by auto
  then show ?thesis using ps(1) by blast
qed

section \<open>Properties\<close>


definition boot_info_272 :: boot_info where
  "boot_info_272 = \<lparr>framebuffer_base = 0, framebuffer_size = 0, horizontal_resolution = 0, vertical_resolution = 0,
     pixels_per_scan_line = 0, memory_bitmap_address = 0x8000, memory_bitmap_size = 34, memory_bitmap_frame_count = 0,
     memory_physical_total_frames = 272, memory_physical_used_frames = 1, bridge_location = 0, bridge_size = 0, bi_PML4 = 0\<rparr>"

definition boot_state_272 :: "unit boot_state" where
  "boot_state_272 = \<lparr>boot_mem = map_small, BootInfo = boot_info_272, conout = [], firmware = ()\<rparr>"

lemma map_small_above: "0x8000 \<le> a \<Longrightarrow> map_small a = 255"
proof -
  assume a: "0x8000 \<le> a"
  then have "0x8000 \<le> unat a" by (simp add: word_le_nat_alt)
  moreover from this have "unat (a - 0x1008) = unat a - 0x1008" "unat (a - 0x1018) = unat a - 0x1018"
    by (simp_all add: unat_sub word_le_nat_alt)
  ultimately have "\<not> a - 0x1008 < 8" "\<not> a - 0x1018 < 8" by (simp_all add: word_less_nat_alt)
  with a show ?thesis by (auto simp: map_small_def store64_def store32_def)
qed

lemma map_small_bits: "frame_bits 0x8000 34 map_small = {..<272}"
proof -
  have "map_small (0x8000 + of_nat (f div 8)) = 255" if "f < 272" for f
  proof (rule map_small_above)
    have "f div 8 < 34" using that by simp
    then have u: "unat (of_nat (f div 8) :: u64) = f div 8" by (intro unat_of_nat_small) simp
    then have "unat (0x8000 + of_nat (f div 8) :: u64) = 0x8000 + f div 8" using \<open>f div 8 < 34\<close> by (subst unat_add_small) simp_all
    then show "(0x8000 :: u64) \<le> 0x8000 + of_nat (f div 8)" by (simp add: word_le_nat_alt)
  qed
  moreover have "bit (255 :: u8) (f mod 8)" for f
  proof -
    have "(255 :: u8) = mask 8" by (simp add: mask_eq_exp_minus_1)
    show ?thesis unfolding \<open>(255 :: u8) = mask 8\<close> bit_mask_iff by simp
  qed
  ultimately show ?thesis by (auto simp: frame_bits_def)
qed


end
