(* ===== verification/Pci_Props.thy ===== *)
theory Pci_Props
  imports Pci
begin

text \<open>
  The tables of the PCI bus stay in their bounds and consistent: an invariant of the array of devices and of the registry
  of drivers, which the enumeration keeps. The drivers' \<^verbatim>\<open>init\<close> functions are a parameter of the enumeration; they may
  fail in their own ways and may not touch the tables.
\<close>

section \<open>Invariant\<close>

text \<open>A slot in use holds a device that is present, and the driver it points to is registered and matches it.\<close>

definition slot_ok :: "pci_driver_registry_t \<Rightarrow> pci_device_slot_t \<Rightarrow> bool" where
  "slot_ok reg slot \<longleftrightarrow> vendor_id (slot_device slot) \<noteq> 0xFFFF \<and>
     (\<forall>d. slot_driver slot = Some d \<longrightarrow> d < driver_count reg \<and> driver_matches (drivers reg ! unat d) (slot_device slot))"

definition pci_wf :: "'a pci_state_scheme \<Rightarrow> bool" where
  "pci_wf p \<longleftrightarrow> length (pci_devices p) = 64 \<and> unat (pci_devices_count p) \<le> 64 \<and>
     length (drivers (pci_driver_registry p)) = 64 \<and> unat (driver_count (pci_driver_registry p)) \<le> 64 \<and>
     (\<forall>i<64. if i < unat (pci_devices_count p) then slot_ok (pci_driver_registry p) (pci_devices p ! i)
             else slot_driver (pci_devices p ! i) = None)"

lemma pci_wfI:
  assumes "length (pci_devices p) = 64" and "unat (pci_devices_count p) \<le> 64" and "length (drivers (pci_driver_registry p)) = 64"
    and "unat (driver_count (pci_driver_registry p)) \<le> 64"
    and "\<And>i. i < 64 \<Longrightarrow> if i < unat (pci_devices_count p) then slot_ok (pci_driver_registry p) (pci_devices p ! i)
             else slot_driver (pci_devices p ! i) = None"
  shows "pci_wf p"
  using assms unfolding pci_wf_def by blast

definition same_tables :: "'a pci_state_scheme \<Rightarrow> 'a pci_state_scheme \<Rightarrow> bool" where
  "same_tables p q \<longleftrightarrow> pci_devices q = pci_devices p \<and> pci_devices_count q = pci_devices_count p \<and>
     pci_driver_registry q = pci_driver_registry p \<and> pci_api q = pci_api p"

text \<open>A result satisfies \<open>P\<close>, or is one of the faults \<open>F\<close>.\<close>

definition outcome :: "fault set \<Rightarrow> ('a \<Rightarrow> bool) \<Rightarrow> 'a res \<Rightarrow> bool" where
  "outcome F P r \<longleftrightarrow> (case r of Inl e \<Rightarrow> e \<in> F | Inr x \<Rightarrow> P x)"

definition inits_keep :: "fault set \<Rightarrow> ('a, 'h) pci_inits \<Rightarrow> bool" where
  "inits_keep F inits \<longleftrightarrow> (\<forall>f i p h. outcome F (\<lambda>(q, _). same_tables p q) (inits f i p h))"

lemma outcome_bind:
  assumes "outcome F Q m" and "\<And>x. Q x \<Longrightarrow> outcome F P (f x)"
  shows "outcome F P (bindE m f)"
  using assms by (cases m) (auto simp: outcome_def)

lemma outcome_Inr [simp]: "outcome F P (Inr x) \<longleftrightarrow> P x"
  by (simp add: outcome_def)

lemma pci_wf_same: "same_tables p q \<Longrightarrow> pci_wf p \<Longrightarrow> pci_wf q"
  by (simp add: same_tables_def pci_wf_def)

section \<open>Binding\<close>

text \<open>While a device is bound: it is in the last slot in use.\<close>

definition last_device :: "pci_device_t \<Rightarrow> u64 \<Rightarrow> pci_driver_registry_t \<Rightarrow> 'a pci_state_scheme \<Rightarrow> bool" where
  "last_device dev n reg p \<longleftrightarrow> pci_wf p \<and> pci_api p = PciApiLegacy \<and> pci_devices_count p = n \<and> 0 < n \<and>
     pci_driver_registry p = reg \<and> slot_device (pci_devices p ! unat (n - 1)) = dev"

lemma last_device_index: "last_device dev n reg p \<Longrightarrow> unat (n - 1) = unat n - 1 \<and> unat n - 1 < 64 \<and> unat n \<le> 64"
proof -
  assume p: "last_device dev n reg p"
  then have n: "0 < n" "unat n \<le> 64" by (auto simp: last_device_def pci_wf_def)
  then have "unat (n - 1) = unat n - 1" by (simp add: unat_sub word_le_nat_alt unat_gt_0 Suc_leI word_neq_0_conv [symmetric])
  then show ?thesis using n(2) by auto
qed

lemma set_slot_driver_ok:
  assumes p: "last_device dev n reg p" and d: "d < driver_count reg" "driver_matches (drivers reg ! unat d) dev"
  shows "\<exists>p'. set_slot_driver (n - 1) d p = Inr p' \<and> last_device dev n reg p'"
proof -
  note i = last_device_index [OF p]
  let ?s = "(pci_devices p ! unat (n - 1))\<lparr>slot_driver := Some d\<rparr>"
  let ?p = "p\<lparr>pci_devices := (pci_devices p)[unat (n - 1) := ?s]\<rparr>"
  have wf: "pci_wf p" and f: "pci_devices_count p = n" "pci_driver_registry p = reg" "slot_device (pci_devices p ! unat (n - 1)) = dev"
    using p by (simp_all add: last_device_def)
  have n0: "0 < unat n" using p by (simp add: last_device_def unat_gt_0 word_neq_0_conv)
  have len: "length (pci_devices p) = 64" using wf by (simp add: pci_wf_def)
  have "\<forall>i<64. if i < unat n then slot_ok reg (pci_devices p ! i) else slot_driver (pci_devices p ! i) = None"
    using wf unfolding pci_wf_def f by (elim conjE)
  note slots = this
  from spec [OF this, of "unat (n - 1)"] have "slot_ok reg (pci_devices p ! unat (n - 1))" using i n0 by simp
  then have so: "slot_ok reg ?s" using d f(3) by (simp add: slot_ok_def)
  have step: "if i < unat n then slot_ok reg (pci_devices ?p ! i) else slot_driver (pci_devices ?p ! i) = None" if "i < 64" for i
    using slots [rule_format, OF that] so i n0 len that by (cases "i = unat (n - 1)") auto
  have "pci_wf ?p"
  proof (rule pci_wfI)
    fix i :: nat assume "i < 64"
    from step [OF this] show "if i < unat (pci_devices_count ?p) then slot_ok (pci_driver_registry ?p) (pci_devices ?p ! i)
        else slot_driver (pci_devices ?p ! i) = None" by (simp add: f split: if_splits)
  qed (use wf f len in \<open>simp_all add: pci_wf_def\<close>)
  moreover have "set_slot_driver (n - 1) d p = Inr ?p" using i len by (simp add: set_slot_driver_def)
  ultimately show ?thesis using p i len by (simp add: last_device_def)
qed

lemma bind_loop_ok:
  assumes inits: "inits_keep F inits" and "last_device dev n reg p"
  shows "outcome F (\<lambda>(q, _). last_device dev n reg q) (bind_loop inits (\<lambda>s. Inr (pci_devices_count s - 1, dev)) k i p h)"
  using assms(2)
proof (induction "64 - unat k" arbitrary: k p h rule: less_induct)
  case less
  have reg: "pci_driver_registry p = reg" "pci_devices_count p = n" and wf: "pci_wf p" using less.prems by (simp_all add: last_device_def)
  show ?case
  proof (cases "k < driver_count reg")
    case False
    then show ?thesis using less.prems reg by (subst bind_loop.simps) simp
  next
    case True
    have k: "unat k < 64" "length (drivers reg) = 64" using True wf reg by (auto simp: pci_wf_def word_less_nat_alt)
    have "unat (k + 1) = unat k + 1" using k by (simp add: unat_add_small)
    then have dec: "64 - unat (k + 1) < 64 - unat k" using k by simp
    let ?d = "drivers reg ! unat k"
    have o: "outcome F (\<lambda>(q, _). last_device dev n reg q)
        (if driver_matches ?d dev then bindE (set_slot_driver (n - 1) k p) (\<lambda>s1. inits (driver_init ?d) i s1 h) else Inr (p, h))"
    proof (cases "driver_matches ?d dev")
      case m: True
      from set_slot_driver_ok [OF less.prems True m] obtain p' where p': "set_slot_driver (n - 1) k p = Inr p'" "last_device dev n reg p'" by blast
      have "last_device dev n reg q" if "same_tables p' q" for q
        using that p'(2) pci_wf_same [OF that] by (simp add: last_device_def same_tables_def)
      moreover have "outcome F (\<lambda>(q, _). same_tables p' q) (inits (driver_init ?d) i p' h)" using inits by (simp add: inits_keep_def)
      ultimately show ?thesis using m p'(1) by (auto simp: outcome_def split: sum.splits)
    qed (use less.prems in simp)
    have eq: "bind_loop inits (\<lambda>s. Inr (pci_devices_count s - 1, dev)) k i p h =
        bindE (if driver_matches ?d dev then bindE (set_slot_driver (n - 1) k p) (\<lambda>s1. inits (driver_init ?d) i s1 h) else Inr (p, h))
          (\<lambda>(s2, h2). bind_loop inits (\<lambda>s. Inr (pci_devices_count s - 1, dev)) (k + 1) i s2 h2)"
      using True k reg by (subst bind_loop.simps) simp
    show ?thesis unfolding eq by (rule outcome_bind [OF o]) (auto intro: less.hyps [OF dec])
  qed
qed

section \<open>Enumeration\<close>

lemma read_registers_ok: "pci_api p = PciApiLegacy \<Longrightarrow> \<exists>vs h'. read_registers n off m p b d f h = Inr (vs, h')"
proof (induction n arbitrary: off h)
  case (Suc n)
  obtain v h1 where "pci_api_read m p b d f off 4 h = Inr (v, h1)" using Suc.prems by (simp add: pci_api_read_def) (metis surj_pair)
  with Suc.IH [OF Suc.prems, of "off + 4" h1] show ?case by auto
qed simp

lemma pci_get_header_ok: "pci_api p = PciApiLegacy \<Longrightarrow> \<exists>hdr h'. pci_get_header m p b d f h = Inr (hdr, h')"
  using read_registers_ok [of p 4 0 m b d f h] by (auto simp: pci_get_header_def)

text \<open>A new device in the next slot.\<close>

lemma add_device:
  assumes wf: "pci_wf p" and api: "pci_api p = PciApiLegacy" and n: "unat (pci_devices_count p) < 64" and v: "vendor_id dev \<noteq> 0xFFFF"
  shows "last_device dev (pci_devices_count p + 1) (pci_driver_registry p)
    (p\<lparr>pci_devices := (pci_devices p)[unat (pci_devices_count p) := (pci_devices p ! unat (pci_devices_count p))\<lparr>slot_device := dev\<rparr>],
       pci_devices_count := pci_devices_count p + 1\<rparr>)"
proof -
  let ?n = "pci_devices_count p" and ?s = "(pci_devices p ! unat (pci_devices_count p))\<lparr>slot_device := dev\<rparr>"
  have u: "unat (?n + 1) = unat ?n + 1" using n by (simp add: unat_add_small)
  have pos: "0 < ?n + 1" using u by (metis add_is_0 one_neq_zero unat_0 word_neq_0_conv)
  have "slot_driver (pci_devices p ! unat ?n) = None" using wf n by (simp add: pci_wf_def)
  then have "slot_ok (pci_driver_registry p) ?s" using v by (simp add: slot_ok_def)
  moreover have "length (pci_devices p) = 64" using wf by (simp add: pci_wf_def)
  ultimately show ?thesis
    using wf api n pos u by (auto simp: last_device_def pci_wf_def nth_list_update less_Suc_eq)
qed

definition discovered :: "'a pci_state_scheme \<Rightarrow> 'a pci_state_scheme \<Rightarrow> bool" where
  "discovered p q \<longleftrightarrow> pci_wf q \<and> pci_api q = PciApiLegacy \<and> pci_driver_registry q = pci_driver_registry p \<and>
     pci_devices_count p \<le> pci_devices_count q"

lemma discovered_trans: "discovered p q \<Longrightarrow> discovered q r \<Longrightarrow> discovered p r"
  by (auto simp: discovered_def)

lemma last_device_discovered:
  "last_device dev (pci_devices_count p + 1) (pci_driver_registry p) q \<Longrightarrow> unat (pci_devices_count p) < 64 \<Longrightarrow> discovered p q"
  by (auto simp: last_device_def discovered_def word_le_nat_alt unat_add_small)

lemma discovered_refl: "pci_wf p \<Longrightarrow> pci_api p = PciApiLegacy \<Longrightarrow> discovered p p"
  by (simp add: discovered_def)

lemma discover_functions_ok:
  assumes inits: "inits_keep F inits" and "pci_wf p" and "pci_api p = PciApiLegacy"
  shows "outcome F (\<lambda>(_, q, _). discovered p q) (discover_functions m inits b d fs p h)"
  using assms(2,3)
proof (induction fs arbitrary: p h)
  case Nil
  then show ?case by (simp add: discovered_refl)
next
  case (Cons f fs)
  note api = Cons.prems(2)
  obtain hdr h1 where hdr: "pci_get_header m p b d f h = Inr (hdr, h1)" using pci_get_header_ok [OF api, of m b d f h] by (elim exE) (rule that)
  consider "h_vendor_id hdr = 0xFFFF" | "h_vendor_id hdr \<noteq> 0xFFFF" "pci_devices_count p \<ge> MAX_PCI_DEVICES"
    | "h_vendor_id hdr \<noteq> 0xFFFF" "\<not> pci_devices_count p \<ge> MAX_PCI_DEVICES" by blast
  then show ?case
  proof cases
    case 1
    then show ?thesis using hdr Cons by simp
  next
    case 2
    then show ?thesis using hdr Cons.prems by (simp add: discovered_refl)
  next
    case 3
    let ?n = "pci_devices_count p"
    have n: "unat ?n < 64" using 3(2) by (simp add: MAX_PCI_DEVICES_def word_le_nat_alt)
    obtain bs h2 where bs: "read_registers 6 0x10 m p b d f h1 = Inr (bs, h2)" using read_registers_ok [OF api, of 6 "0x10" m b d f h1] by (elim exE) (rule that)
    let ?dev = "device_of b d f hdr bs"
    let ?p = "p\<lparr>pci_devices := (pci_devices p)[unat ?n := (pci_devices p ! unat ?n)\<lparr>slot_device := ?dev\<rparr>], pci_devices_count := ?n + 1\<rparr>"
    have len: "length (pci_devices p) = 64" using Cons.prems(1) by (simp add: pci_wf_def)
    have "vendor_id ?dev \<noteq> 0xFFFF" using 3(1) by (simp add: device_of_def)
    from bind_loop_ok [OF inits add_device [OF Cons.prems n this]]
    have o: "outcome F (\<lambda>(q, _). last_device ?dev (?n + 1) (pci_driver_registry p) q)
        (bind_loop inits (\<lambda>s. Inr (pci_devices_count s - 1, ?dev)) 0 ?n ?p h2)" .
    have eq: "discover_functions m inits b d (f # fs) p h =
        bindE (bind_loop inits (\<lambda>s. Inr (pci_devices_count s - 1, ?dev)) 0 ?n ?p h2) (\<lambda>(s3, h3).
          if f = 0 \<and> h_header_type hdr AND 0x80 \<noteq> 0 then Inr (True, s3, h3) else discover_functions m inits b d fs s3 h3)"
      using hdr 3 bs n len by (simp add: Let_def)
    have "outcome F (\<lambda>(_, q, _). discovered p q)
        (if f = 0 \<and> h_header_type hdr AND 0x80 \<noteq> 0 then Inr (True, s3, h3) else discover_functions m inits b d fs s3 h3)"
      if "last_device ?dev (?n + 1) (pci_driver_registry p) s3" for s3 h3
    proof -
      have d: "discovered p s3" using last_device_discovered [OF that n] .
      then have "outcome F (\<lambda>(_, q, _). discovered s3 q) (discover_functions m inits b d fs s3 h3)"
        by (intro Cons.IH) (simp_all add: discovered_def)
      then have "outcome F (\<lambda>(_, q, _). discovered p q) (discover_functions m inits b d fs s3 h3)"
        using discovered_trans [OF d] by (auto simp: outcome_def split: sum.splits)
      then show ?thesis using d by simp
    qed
    then show ?thesis unfolding eq by (intro outcome_bind [OF o]) auto
  qed
qed

lemma discover_slots_ok:
  assumes inits: "inits_keep F inits" and "pci_wf p" and "pci_api p = PciApiLegacy"
  shows "outcome F (\<lambda>(q, _). discovered p q) (discover_slots m inits slots p h)"
  using assms(2,3)
proof (induction slots arbitrary: p h)
  case Nil
  then show ?case by (simp add: discovered_refl)
next
  case (Cons x slots)
  obtain b d where x: "x = (b, d)" by fastforce
  have "outcome F (\<lambda>(q, _). discovered p q) (if go_on then discover_slots m inits slots s1 h1 else Inr (s1, h1))"
    if d: "discovered p s1" for go_on s1 h1
  proof -
    have "outcome F (\<lambda>(q, _). discovered s1 q) (discover_slots m inits slots s1 h1)"
      using d by (intro Cons.IH) (simp_all add: discovered_def)
    then have "outcome F (\<lambda>(q, _). discovered p q) (discover_slots m inits slots s1 h1)"
      using discovered_trans [OF d] by (auto simp: outcome_def split: sum.splits)
    then show ?thesis using d by simp
  qed
  then show ?case unfolding x discover_slots.simps by (intro outcome_bind [OF discover_functions_ok [OF inits Cons.prems]]) auto
qed

section \<open>Properties\<close>


text \<open>A bus on which a mass storage controller answers at every address, the tables as they are loaded, with one driver for it.\<close>

definition bus_small :: "unit machine" where
  "bus_small = \<lparr>inb = (\<lambda>_ h. (0, h)), inw = (\<lambda>_ h. (0, h)), inl = (\<lambda>_ h. (0x01060101, h)), outb = (\<lambda>_ _ h. h), outw = (\<lambda>_ _ h. h),
     outl = (\<lambda>_ _ h. h), tsc_halves = (\<lambda>h. (0, 0, h))\<rparr>"

definition pci_small :: pci_state where
  "pci_small = \<lparr>pci_devices = replicate 64 \<lparr>slot_device = \<lparr>bus = 0, device = 0, function_no = 0, vendor_id = 0, device_id = 0,
       class_code = 0, sub_class = 0, prog_if = 0, bars = replicate 6 0\<rparr>, slot_driver = None\<rparr>,
     pci_devices_count = 0, pci_api = PciApiUnset,
     pci_driver_registry = \<lparr>drivers = replicate 64 \<lparr>driver_name = [], driver_codes = PCI_CLASS_DRIVER 1 6 1, driver_init = 0x5000\<rparr>,
       driver_count = 1\<rparr>\<rparr>"

lemma pci_small_wf: "pci_wf pci_small"
  by (simp add: pci_wf_def pci_small_def)


end
