(* ===== verification/Console_Props.thy ===== *)
theory Console_Props
  imports Console
begin

text \<open>
  Formatted output reaches the serial line. The text that a format string and its arguments stand for is given by
  the function \<open>render\<close>, which knows nothing of buffers and devices; \<^verbatim>\<open>kprintf\<close> terminates and sends exactly this text, provided
  the port behaves like a transmitter that is ready again after a bounded number of reads of its status.
\<close>

section \<open>The text of a format string\<close>

definition decimal_text :: "u64 \<Rightarrow> u8 list" where
  "decimal_text w = map dec_char (digits 10 (unat w))"

definition hex_text :: "u64 \<Rightarrow> u8 list" where
  "hex_text w = [0x30, 0x78] @ map hex_char (digits 16 (unat w))"

definition number_of :: "bool \<Rightarrow> u64 \<Rightarrow> u64" where
  "number_of is_long w = (if is_long then w else ucast (ucast w :: u32))"

fun convert :: "bool \<Rightarrow> u8 \<Rightarrow> va_arg list \<Rightarrow> (u8 list \<times> va_arg list) option" where
  "convert is_long c (ArgWord w # as) =
     (if c = 0x63 then Some ([ucast w], as)
      else if c = 0x73 then None
      else if c = 0x75 then Some (decimal_text (number_of is_long w), as)
      else if c = 0x78 then Some (hex_text (number_of is_long w), as)
      else if c = 0x25 then Some ([0x25], ArgWord w # as)
      else Some ([0x25, c], ArgWord w # as))"
| "convert is_long c (ArgStr t # as) =
     (if c = 0x73 then
        (case t of None \<Rightarrow> Some ([], as) | Some str \<Rightarrow> if 0 \<in> set str then Some (c_str str, as) else None)
      else if c = 0x63 \<or> c = 0x75 \<or> c = 0x78 then None
      else if c = 0x25 then Some ([0x25], ArgStr t # as)
      else Some ([0x25, c], ArgStr t # as))"
| "convert is_long c [] =
     (if c = 0x63 \<or> c = 0x73 \<or> c = 0x75 \<or> c = 0x78 then None
      else if c = 0x25 then Some ([0x25], []) else Some ([0x25, c], []))"

fun render :: "u8 list \<Rightarrow> va_arg list \<Rightarrow> u8 list option" where
  "render [] args = None"
| "render (p # fmt) args =
     (if p = 0 then Some []
      else if p \<noteq> 0x25 then map_option ((#) p) (render fmt args)
      else case fmt of [] \<Rightarrow> None | q # fmt1 \<Rightarrow>
        if q = 0x6C then
          (case fmt1 of [] \<Rightarrow> None | r # fmt2 \<Rightarrow>
             (case convert True r args of None \<Rightarrow> None | Some (out, as) \<Rightarrow> map_option ((@) out) (render fmt2 as)))
        else
          (case convert False q args of None \<Rightarrow> None | Some (out, as) \<Rightarrow> map_option ((@) out) (render fmt1 as)))"

section \<open>The transmitter\<close>

text \<open>
  \<open>sent h\<close> are the bytes the line has carried, \<open>ready h\<close> says that the transmitter takes a byte, and \<open>delay h\<close> bounds the
  reads of the status register until it does. Reading the clock does not disturb the line.
\<close>

definition serial_line :: "nat \<Rightarrow> 'h machine \<Rightarrow> ('h \<Rightarrow> u8 list) \<Rightarrow> ('h \<Rightarrow> bool) \<Rightarrow> ('h \<Rightarrow> nat) \<Rightarrow> bool" where
  "serial_line polls m sent ready delay \<longleftrightarrow>
     (\<forall>h. delay h < polls) \<and>
     (\<forall>h v h'. inb m (COM1 + 5) h = (v, h') \<longrightarrow>
        sent h' = sent h \<and> (if v AND 0x20 = 0 then delay h' < delay h else ready h')) \<and>
     (\<forall>h c. ready h \<longrightarrow> sent (outb m COM1 c h) = sent h @ [c]) \<and>
     (\<forall>h l u h'. tsc_halves m h = (l, u, h') \<longrightarrow> sent h' = sent h)"

lemma wait_transmit_ok:
  assumes line: "serial_line polls m sent ready delay" and "delay h < n"
  shows "\<exists>h1. wait_transmit n m h = Inr h1 \<and> sent h1 = sent h \<and> ready h1"
  using assms(2)
proof (induction n arbitrary: h)
  case (Suc n)
  obtain v h' where i: "inb m (COM1 + 5) h = (v, h')" by fastforce
  have l: "sent h' = sent h" "if v AND 0x20 = 0 then delay h' < delay h else ready h'"
    using line i unfolding serial_line_def by blast+
  show ?case
  proof (cases "v AND 0x20 = 0")
    case True
    with l(2) Suc.prems have "delay h' < n" by simp
    from Suc.IH [OF this] show ?thesis using i True l(1) by simp
  next
    case False
    with i l show ?thesis by simp
  qed
qed simp

lemma serial_putc_ok:
  assumes line: "serial_line polls m sent ready delay"
  shows "\<exists>h1. serial_putc polls m c h = Inr h1 \<and> sent h1 = sent h @ [c]"
proof -
  have "delay h < polls" using line by (simp add: serial_line_def)
  from wait_transmit_ok [OF line this] obtain h1 where w: "wait_transmit polls m h = Inr h1" "sent h1 = sent h" "ready h1" by blast
  have "\<forall>h c. ready h \<longrightarrow> sent (outb m COM1 c h) = sent h @ [c]" using line unfolding serial_line_def by (elim conjE)
  then show ?thesis using w by (simp add: serial_putc_def)
qed

lemma serial_puts_ok:
  assumes line: "serial_line polls m sent ready delay" and "0 \<in> set str"
  shows "\<exists>h1. serial_puts polls m str h = Inr h1 \<and> sent h1 = sent h @ c_str str"
  using assms(2)
proof (induction str arbitrary: h)
  case (Cons c str)
  show ?case
  proof (cases "c = 0")
    case False
    obtain h1 where p: "serial_putc polls m c h = Inr h1" "sent h1 = sent h @ [c]" using serial_putc_ok [OF line] by blast
    have "0 \<in> set str" using Cons.prems False by simp
    from Cons.IH [OF this, of h1] show ?thesis using False p by (auto simp: c_str_def)
  qed (simp add: c_str_def)
qed simp

lemma puts_terminated:
  assumes line: "serial_line polls m sent ready delay" and "0 \<notin> set cs"
  shows "\<exists>h1. serial_puts polls m (cs @ 0 # rest) h = Inr h1 \<and> sent h1 = sent h @ cs"
  using serial_puts_ok [OF line, of "cs @ 0 # rest" h] assms(2) by simp

section \<open>Conversions\<close>

lemma put_decimal:
  assumes line: "serial_line polls m sent ready delay" and "length buffer = 32"
  shows "\<exists>st buffer' h1. ultoa w (Some buffer) 21 = Inr (st, Some buffer') \<and> length buffer' = 32 \<and>
    put_buffer polls m (Some buffer') h = Inr (buffer', h1) \<and> sent h1 = sent h @ decimal_text w"
proof -
  let ?ds = "digits 10 (unat w)"
  have "unat w < 10 ^ 20" using less_trans [OF unat_less_2p64 [of w]] by simp
  then have len: "length ?ds \<le> 20" using length_digits_le [of 10 20 "unat w"] by simp
  then have u: "ultoa w (Some buffer) 21 = Inr (STR_SUCCESS, Some (decimal_text w @ 0 # drop (Suc (length ?ds)) buffer))"
    using assms(2) ultoa_ok [of 21 buffer w] by (simp add: decimal_text_def)
  have "0 \<notin> set (decimal_text w)" unfolding decimal_text_def by (rule dec_char_digits_nonzero)
  from puts_terminated [OF line this] obtain h1 where
    "serial_puts polls m (decimal_text w @ 0 # drop (Suc (length ?ds)) buffer) h = Inr h1" "sent h1 = sent h @ decimal_text w" by blast
  then show ?thesis using u len assms(2) by (simp add: put_buffer_def) (simp add: decimal_text_def)
qed

lemma put_hex:
  assumes line: "serial_line polls m sent ready delay" and "length buffer = 32"
  shows "\<exists>st buffer' h1. ultox w (Some buffer) 21 = Inr (st, Some buffer') \<and> length buffer' = 32 \<and>
    put_buffer polls m (Some buffer') h = Inr (buffer', h1) \<and> sent h1 = sent h @ hex_text w"
proof -
  let ?ds = "digits 16 (unat w)"
  have "unat w < 16 ^ 16" using unat_less_2p64 [of w] by simp
  then have len: "length ?ds \<le> 16" using length_digits_le [of 16 16 "unat w"] by simp
  then have u: "ultox w (Some buffer) 21 = Inr (STR_SUCCESS, Some (hex_text w @ 0 # drop (Suc (Suc (Suc (length ?ds)))) buffer))"
    using assms(2) ultox_ok [of 21 buffer w] by (simp add: hex_text_def)
  have "0 \<notin> set (hex_text w)" using hex_char_digits_nonzero [of "unat w"] by (simp add: hex_text_def)
  from puts_terminated [OF line this] obtain h1 where
    "serial_puts polls m (hex_text w @ 0 # drop (Suc (Suc (Suc (length ?ds)))) buffer) h = Inr h1" "sent h1 = sent h @ hex_text w" by blast
  then show ?thesis using u len assms(2) by (simp add: put_buffer_def) (simp add: hex_text_def)
qed

lemma put_unknown:
  assumes line: "serial_line polls m sent ready delay"
  shows "\<exists>h2. bindE (serial_putc polls m 0x25 h) (\<lambda>h1. bindE (serial_putc polls m c h1) (\<lambda>h2. Inr (args, buffer, h2))) =
    Inr (args, buffer, h2) \<and> sent h2 = sent h @ [0x25, c]"
proof -
  obtain h1 where 1: "serial_putc polls m 0x25 h = Inr h1" "sent h1 = sent h @ [0x25]" using serial_putc_ok [OF line] by blast
  obtain h2 where 2: "serial_putc polls m c h1 = Inr h2" "sent h2 = sent h1 @ [c]" using serial_putc_ok [OF line] by blast
  show ?thesis using 1 2 by simp
qed

lemma put_char:
  assumes line: "serial_line polls m sent ready delay"
  shows "\<exists>h1. bindE (serial_putc polls m c h) (\<lambda>h1. Inr (args, buffer, h1)) = Inr (args, buffer, h1) \<and> sent h1 = sent h @ [c]"
  using serial_putc_ok [OF line, of c h] by force

lemma conversion_word:
  assumes line: "serial_line polls m sent ready delay" and b: "length buffer = 32"
    and r: "convert is_long c (ArgWord w # args) = Some (out, as)"
  shows "\<exists>buffer' h1. conversion polls m is_long c (ArgWord w # args) buffer h = Inr (as, buffer', h1) \<and> length buffer' = 32 \<and>
    sent h1 = sent h @ out"
proof -
  have n: "va_number is_long (ArgWord w # args) = Inr (number_of is_long w, args)" by (simp add: va_number_def va_u64_def number_of_def)
  consider "c = 0x63" | "c = 0x75" | "c = 0x78" | "c = 0x25" | "c \<noteq> 0x63" "c \<noteq> 0x73" "c \<noteq> 0x75" "c \<noteq> 0x78" "c \<noteq> 0x25"
    using r by (auto split: if_splits)
  then show ?thesis
  proof cases
    case 1
    then show ?thesis using r b put_char [OF line, of "ucast w" h args buffer] by (auto simp: conversion_def va_u64_def)
  next
    case 2
    from put_decimal [OF line b, of "number_of is_long w" h] obtain st buffer' h1 where
      "ultoa (number_of is_long w) (Some buffer) 21 = Inr (st, Some buffer')" "length buffer' = 32"
      "put_buffer polls m (Some buffer') h = Inr (buffer', h1)" "sent h1 = sent h @ decimal_text (number_of is_long w)" by blast
    then show ?thesis using 2 r n by (simp add: conversion_def)
  next
    case 3
    from put_hex [OF line b, of "number_of is_long w" h] obtain st buffer' h1 where
      "ultox (number_of is_long w) (Some buffer) 21 = Inr (st, Some buffer')" "length buffer' = 32"
      "put_buffer polls m (Some buffer') h = Inr (buffer', h1)" "sent h1 = sent h @ hex_text (number_of is_long w)" by blast
    then show ?thesis using 3 r n by (simp add: conversion_def)
  next
    case 4
    then show ?thesis using r b put_char [OF line, of "0x25" h "ArgWord w # args" buffer] by (auto simp: conversion_def)
  next
    case 5
    then show ?thesis using r b put_unknown [OF line, of h c "ArgWord w # args" buffer] by (auto simp: conversion_def)
  qed
qed

lemma conversion_string:
  assumes line: "serial_line polls m sent ready delay" and b: "length buffer = 32"
    and r: "convert is_long 0x73 (ArgStr t # args) = Some (out, as)"
  shows "\<exists>h1. conversion polls m is_long 0x73 (ArgStr t # args) buffer h = Inr (as, buffer, h1) \<and> sent h1 = sent h @ out"
proof (cases t)
  case None
  with r show ?thesis by (simp add: conversion_def va_str_def)
next
  case (Some str)
  with r have "0 \<in> set str" "out = c_str str" "as = args" by (simp_all split: if_splits)
  with serial_puts_ok [OF line this(1), of h] Some show ?thesis by (auto simp: conversion_def va_str_def)
qed

lemma conversion_plain:
  assumes line: "serial_line polls m sent ready delay" and b: "length buffer = 32"
    and c: "c \<noteq> 0x63" "c \<noteq> 0x73" "c \<noteq> 0x75" "c \<noteq> 0x78" and r: "convert is_long c args = Some (out, as)"
  shows "\<exists>h1. conversion polls m is_long c args buffer h = Inr (as, buffer, h1) \<and> sent h1 = sent h @ out"
proof -
  have "as = args \<and> out = (if c = 0x25 then [0x25] else [0x25, c])" using c r by (induction is_long c args rule: convert.induct) (auto split: if_splits)
  then show ?thesis
    using c put_char [OF line, of "0x25" h args buffer] put_unknown [OF line, of h c args buffer] by (auto simp: conversion_def)
qed

lemma conversion_ok:
  assumes line: "serial_line polls m sent ready delay" and b: "length buffer = 32" and r: "convert is_long c args = Some (out, as)"
  shows "\<exists>buffer' h1. conversion polls m is_long c args buffer h = Inr (as, buffer', h1) \<and> length buffer' = 32 \<and> sent h1 = sent h @ out"
proof (cases args)
  case Nil
  then have "c \<noteq> 0x63" "c \<noteq> 0x73" "c \<noteq> 0x75" "c \<noteq> 0x78" using r by (auto split: if_splits)
  from conversion_plain [OF line b this r] b show ?thesis by blast
next
  case (Cons a rest)
  show ?thesis
  proof (cases a)
    case (ArgWord w)
    show ?thesis using conversion_word [OF line b r [unfolded Cons ArgWord]] unfolding Cons ArgWord .
  next
    case (ArgStr t)
    show ?thesis
    proof (cases "c = 0x73")
      case True
      from conversion_string [OF line b r [unfolded Cons ArgStr True]] b show ?thesis unfolding Cons ArgStr True by blast
    next
      case False
      then have "c \<noteq> 0x63" "c \<noteq> 0x75" "c \<noteq> 0x78" using r Cons ArgStr by (auto split: if_splits)
      from conversion_plain [OF line b this(1) False this(2,3) r] b show ?thesis by blast
    qed
  qed
qed

section \<open>Whole format strings\<close>

lemma vkprintf_loop_ok:
  assumes line: "serial_line polls m sent ready delay" and "length buffer = 32" and "render fmt args = Some out"
  shows "\<exists>buffer' h1. vkprintf_loop polls m fmt args buffer h = Inr (buffer', h1) \<and> length buffer' = 32 \<and> sent h1 = sent h @ out"
  using assms(2,3)
proof (induction fmt arbitrary: args buffer h out rule: length_induct)
  case (1 fmt)
  have step: "\<exists>buffer' h1. bindE (conversion polls m is_long c args buffer h) (\<lambda>(as, buffer', h1). vkprintf_loop polls m fmt' as buffer' h1) =
      Inr (buffer', h1) \<and> length buffer' = 32 \<and> sent h1 = sent h @ out"
    if "length fmt' < length fmt"
      and r: "(case convert is_long c args of None \<Rightarrow> None | Some (t, as) \<Rightarrow> map_option ((@) t) (render fmt' as)) = Some out"
    for is_long c fmt'
  proof -
    from r obtain t as out' where c: "convert is_long c args = Some (t, as)" "render fmt' as = Some out'" "out = t @ out'"
      by (auto split: option.splits)
    from conversion_ok [OF line "1.prems"(1) c(1), of h] obtain b1 h1 where
      b1: "conversion polls m is_long c args buffer h = Inr (as, b1, h1)" "length b1 = 32" "sent h1 = sent h @ t" by blast
    from "1.IH" [rule_format, OF that(1) b1(2) c(2), of h1] show ?thesis using b1 c(3) by auto
  qed
  show ?case
  proof (cases fmt)
    case Nil
    with "1.prems" show ?thesis by simp
  next
    case (Cons p rest)
    consider "p = 0" | "p \<noteq> 0" "p \<noteq> 0x25" | "p = 0x25" by blast
    then show ?thesis
    proof cases
      case 1
      with Cons "1.prems" show ?thesis by simp
    next
      case 2
      with Cons "1.prems"(2) obtain out' where o: "render rest args = Some out'" "out = p # out'" by auto
      obtain h1 where h1: "serial_putc polls m p h = Inr h1" "sent h1 = sent h @ [p]" using serial_putc_ok [OF line] by blast
      from "1.IH" [rule_format, OF _ "1.prems"(1) o(1), of h1] show ?thesis using 2 Cons h1 o(2) by auto
    next
      case 3
      then obtain q fmt1 where f: "rest = q # fmt1" using Cons "1.prems"(2) by (cases rest) auto
      show ?thesis
      proof (cases "q = 0x6C")
        case True
        then obtain r fmt2 where "fmt1 = r # fmt2" using Cons "1.prems"(2) f 3 by (cases fmt1) auto
        then show ?thesis using step [of fmt2 True r] "1.prems"(2) True 3 f Cons by simp
      next
        case False
        then show ?thesis using step [of fmt1 False q] "1.prems"(2) 3 f Cons by simp
      qed
    qed
  qed
qed

lemma vkprintf_ok:
  assumes "serial_line polls m sent ready delay" and "length (printf_buffer k) = 32" and "render fmt args = Some out"
  shows "\<exists>k' h1. vkprintf polls m fmt args k h = Inr (0, k', h1) \<and> length (printf_buffer k') = 32 \<and>
    tsc_tick_per_ms k' = tsc_tick_per_ms k \<and> sent h1 = sent h @ out"
  using vkprintf_loop_ok [OF assms, of h] by (auto simp: vkprintf_def)

lemma kprintf_ok:
  assumes "serial_line polls m sent ready delay" and "length (printf_buffer k) = 32" and "render fmt args = Some out"
  shows "\<exists>k' h1. kprintf polls m fmt args k h = Inr (0, k', h1) \<and> length (printf_buffer k') = 32 \<and>
    tsc_tick_per_ms k' = tsc_tick_per_ms k \<and> sent h1 = sent h @ out"
  using vkprintf_ok [OF assms, of h] by (auto simp: kprintf_def)

section \<open>The clock\<close>

text \<open>The counter read by \<^verbatim>\<open>rdtsc\<close> grows with every read, by at most \<open>d\<close>.\<close>

definition clock_runs :: "'h machine \<Rightarrow> ('h \<Rightarrow> nat) \<Rightarrow> nat \<Rightarrow> bool" where
  "clock_runs m clock d \<longleftrightarrow>
     (\<forall>h now h'. rdtsc m h = (now, h') \<longrightarrow> now = of_nat (clock h) \<and> clock h < clock h' \<and> clock h' \<le> clock h + d)"

lemma sleep_loop_returns:
  assumes run: "clock_runs m clock d" and "unat goal + d < 2 ^ 64"
    and "start \<le> clock h" and "clock h \<le> start + unat goal + d" and "start + unat goal < clock h + polls" and "0 < polls"
  shows "\<exists>h'. sleep_loop polls m (of_nat start) goal h = Inr h' \<and> start + unat goal < clock h' \<and> clock h' \<le> start + unat goal + 2 * d"
  using assms(3-6)
proof (induction polls arbitrary: h)
  case 0
  then show ?case by simp
next
  case (Suc polls)
  obtain now h' where r: "rdtsc m h = (now, h')" by fastforce
  then have c: "now = of_nat (clock h)" "clock h < clock h'" "clock h' \<le> clock h + d" using run unfolding clock_runs_def by blast+
  have "now - of_nat start = of_nat (clock h - start)" using Suc.prems(1) c(1) by (simp add: of_nat_diff)
  moreover have "clock h - start < 2 ^ 64" using Suc.prems(2) assms(2) by simp
  ultimately have u: "unat (now - of_nat start) = clock h - start" by (simp add: unat_of_nat_small)
  show ?case
  proof (cases "clock h - start < unat goal")
    case True
    then have "start \<le> clock h'" "clock h' \<le> start + unat goal + d" "start + unat goal < clock h' + polls" "0 < polls"
      using Suc.prems c by simp_all
    from Suc.IH [OF this] show ?thesis using True r u by (simp add: word_less_nat_alt)
  next
    case False
    then show ?thesis using Suc.prems c r u by (simp add: word_less_nat_alt)
  qed
qed

section \<open>Properties\<close>

text \<open>C23: On a clock whose counter runs, \<^verbatim>\<open>tsc_sleep_ms\<close> returns, after at most as many reads of the counter as it has ticks to wait
  for, also when the counter wraps around in between. It has then waited for the whole time, and for at most two
  steps of the counter more.\<close>

theorem tsc_sleep_ms_returns:
  assumes "clock_runs m clock d" and "unat (ms * tsc_tick_per_ms k) + d < 2 ^ 64" and "unat (ms * tsc_tick_per_ms k) \<le> polls"
    and "0 < polls"
  shows "\<exists>h'. tsc_sleep_ms polls m ms k h = Inr h' \<and> clock h + unat (ms * tsc_tick_per_ms k) < clock h' \<and>
    clock h' \<le> clock h + unat (ms * tsc_tick_per_ms k) + 2 * d"
proof -
  obtain now h1 where r: "rdtsc m h = (now, h1)" by fastforce
  then have c: "now = of_nat (clock h)" "clock h < clock h1" "clock h1 \<le> clock h + d" using assms(1) unfolding clock_runs_def by blast+
  then have "clock h \<le> clock h1" "clock h1 \<le> clock h + unat (ms * tsc_tick_per_ms k) + d"
    "clock h + unat (ms * tsc_tick_per_ms k) < clock h1 + polls" using assms(3) by simp_all
  from sleep_loop_returns [OF assms(1,2) this assms(4)] show ?thesis using r c(1) by (simp add: tsc_sleep_ms_def)
qed

text \<open>A clock that advances by 3 with every read.\<close>

definition clock_small :: "nat machine" where
  "clock_small = \<lparr>inb = (\<lambda>_ h. (0, h)), inw = (\<lambda>_ h. (0, h)), inl = (\<lambda>_ h. (0, h)), outb = (\<lambda>_ _ h. h), outw = (\<lambda>_ _ h. h),
     outl = (\<lambda>_ _ h. h), tsc_halves = (\<lambda>h. (ucast (of_nat (3 * h) :: u64), ucast (drop_bit 32 (of_nat (3 * h) :: u64)), h + 1))\<rparr>"

lemma clock_small_runs: "clock_runs clock_small (\<lambda>h. 3 * h) 3"
proof -
  have "rdtsc clock_small h = (of_nat (3 * h), h + 1)" for h
  proof -
    have "push_bit 32 (ucast (ucast (drop_bit 32 (w :: u64)) :: u32)) OR ucast (ucast w :: u32) = w" for w
      by (rule bit_word_eqI) (auto simp: bit_simps)
    then show ?thesis unfolding rdtsc_def clock_small_def machine.simps prod.case by (rule arg_cong)
  qed
  then show ?thesis by (simp add: clock_runs_def)
qed

theorem tsc_sleep_ms_returns_witness:
  "\<exists>h'. tsc_sleep_ms 40 clock_small 10 \<lparr>printf_buffer = [], subsystem_mask = 0, tsc_tick_per_ms = 4\<rparr> 7 = Inr h' \<and> 61 < 3 * h' \<and> 3 * h' \<le> 67"
  using tsc_sleep_ms_returns [OF clock_small_runs, of 10 "\<lparr>printf_buffer = [], subsystem_mask = 0, tsc_tick_per_ms = 4\<rparr>" 40 7] by simp

end
