(* ===== verification/Panic.thy ===== *)
theory Panic
  imports Console_Props
begin

text \<open>
  The panic screen, \<^verbatim>\<open>kernel/panic.c\<close>. The values of the registers are read by inline assembly; they are the parameter
  \<open>panic_registers\<close>. The function ends in a loop of \<^verbatim>\<open>hlt\<close>: its result is the state in which the processor stays.
  In the other theories a call of it is the fault \<open>Panic\<close>.
\<close>

section \<open>Definitions\<close>

record panic_registers =
  pr_rip :: u64
  pr_rsp :: u64
  pr_rbp :: u64
  pr_rflags :: u64
  pr_cr0 :: u64
  pr_cr2 :: u64
  pr_cr3 :: u64
  pr_cr4 :: u64
  pr_cr8 :: u64
  pr_rax :: u64
  pr_rbx :: u64
  pr_rcx :: u64
  pr_rdx :: u64
  pr_rsi :: u64
  pr_rdi :: u64
  pr_r8 :: u64
  pr_r9 :: u64
  pr_r10 :: u64
  pr_r11 :: u64
  pr_r12 :: u64
  pr_r13 :: u64
  pr_r14 :: u64
  pr_r15 :: u64

definition NL :: string where "NL = [CHR 0x0A]"

text \<open>The registers in the order of the two lists on the screen.\<close>

definition crash_context :: "panic_registers \<Rightarrow> (string \<times> u64) list" where
  "crash_context r =
     [(''RIP'', pr_rip r), (''RSP'', pr_rsp r), (''RBP'', pr_rbp r), (''RFLAGS'', pr_rflags r), (''CR0'', pr_cr0 r),
      (''CR2'', pr_cr2 r), (''CR3'', pr_cr3 r), (''CR4'', pr_cr4 r), (''CR8'', pr_cr8 r)]"

definition general_registers :: "panic_registers \<Rightarrow> (string \<times> u64) list" where
  "general_registers r =
     [(''RAX'', pr_rax r), (''RBX'', pr_rbx r), (''RCX'', pr_rcx r), (''RDX'', pr_rdx r), (''RSI'', pr_rsi r),
      (''RDI'', pr_rdi r), (''R8'', pr_r8 r), (''R9'', pr_r9 r), (''R10'', pr_r10 r), (''R11'', pr_r11 r), (''R12'',
      pr_r12 r), (''R13'', pr_r13 r), (''R14'', pr_r14 r), (''R15'', pr_r15 r)]"

fun print_registers ::
  "nat \<Rightarrow> 'h machine \<Rightarrow> (string \<times> u64) list \<Rightarrow> 'a console_state_scheme \<Rightarrow> 'h \<Rightarrow> ('a console_state_scheme \<times> 'h) res" where
  "print_registers polls m [] k h = Inr (k, h)"
| "print_registers polls m ((reg_name, v) # rs) k h =
     bindE (kprintf polls m (c_string (reg_name @ '': %lx'' @ NL)) [ArgWord v] k h) (\<lambda>(_, k1, h1). print_registers polls m rs k1 h1)"

definition kernel_panic ::
  "nat \<Rightarrow> 'h machine \<Rightarrow> panic_registers \<Rightarrow> u8 list \<Rightarrow> u32 \<Rightarrow> u8 list \<Rightarrow> va_arg list \<Rightarrow> 'a console_state_scheme \<Rightarrow> 'h \<Rightarrow>
   ('a console_state_scheme \<times> 'h) res" where
  "kernel_panic polls m r file line msg args k h =
     bindE (tsc_timer_get_ms m k h) (\<lambda>(millisecond, h1).
     let hour = ucast (millisecond div 3600000) :: u32;
         minutes = ucast ((millisecond mod 3600000) div 60000) :: u8;
         seconds = ucast ((millisecond mod 60000) div 1000) :: u8;
         ms = ucast (millisecond mod 1000) :: u16 in
     bindE (kprintf polls m (c_string (NL @ ''!!!!! KERNEL PANIC !!!!!'' @ NL)) [] k h1) (\<lambda>(_, k2, h2).
     bindE (vkprintf polls m msg args k2 h2) (\<lambda>(_, k3, h3).
     bindE (kprintf polls m (c_string (NL @ ''File: %s, Line: %u | Uptime: %u:%u:%u.%u'' @ NL @ NL))
              [ArgStr (Some file), ArgWord (ucast line), ArgWord (ucast hour), ArgWord (ucast minutes), ArgWord (ucast seconds),
               ArgWord (ucast ms)] k3 h3) (\<lambda>(_, k4, h4).
     bindE (kprintf polls m (c_string (''CRASH CONTEXT (Interrupt Frame)'' @ NL)) [] k4 h4) (\<lambda>(_, k5, h5).
     bindE (print_registers polls m (crash_context r) k5 h5) (\<lambda>(k6, h6).
     bindE (kprintf polls m (c_string (NL @ ''GENERAL PURPOSE REGISTERS'' @ NL)) [] k6 h6) (\<lambda>(_, k7, h7).
       print_registers polls m (general_registers r) k7 h7)))))))"

section \<open>What the screen shows\<close>

definition bytes :: "string \<Rightarrow> u8 list" where
  "bytes t = map of_char t"

definition register_lines :: "(string \<times> u64) list \<Rightarrow> u8 list" where
  "register_lines rs = concat (map (\<lambda>(reg_name, v). bytes reg_name @ bytes '': '' @ hex_text v @ bytes NL) rs)"

text \<open>\<open>body\<close> is the message, \<open>ms\<close> the time since the start in milliseconds; the hours have 32 bits.\<close>

definition panic_screen :: "panic_registers \<Rightarrow> u8 list \<Rightarrow> u32 \<Rightarrow> u8 list \<Rightarrow> u64 \<Rightarrow> u8 list" where
  "panic_screen r file line body ms =
     bytes (NL @ ''!!!!! KERNEL PANIC !!!!!'' @ NL) @ body @
     bytes (NL @ ''File: '') @ file @ bytes '', Line: '' @ decimal_text (ucast line) @ bytes '' | Uptime: '' @
     decimal_text (ucast (ucast (ms div 3600000) :: u32)) @ bytes '':'' @ decimal_text (ms mod 3600000 div 60000) @ bytes '':'' @
     decimal_text (ms mod 60000 div 1000) @ bytes ''.'' @ decimal_text (ms mod 1000) @ bytes (NL @ NL) @
     bytes (''CRASH CONTEXT (Interrupt Frame)'' @ NL) @ register_lines (crash_context r) @
     bytes (NL @ ''GENERAL PURPOSE REGISTERS'' @ NL) @ register_lines (general_registers r)"

lemma render_plain:
  "0 \<notin> set xs \<Longrightarrow> 0x25 \<notin> set xs \<Longrightarrow> render (xs @ fmt) args = map_option ((@) xs) (render fmt args)"
  by (induction xs; cases "render fmt args") simp_all

lemma bytes_append [simp]: "bytes (a @ b) = bytes a @ bytes b"
  by (simp add: bytes_def)

lemma c_string_bytes: "c_string t = bytes t @ [0]"
  by (simp add: c_string_def bytes_def)

definition plain :: "string \<Rightarrow> bool" where
  "plain t \<longleftrightarrow> 0 \<notin> set (bytes t) \<and> 0x25 \<notin> set (bytes t)"

lemma render_text: "plain t \<Longrightarrow> render (c_string t) args = Some (bytes t)"
  using render_plain [of "bytes t" "[0]" args] by (simp add: c_string_bytes plain_def)

lemma render_register: "plain t \<Longrightarrow> render (c_string (t @ '': %lx'' @ NL)) [ArgWord v] = Some (bytes t @ bytes '': '' @ hex_text v @ bytes NL)"
proof -
  assume "plain t"
  then have "render (bytes t @ bytes ('': %lx'' @ NL) @ [0]) [ArgWord v] = map_option ((@) (bytes t)) (render (bytes ('': %lx'' @ NL) @ [0]) [ArgWord v])"
    by (intro render_plain) (simp_all add: plain_def)
  moreover have "render (bytes ('': %lx'' @ NL) @ [0]) [ArgWord v] = Some (bytes '': '' @ hex_text v @ bytes NL)"
    by (simp add: bytes_def NL_def number_of_def)
  ultimately show ?thesis by (simp add: c_string_bytes)
qed

lemma print_registers_ok:
  assumes "serial_line polls m sent ready delay" and "length (printf_buffer k) = 32" and "\<forall>x\<in>set rs. plain (fst x)"
  shows "\<exists>k' h1. print_registers polls m rs k h = Inr (k', h1) \<and> length (printf_buffer k') = 32 \<and> sent h1 = sent h @ register_lines rs"
  using assms(2,3)
proof (induction rs arbitrary: k h)
  case Nil
  then show ?case by (simp add: register_lines_def)
next
  case (Cons x rs)
  obtain t v where x: "x = (t, v)" by fastforce
  then have "render (c_string (t @ '': %lx'' @ NL)) [ArgWord v] = Some (bytes t @ bytes '': '' @ hex_text v @ bytes NL)"
    using Cons.prems by (intro render_register) simp
  from kprintf_ok [OF assms(1) Cons.prems(1) this, of h] obtain k1 h1 where
    1: "kprintf polls m (c_string (t @ '': %lx'' @ NL)) [ArgWord v] k h = Inr (0, k1, h1)" "length (printf_buffer k1) = 32"
      "sent h1 = sent h @ bytes t @ bytes '': '' @ hex_text v @ bytes NL" by blast
  from Cons.IH [OF 1(2), of h1] Cons.prems(2) show ?case using 1 x by (auto simp: register_lines_def)
qed

lemma register_names_plain: "\<forall>x\<in>set (crash_context r). plain (fst x)" "\<forall>x\<in>set (general_registers r). plain (fst x)"
  by (simp_all add: crash_context_def general_registers_def plain_def bytes_def)

lemma headings_plain:
  "plain (NL @ ''!!!!! KERNEL PANIC !!!!!'' @ NL)" "plain (''CRASH CONTEXT (Interrupt Frame)'' @ NL)"
  "plain (NL @ ''GENERAL PURPOSE REGISTERS'' @ NL)"
  by (simp_all add: plain_def bytes_def NL_def)

lemma number_of_narrow: "LENGTH('a) \<le> 32 \<Longrightarrow> number_of False (ucast (x :: 'a::len word)) = ucast x"
proof (rule bit_word_eqI)
  fix n assume "LENGTH('a) \<le> 32" "n < LENGTH(64)"
  then show "bit (number_of False (ucast x)) n = bit (ucast x :: u64) n"
    using bit_imp_le_length [of x n] by (auto simp: number_of_def bit_simps)
qed

lemma render_place:
  assumes "0 \<in> set file"
  shows "render (c_string (NL @ ''File: %s, Line: %u | Uptime: %u:%u:%u.%u'' @ NL @ NL))
      [ArgStr (Some file), ArgWord (ucast (line :: u32)), ArgWord (ucast (a :: u32)), ArgWord (ucast (b :: u8)), ArgWord (ucast (c :: u8)),
       ArgWord (ucast (d :: u16))] =
    Some (bytes (NL @ ''File: '') @ c_str file @ bytes '', Line: '' @ decimal_text (ucast line) @ bytes '' | Uptime: '' @
      decimal_text (ucast a) @ bytes '':'' @ decimal_text (ucast b) @ bytes '':'' @ decimal_text (ucast c) @ bytes ''.'' @
      decimal_text (ucast d) @ bytes (NL @ NL))"
proof -
  have n: "number_of False (ucast line) = ucast line" "number_of False (ucast a) = ucast a" "number_of False (ucast b) = ucast b"
    "number_of False (ucast c) = ucast c" "number_of False (ucast d) = ucast d"
    by (simp_all add: number_of_narrow)
  show ?thesis using assms by (simp add: c_string_bytes bytes_def NL_def n)
qed

text \<open>Minutes, seconds and milliseconds fit in the narrow variables that hold them.\<close>

lemma ucast_narrow8: "unat (v :: u64) < 256 \<Longrightarrow> ucast (ucast v :: u8) = v"
proof -
  assume "unat v < 256"
  then have "take_bit 8 (unat v) = unat v" by (intro take_bit_nat_eq_self) simp
  then have "take_bit 8 v = v" by (simp add: word_unat_eq_iff unsigned_take_bit_eq)
  then show "ucast (ucast v :: u8) = v" by (simp add: unsigned_ucast_eq)
qed

lemma ucast_narrow16: "unat (v :: u64) < 65536 \<Longrightarrow> ucast (ucast v :: u16) = v"
proof -
  assume "unat v < 65536"
  then have "take_bit 16 (unat v) = unat v" by (intro take_bit_nat_eq_self) simp
  then have "take_bit 16 v = v" by (simp add: word_unat_eq_iff unsigned_take_bit_eq)
  then show "ucast (ucast v :: u16) = v" by (simp add: unsigned_ucast_eq)
qed

lemma uptime_fields:
  "ucast (ucast (w mod 3600000 div 60000 :: u64) :: u8) = w mod 3600000 div 60000"
  "ucast (ucast (w mod 60000 div 1000 :: u64) :: u8) = w mod 60000 div 1000"
  "ucast (ucast (w mod 1000 :: u64) :: u16) = w mod 1000"
proof -
  have "unat w mod 3600000 < 60 * 60000" "unat w mod 60000 < 60 * 1000" "unat w mod 1000 < 1000" by simp_all
  from less_mult_imp_div_less [OF this(1)] less_mult_imp_div_less [OF this(2)] this(3)
  have "unat (w mod 3600000 div 60000) < 60" "unat (w mod 60000 div 1000) < 60" "unat (w mod 1000) < 1000"
    unfolding unat_div unat_mod by simp_all
  note b = less_trans [OF this(1), of 256] less_trans [OF this(2), of 256] less_trans [OF this(3), of 65536]
  show "ucast (ucast (w mod 3600000 div 60000 :: u64) :: u8) = w mod 3600000 div 60000" by (rule ucast_narrow8, rule b) simp
  show "ucast (ucast (w mod 60000 div 1000 :: u64) :: u8) = w mod 60000 div 1000" by (rule ucast_narrow8, rule b) simp
  show "ucast (ucast (w mod 1000 :: u64) :: u16) = w mod 1000" by (rule ucast_narrow16, rule b) simp
qed

section \<open>Properties\<close>

text \<open>Before the clock rate is known the time cannot be computed, and nothing is printed.\<close>

lemma kernel_panic_needs_timer: "tsc_tick_per_ms k = 0 \<Longrightarrow> kernel_panic polls m r file line msg args k h = Inl DivByZero"
  by (cases "rdtsc m h") (simp add: kernel_panic_def tsc_timer_get_ms_def)

text \<open>C11: Once the clock rate is known, \<^verbatim>\<open>kernel_panic\<close> ends in its halting loop, and by then the serial line has carried the
  whole panic screen: the heading, the formatted message, the file and line, the time since the start, and the
  registers in hexadecimal, whatever the state of the line was and however slow it is.\<close>

theorem kernel_panic_prints:
  assumes "serial_line polls m sent ready delay" and "length (printf_buffer k) = 32" and "tsc_tick_per_ms k \<noteq> 0"
    and "0 \<in> set file" and "render msg args = Some body"
  shows "\<exists>k' h'. kernel_panic polls m r file line msg args k h = Inr (k', h') \<and>
    sent h' = sent h @ panic_screen r (c_str file) line body (fst (rdtsc m h) div tsc_tick_per_ms k)"
proof -
  let ?w = "fst (rdtsc m h) div tsc_tick_per_ms k"
  obtain l u h1 where t: "tsc_halves m h = (l, u, h1)" by (cases "tsc_halves m h") auto
  have h1: "sent h1 = sent h" using assms(1) t unfolding serial_line_def by blast
  have g: "tsc_timer_get_ms m k h = Inr (?w, h1)" using assms(3) t by (simp add: tsc_timer_get_ms_def rdtsc_def)
  note line = assms(1)
  from kprintf_ok [OF line assms(2) render_text [OF headings_plain(1)], of "[]" h1] obtain k2 h2 where
    2: "kprintf polls m (c_string (NL @ ''!!!!! KERNEL PANIC !!!!!'' @ NL)) [] k h1 = Inr (0, k2, h2)" "length (printf_buffer k2) = 32"
      "sent h2 = sent h1 @ bytes (NL @ ''!!!!! KERNEL PANIC !!!!!'' @ NL)" by blast
  from vkprintf_ok [OF line 2(2) assms(5), of h2] obtain k3 h3 where
    3: "vkprintf polls m msg args k2 h2 = Inr (0, k3, h3)" "length (printf_buffer k3) = 32" "sent h3 = sent h2 @ body" by blast
  note place = render_place [OF assms(4), of line "ucast (?w div 3600000)" "ucast (?w mod 3600000 div 60000)" "ucast (?w mod 60000 div 1000)"
      "ucast (?w mod 1000)"]
  from kprintf_ok [OF line 3(2) place, of h3] obtain k4 h4 where
    4: "kprintf polls m (c_string (NL @ ''File: %s, Line: %u | Uptime: %u:%u:%u.%u'' @ NL @ NL))
          [ArgStr (Some file), ArgWord (ucast line), ArgWord (ucast (ucast (?w div 3600000) :: u32)),
           ArgWord (ucast (ucast (?w mod 3600000 div 60000) :: u8)), ArgWord (ucast (ucast (?w mod 60000 div 1000) :: u8)),
           ArgWord (ucast (ucast (?w mod 1000) :: u16))] k3 h3 = Inr (0, k4, h4)" "length (printf_buffer k4) = 32"
      "sent h4 = sent h3 @ bytes (NL @ ''File: '') @ c_str file @ bytes '', Line: '' @ decimal_text (ucast line) @ bytes '' | Uptime: '' @
        decimal_text (ucast (ucast (?w div 3600000) :: u32)) @ bytes '':'' @ decimal_text (?w mod 3600000 div 60000) @ bytes '':'' @
        decimal_text (?w mod 60000 div 1000) @ bytes ''.'' @ decimal_text (?w mod 1000) @ bytes (NL @ NL)"
    unfolding uptime_fields by blast
  from kprintf_ok [OF line 4(2) render_text [OF headings_plain(2)], of "[]" h4] obtain k5 h5 where
    5: "kprintf polls m (c_string (''CRASH CONTEXT (Interrupt Frame)'' @ NL)) [] k4 h4 = Inr (0, k5, h5)" "length (printf_buffer k5) = 32"
      "sent h5 = sent h4 @ bytes (''CRASH CONTEXT (Interrupt Frame)'' @ NL)" by blast
  from print_registers_ok [OF line 5(2) register_names_plain(1) [of r], of h5] obtain k6 h6 where
    6: "print_registers polls m (crash_context r) k5 h5 = Inr (k6, h6)" "length (printf_buffer k6) = 32"
      "sent h6 = sent h5 @ register_lines (crash_context r)" by blast
  from kprintf_ok [OF line 6(2) render_text [OF headings_plain(3)], of "[]" h6] obtain k7 h7 where
    7: "kprintf polls m (c_string (NL @ ''GENERAL PURPOSE REGISTERS'' @ NL)) [] k6 h6 = Inr (0, k7, h7)" "length (printf_buffer k7) = 32"
      "sent h7 = sent h6 @ bytes (NL @ ''GENERAL PURPOSE REGISTERS'' @ NL)" by blast
  from print_registers_ok [OF line 7(2) register_names_plain(2) [of r], of h7] obtain k8 h8 where
    8: "print_registers polls m (general_registers r) k7 h7 = Inr (k8, h8)" "sent h8 = sent h7 @ register_lines (general_registers r)" by blast
  have "kernel_panic polls m r file line msg args k h = Inr (k8, h8)"
    unfolding kernel_panic_def g Let_def bindE_simps prod.case 2(1) 3(1) 4(1) 5(1) 6(1) 7(1) 8(1) ..
  moreover have "sent h8 = sent h @ panic_screen r (c_str file) line body ?w"
    unfolding 8(2) 7(3) 6(3) 5(3) 4(3) 3(3) 2(3) h1 panic_screen_def append_assoc ..
  ultimately show ?thesis by blast
qed

text \<open>A line that is busy for one read of the status register after every byte.\<close>

definition line_small :: "(u8 list \<times> bool) machine" where
  "line_small = \<lparr>inb = (\<lambda>_ (t, busy). (if busy then 0 else 0x20, t, False)), inw = (\<lambda>_ h. (0, h)), inl = (\<lambda>_ h. (0, h)),
     outb = (\<lambda>p c (t, busy). if p = COM1 \<and> \<not> busy then (t @ [c], True) else (t, busy)), outw = (\<lambda>_ _ h. h), outl = (\<lambda>_ _ h. h),
     tsc_halves = (\<lambda>h. (7322001, 0, h))\<rparr>"

definition console_small :: console_state where
  "console_small = \<lparr>printf_buffer = replicate 32 0, subsystem_mask = 0, tsc_tick_per_ms = 2\<rparr>"

definition registers_small :: panic_registers where
  "registers_small = \<lparr>pr_rip = 0xFFFFFFFF80001234, pr_rsp = 0, pr_rbp = 0, pr_rflags = 0, pr_cr0 = 0,
     pr_cr2 = 0, pr_cr3 = 0, pr_cr4 = 0, pr_cr8 = 0, pr_rax = 0, pr_rbx = 0, pr_rcx = 0,
     pr_rdx = 0, pr_rsi = 0, pr_rdi = 0, pr_r8 = 0, pr_r9 = 0, pr_r10 = 0, pr_r11 = 0, pr_r12 = 0, pr_r13 = 0, pr_r14 = 0, pr_r15 = 0\<rparr>"

lemma line_small_ok: "serial_line 2 line_small fst (\<lambda>h. \<not> snd h) (\<lambda>h. if snd h then 1 else 0)"
  by (auto simp: serial_line_def line_small_def split: if_splits)

theorem kernel_panic_prints_witness:
  "\<exists>k' h'. kernel_panic 2 line_small registers_small (c_string ''pmm.c'') 114 (c_string ''Frame %u of %lx'') [ArgWord 12, ArgWord 0xFF] console_small ([], True) =
       Inr (k', h') \<and> fst h' = panic_screen registers_small (bytes ''pmm.c'') 114 (bytes ''Frame '' @ decimal_text 12 @ bytes '' of '' @ hex_text 0xFF) 3661000"
proof -
  have "render (c_string ''Frame %u of %lx'') [ArgWord 12, ArgWord 0xFF] = Some (bytes ''Frame '' @ decimal_text 12 @ bytes '' of '' @ hex_text 0xFF)"
    by (simp add: c_string_bytes bytes_def number_of_def)
  moreover have "c_str (c_string ''pmm.c'') = bytes ''pmm.c''" by (simp add: c_string_bytes bytes_def c_str_def)
  moreover have "fst (rdtsc line_small ([], True)) div tsc_tick_per_ms console_small = 3661000"
    by (simp add: rdtsc_def line_small_def console_small_def)
  ultimately show ?thesis
    using kernel_panic_prints [OF line_small_ok, of console_small "c_string ''pmm.c''" "c_string ''Frame %u of %lx''" "[ArgWord 12, ArgWord 0xFF]" _ registers_small 114 "([], True)"]
    by (simp add: console_small_def c_string_bytes)
qed

end
