(* ===== verification/Kernel_Core.thy ===== *)
theory Kernel_Core
  imports Ahci Ramfs
begin

text \<open>
  The start-up sequence, \<^verbatim>\<open>kernel_core.c\<close>: \<^verbatim>\<open>_start\<close> calls the initialisers of the other components in order, exercises
  the allocator and the file system, and halts. Its static data and that of the components is the record
  \<open>kernel_state\<close>; what the code finds in memory and where the linker put functions and tables is the record \<open>start_env\<close>.
  The result is the state in which the last loop halts.
\<close>

section \<open>Definitions\<close>

text \<open>
  The memory managers, the drives and the hardware are one state; the file system has its own fields beside the same
  heap. Of \<open>k_fs\<close> only these fields count, its heap is that of \<open>k_mem\<close>.
\<close>

record 'h kernel_state =
  magic_number :: u32
  uninitialized_var :: int
  k_console :: console_state
  k_idt :: "gate_descriptor list"
  k_idtr :: idtr_t
  k_gdt :: "segment_descriptor list"
  k_gdtr :: gdtr_t
  k_handlers :: "u64 list"
  k_pci :: pci_state
  k_mem :: "'h ahci_state"
  k_fs :: ramfs_state

record 'h start_env =
  st_polls :: nat
  st_machine :: "'h machine"
  st_hba :: "'h hba_regs"
  st_ahci_api :: u64
  st_ahci_init_device :: u64
  st_page_fault_callback :: u64
  st_wrapper_table :: "u64 list"
  st_idt_address :: u64
  st_gdt_address :: u64
  boot_info_at :: "u64 \<Rightarrow> boot_info"
  bytes_at :: "u64 \<Rightarrow> u8 list"
  st_test_buffer :: "u8 list"
  st_dirent :: vfs_dirent_t

text \<open>The processor's instructions, on the state that holds the hardware.\<close>

definition on_hw :: "('h \<Rightarrow> 'v \<times> 'h) \<Rightarrow> 'h ahci_state \<Rightarrow> 'v \<times> 'h ahci_state" where
  "on_hw f s = (case f (hw s) of (v, h) \<Rightarrow> (v, s\<lparr>hw := h\<rparr>))"

definition lift_machine :: "'h machine \<Rightarrow> 'h ahci_state machine" where
  "lift_machine m =
     \<lparr>inb = (\<lambda>p. on_hw (inb m p)), inw = (\<lambda>p. on_hw (inw m p)), inl = (\<lambda>p. on_hw (inl m p)),
      outb = (\<lambda>p v s. s\<lparr>hw := outb m p v (hw s)\<rparr>), outw = (\<lambda>p v s. s\<lparr>hw := outw m p v (hw s)\<rparr>),
      outl = (\<lambda>p v s. s\<lparr>hw := outl m p v (hw s)\<rparr>),
      tsc_halves = (\<lambda>s. case tsc_halves m (hw s) of (low, high, h) \<Rightarrow> (low, high, s\<lparr>hw := h\<rparr>))\<rparr>"

definition LOG_SYS_NONE :: u32 where "LOG_SYS_NONE = 0"
definition LOG_SYS_INIT :: u32 where "LOG_SYS_INIT = 1"

definition log_line ::
  "log_level_t \<Rightarrow> 'h start_env \<Rightarrow> string \<Rightarrow> va_arg list \<Rightarrow> 'h kernel_state \<Rightarrow> 'h kernel_state res" where
  "log_line level E fmt args K =
     bindE (log_message (st_polls E) (lift_machine (st_machine E)) level LOG_SYS_INIT (c_string ''INIT'')
              (c_string (fmt @ [CHR 0x0A])) args (k_console K) (k_mem K)) (\<lambda>(k, s).
       Inr (K\<lparr>k_console := k, k_mem := s\<rparr>))"

subsection \<open>Tables and clock\<close>

definition start_tables :: "'h start_env \<Rightarrow> 'h kernel_state \<Rightarrow> 'h kernel_state res" where
  "start_tables E K =
     (let K1 = K\<lparr>uninitialized_var := (if magic_number K = 0xDEADC0DE then 1 else 2),
                 k_console := log_enable_subsystem_debug LOG_SYS_NONE (k_console K),
                 k_mem := serial_init (lift_machine (st_machine E)) (k_mem K)\<rparr>;
          (idt, idtr) = idt_init (st_wrapper_table E) (st_idt_address E) in
      bindE (gdt_init (k_gdt K1) (st_gdt_address E)) (\<lambda>(gdt, gdtr).
      bindE (tsc_timer_init (st_polls E) (lift_machine (st_machine E)) (k_console K1) (k_mem K1)) (\<lambda>(k, s).
        log_line LOG_INFO E ''Finished loading tables (gdt and idt), serial, and tsc timers.'' []
          (K1\<lparr>k_idt := idt, k_idtr := idtr, k_gdt := gdt, k_gdtr := gdtr, k_console := k, k_mem := s\<rparr>))))"

subsection \<open>Memory\<close>

text \<open>\<open>BootInfo\<close> is the address in the direct map.\<close>

definition start_memory :: "'h start_env \<Rightarrow> u64 \<Rightarrow> 'h kernel_state \<Rightarrow> 'h kernel_state res" where
  "start_memory E BootInfo K =
     (let bi = boot_info_at E BootInfo;
          s1 = vmm_init bi (pmm_init (bytes_at E) bi (k_mem K)) in
      bindE (vma_init s1) (\<lambda>s2.
      bindE (isr_register_interrupt_handler 14 (st_page_fault_callback E) (k_handlers K)) (\<lambda>tbl.
      bindE (log_line LOG_INFO E ''Finished memory managers init.'' [] (K\<lparr>k_mem := s2, k_handlers := tbl\<rparr>)) (\<lambda>K3.
      bindE (kmalloc_init (k_mem K3)) (\<lambda>s4.
        log_line LOG_INFO E ''Finished kmalloc init.'' [] (K3\<lparr>k_mem := s4\<rparr>))))))"

text \<open>\<^verbatim>\<open>sizeof(boot_info)\<close>; its first field is \<^verbatim>\<open>framebuffer_base\<close>.\<close>

definition BOOT_INFO_BYTES :: u64 where "BOOT_INFO_BYTES = 96"

definition alloc_and_store :: "u64 \<Rightarrow> u64 \<Rightarrow> 'h ahci_state \<Rightarrow> (u64 \<times> 'h ahci_state) res" where
  "alloc_and_store sz v s =
     bindE (kmalloc sz s) (\<lambda>(p, s1).
     bindE (touch_page p s1) (\<lambda>s2.
     bindE (kmem_store p v s2) (\<lambda>s3. Inr (p, s3))))"

definition start_heap_test :: "'h ahci_state \<Rightarrow> 'h ahci_state res" where
  "start_heap_test s =
     bindE (alloc_and_store 8 502 s) (\<lambda>(massive_integer, s1).
     bindE (alloc_and_store 8 441 s1) (\<lambda>(another_massive_integer, s2).
     bindE (alloc_and_store BOOT_INFO_BYTES 0x6435 s2) (\<lambda>(bf2, s3).
     bindE (alloc_and_store 2798 8321897 s3) (\<lambda>(page_int, s4).
     bindE (kfree massive_integer s4) (\<lambda>s5.
     bindE (kfree another_massive_integer s5) (\<lambda>s6.
     bindE (kfree bf2 s6) (\<lambda>s7.
       kfree page_int s7)))))))"

subsection \<open>Drivers\<close>

definition ahci_pci_driver :: "'h start_env \<Rightarrow> pci_driver_t" where
  "ahci_pci_driver E =
     \<lparr>driver_name = c_string ''Generic AHCI Driver'', driver_codes = PCI_CLASS_DRIVER 0x01 0x06 0x01,
      driver_init = st_ahci_init_device E\<rparr>"

text \<open>A call of a driver's \<^verbatim>\<open>init\<close>; its result is not used.\<close>

definition driver_inits :: "'h start_env \<Rightarrow> console_state \<Rightarrow> u64 \<Rightarrow> u64 \<Rightarrow> pci_state \<Rightarrow> 'h ahci_state \<Rightarrow> (pci_state \<times> 'h ahci_state) res" where
  "driver_inits E k f i p s =
     (if f = 0 then Inl NullDeref
      else if f \<noteq> st_ahci_init_device E then Inl WildDeref
      else
        bindE (arr_get (pci_devices p) i) (\<lambda>slot.
        bindE (ahci_init_device \<lparr>env_polls = st_polls E, env_machine = st_machine E, env_hba = st_hba E, env_console = k,
                 env_pci = p, env_ahci_api = st_ahci_api E\<rparr> (slot_device slot) s) (\<lambda>(_, s1).
          Inr (p, s1))))"

definition start_drivers :: "'h start_env \<Rightarrow> 'h kernel_state \<Rightarrow> 'h kernel_state res" where
  "start_drivers E K =
     bindE (drivers_pci_register (ahci_pci_driver E) (k_pci K)) (\<lambda>(_, p1).
     bindE (pci_discover (lift_machine (st_machine E)) (driver_inits E (k_console K)) p1 (k_mem K)) (\<lambda>(p2, s).
       Inr (K\<lparr>k_pci := p2, k_mem := s\<rparr>)))"

subsection \<open>File system\<close>

definition on_fs :: "(ramfs_state \<Rightarrow> ('v \<times> ramfs_state) res) \<Rightarrow> 'h kernel_state \<Rightarrow> ('v \<times> 'h kernel_state) res" where
  "on_fs f K =
     bindE (f (kmalloc_state.extend (kmalloc_state.truncate (k_mem K)) (kmalloc_state.more (k_fs K)))) (\<lambda>(v, fs).
       Inr (v, K\<lparr>k_fs := fs, k_mem := kmalloc_state.extend (kmalloc_state.truncate fs) (kmalloc_state.more (k_mem K))\<rparr>))"

definition no_value :: "'s res \<Rightarrow> (unit \<times> 's) res" where
  "no_value r = bindE r (\<lambda>s. Inr ((), s))"

fun vfs_node_type_code :: "vfs_node_type_t \<Rightarrow> u64" where
  "vfs_node_type_code VFS_NODE_FILE = 0"
| "vfs_node_type_code VFS_NODE_DIRECTORY = 1"
| "vfs_node_type_code VFS_NODE_MOUNTPOINT = 2"

definition read_test_node :: "'h start_env \<Rightarrow> u64 \<Rightarrow> 'h kernel_state \<Rightarrow> 'h kernel_state res" where
  "read_test_node E test_node K =
     (if test_node = 0 then log_line LOG_ERROR E ''TEstnode is null.'' [] K
      else
        bindE (on_fs (vfs_open ramfs_drivers test_node) K) (\<lambda>(_, K1).
        bindE (on_fs (\<lambda>s. bindE (vfs_read ramfs_drivers test_node 0 8 (st_test_buffer E) s) (\<lambda>(_, b, s1). Inr (b, s1))) K1) (\<lambda>(b, K2).
          log_line LOG_INFO E ''Test node returned %lx.'' [ArgWord (load64 (\<lambda>a. b ! unat a) 0)] K2)))"

text \<open>The test before the directory is read is on \<^verbatim>\<open>test_node\<close>.\<close>

definition read_test_dir :: "'h start_env \<Rightarrow> u64 \<Rightarrow> u64 \<Rightarrow> 'h kernel_state \<Rightarrow> 'h kernel_state res" where
  "read_test_dir E test_node test_dir K =
     (if test_node = 0 then log_line LOG_ERROR E ''Testdir is null.'' [] K
      else
        bindE (on_fs (\<lambda>s. bindE (vfs_readdir ramfs_drivers test_dir 0 (Some (st_dirent E)) s) (\<lambda>(_, d, s1). Inr (d, s1))) K) (\<lambda>(d, K1).
        case d of None \<Rightarrow> Inl NullDeref
        | Some dirent \<Rightarrow>
            log_line LOG_INFO E ''READDIR returns: name: %s, inode: %u, size: %lu, type: %u.''
              [ArgStr (Some (de_name dirent)), ArgWord (de_inode dirent), ArgWord (de_size dirent),
               ArgWord (vfs_node_type_code (de_type dirent))] K1))"

definition start_file_system :: "'h start_env \<Rightarrow> 'h kernel_state \<Rightarrow> 'h kernel_state res" where
  "start_file_system E K =
     bindE (on_fs (\<lambda>s. no_value (ramfs_init s)) K) (\<lambda>(_, K1).
     bindE (on_fs ramfs_get_fs K1) (\<lambda>(fs_root, K2).
     bindE (on_fs (\<lambda>s. no_value (vfs_init fs_root s)) K2) (\<lambda>(_, K3).
     bindE (on_fs (vfs_lookup ramfs_drivers (Some (c_string ''/subdirtest/test''))) K3) (\<lambda>(test_node, K4).
     bindE (read_test_node E test_node K4) (\<lambda>K5.
     bindE (on_fs (vfs_lookup ramfs_drivers (Some (c_string ''/subdirtest''))) K5) (\<lambda>(test_dir, K6).
       read_test_dir E test_node test_dir K6))))))"

subsection \<open>The whole sequence\<close>

definition start_early :: "'h start_env \<Rightarrow> u64 \<Rightarrow> 'h kernel_state \<Rightarrow> 'h kernel_state res" where
  "start_early E BootInfo K =
     bindE (start_tables E K) (\<lambda>K1.
     bindE (start_memory E (BootInfo + DIRECT_MAP_BASE) K1) (\<lambda>K2.
     bindE (start_heap_test (k_mem K2)) (\<lambda>s. Inr (K2\<lparr>k_mem := s\<rparr>))))"

definition kernel_start :: "'h start_env \<Rightarrow> u64 \<Rightarrow> 'h kernel_state \<Rightarrow> 'h kernel_state res" where
  "kernel_start E BootInfo K =
     bindE (start_early E BootInfo K) (\<lambda>K1.
     bindE (start_drivers E K1) (\<lambda>K2.
     bindE (start_file_system E K2) (\<lambda>K3.
       log_line LOG_INFO E ''Hello from the kernel!'' [] K3)))"

section \<open>Properties\<close>

text \<open>The first access to configuration space is a call of a function pointer that \<^verbatim>\<open>pci_init\<close> sets.\<close>

lemma pci_discover_unset:
  assumes "pci_api p = PciApiUnset"
  shows "pci_discover m inits p h = Inl NullDeref"
proof -
  have u: "[0..<n] = 0 # [Suc 0..<n]" if "0 < n" for n using that by (rule upt_conv_Cons)
  obtain slots where b: "bus_slots = (0, 0) # slots"
    unfolding bus_slots_def u [of 256, simplified] u [of 32, simplified] by (simp del: upt_rec_numeral)
  obtain fs where f: "function_numbers = 0 # fs"
    unfolding function_numbers_def u [of 8, simplified] by (simp del: upt_rec_numeral)
  have "pci_get_header m p b d f h = Inl NullDeref" for b d f
    using assms by (simp add: pci_get_header_def pci_api_read_def numeral_eq_Suc)
  then show ?thesis unfolding pci_discover_def b f discover_slots.simps discover_functions.simps by simp
qed

lemma log_line_pci: "log_line level E fmt args K = Inr K' \<Longrightarrow> k_pci K' = k_pci K"
  by (auto simp: log_line_def bindE_eq_Inr)

lemma start_tables_pci: "start_tables E K = Inr K' \<Longrightarrow> k_pci K' = k_pci K"
  unfolding start_tables_def Let_def by (auto simp: bindE_eq_Inr dest!: log_line_pci split: prod.splits)

lemma start_memory_pci: "start_memory E b K = Inr K' \<Longrightarrow> k_pci K' = k_pci K"
  unfolding start_memory_def Let_def by (auto simp: bindE_eq_Inr dest!: log_line_pci)

lemma start_early_pci: "start_early E b K = Inr K' \<Longrightarrow> k_pci K' = k_pci K"
  unfolding start_early_def by (auto simp: bindE_eq_Inr dest!: start_tables_pci start_memory_pci)

text \<open>A driver can be registered, or there is no room; the functions of the bus are left alone.\<close>

lemma register_keeps_api:
  assumes "length (drivers (pci_driver_registry p)) = 64"
  shows "\<exists>r p'. drivers_pci_register d p = Inr (r, p') \<and> pci_api p' = pci_api p"
  using assms by (auto simp: drivers_pci_register_def Let_def MAX_PCI_DRIVERS_def word_le_nat_alt)

lemma start_drivers_unset:
  assumes "pci_api (k_pci K) = PciApiUnset" and "length (drivers (pci_driver_registry (k_pci K))) = 64"
  shows "start_drivers E K = Inl NullDeref"
  using register_keeps_api [OF assms(2), of "ahci_pci_driver E"] assms(1) by (auto simp: start_drivers_def pci_discover_unset)

text \<open>C14: Nothing calls \<^verbatim>\<open>pci_init\<close>, so the kernel never gets past the discovery of PCI devices: from the static data it is
  loaded with, in which the functions of the bus are not set, every run of \<^verbatim>\<open>_start\<close> that initialises the tables, the
  memory managers and the allocator ends in a call of a null pointer, before any driver is bound and
  before the file system is set up.\<close>

theorem start_stops_at_pci_discover:
  assumes "pci_api (k_pci K) = PciApiUnset" and "length (drivers (pci_driver_registry (k_pci K))) = 64"
  shows "kernel_start E BootInfo K = bindE (start_early E BootInfo K) (\<lambda>_. Inl NullDeref)"
proof (cases "start_early E BootInfo K")
  case (Inr K')
  with start_early_pci assms have "start_drivers E K' = Inl NullDeref" by (metis start_drivers_unset)
  with Inr show ?thesis by (simp add: kernel_start_def)
qed (simp add: kernel_start_def)

text \<open>
  A machine with 256 frames, an idle serial port and a clock, whose state counts the accesses, and the static data of
  the kernel as it is loaded.
\<close>

definition machine_idle :: "nat machine" where
  "machine_idle = \<lparr>inb = (\<lambda>_ h. (0x20, h + 1)), inw = (\<lambda>_ h. (0xFFFF, h)), inl = (\<lambda>_ h. (0xFFFFFFFF, h)), outb = (\<lambda>_ _ h. h + 1),
     outw = (\<lambda>_ _ h. h), outl = (\<lambda>_ _ h. h), tsc_halves = (\<lambda>h. (of_nat (1000 * h), 0, h + 1))\<rparr>"

definition boot_info_small :: boot_info where
  "boot_info_small = \<lparr>framebuffer_base = 0, framebuffer_size = 0, horizontal_resolution = 0, vertical_resolution = 0,
     pixels_per_scan_line = 0, memory_bitmap_address = 0x1000, memory_bitmap_size = 32, memory_bitmap_frame_count = 0,
     memory_physical_total_frames = 256, memory_physical_used_frames = 4, bridge_location = 0, bridge_size = 0, bi_PML4 = 0x3000\<rparr>"

definition start_env_small :: "nat start_env" where
  "start_env_small = \<lparr>st_polls = 5, st_machine = machine_idle, st_hba = \<lparr>reg_rd = (\<lambda>_ m h. (0, m, h)), reg_wr = (\<lambda>_ _ m h. (m, h))\<rparr>,
     st_ahci_api = 0x4000, st_ahci_init_device = 0x5000, st_page_fault_callback = 0x6000, st_wrapper_table = replicate 256 0x7000,
     st_idt_address = 0x8000, st_gdt_address = 0x9000, boot_info_at = (\<lambda>_. boot_info_small), bytes_at = (\<lambda>_. 0xF # replicate 31 0),
     st_test_buffer = replicate 8 0, st_dirent = \<lparr>de_name = replicate 128 0, de_inode = 0, de_type = VFS_NODE_FILE, de_size = 0\<rparr>\<rparr>"

definition heap_image :: kmalloc_state where
  "heap_image = \<lparr>bitmap = [], bitmap_size_bytes = 0, bitmap_size_frames = 0, memory_total_frame_count = 0, memory_used_frame_count = 0,
     phys_mem = (\<lambda>_. 0), PML4 = 0, kernel_vma_heap_tree = \<lparr>root = 0, avl_size = 0\<rparr>, kernel_vma_mmio_tree = \<lparr>root = 0, avl_size = 0\<rparr>,
     free_list = 0, free_node_count = 0, in_replenish_cycle = 0, vm_nodes = (\<lambda>_. None),
     buckets = replicate 7 \<lparr>bucket_size = 0, free_page_list = 0, full_page_list = 0\<rparr>, page_descs = (\<lambda>_. None), kmem = (\<lambda>_. 0)\<rparr>"

definition pci_image :: pci_state where
  "pci_image = \<lparr>pci_devices = replicate 64 \<lparr>slot_device = \<lparr>bus = 0, device = 0, function_no = 0, vendor_id = 0, device_id = 0,
       class_code = 0, sub_class = 0, prog_if = 0, bars = replicate 6 0\<rparr>, slot_driver = None\<rparr>,
     pci_devices_count = 0, pci_api = PciApiUnset,
     pci_driver_registry = \<lparr>drivers = replicate 64 \<lparr>driver_name = [], driver_codes = PCI_CLASS_DRIVER 0 0 0, driver_init = 0\<rparr>,
       driver_count = 0\<rparr>\<rparr>"

definition kernel_image :: "nat kernel_state" where
  "kernel_image = \<lparr>magic_number = 0xDEADC0DE, uninitialized_var = 0,
     k_console = \<lparr>printf_buffer = replicate 32 0, subsystem_mask = 0, tsc_tick_per_ms = 0\<rparr>,
     k_idt = [], k_idtr = \<lparr>idtr_size = 0, idtr_offset = 0\<rparr>,
     k_gdt = replicate 3 \<lparr>limit_low = 0, base_low = 0, base_mid = 0, access_byte = 0, seg_flags = 0, base_high = 0\<rparr>,
     k_gdtr = \<lparr>gdtr_size = 0, gdtr_offset = 0\<rparr>, k_handlers = replicate 256 0, k_pci = pci_image,
     k_mem = kmalloc_state.extend heap_image
       \<lparr>lbd_drives = replicate 256 0, next_drive_num = 0, drive_heap = (\<lambda>_. None), buffer_mem = (\<lambda>_. 0), ahci_data = (\<lambda>_. None), hw = 0\<rparr>,
     k_fs = kmalloc_state.extend heap_image
       \<lparr>vfs_tree = \<lparr>root = 0, avl_size = 0\<rparr>, vfs_root_node = 0, vfs_nodes = (\<lambda>_. None), ram_files = [], ram_dirs = [], ram_dirents = []\<rparr>\<rparr>"

theorem start_stops_at_pci_discover_witness:
  "kernel_start start_env_small 0 kernel_image = bindE (start_early start_env_small 0 kernel_image) (\<lambda>_. Inl NullDeref)"
  by (rule start_stops_at_pci_discover) (simp_all add: kernel_image_def pci_image_def)

end
