(* ===== verification/Spec2Isabelle.thy ===== *)
theory Spec2Isabelle
  imports Stdstr Interrupts Ramfs Ahci_Props Vma_Alloc Vmm_Huge Kmalloc_Props Boot_Map Handover Pci_Props Panic Kernel_Core
begin

text \<open>
  A verification development for \<^verbatim>\<open>fesos\<close>, a 64-bit x86 kernel with its UEFI boot loader, written in C.

  \<^bold>\<open>The program.\<close> The boot loader (\<^verbatim>\<open>bootloader/efi.c\<close>) builds a bitmap of physical frames and the first page
  tables, loads the kernel and jumps to \<^verbatim>\<open>_start\<close> (\<^verbatim>\<open>kernel_core.c\<close>), which sets up the descriptor tables, the
  timer, the memory managers, the heap, the PCI bus with its drivers and the file system. The physical
  memory manager hands out frames; the virtual memory manager maps pages to them; the virtual memory areas
  hand out address ranges from two AVL trees and map pages on demand; the kernel heap takes pages from the areas
  and cuts them into blocks; the block layer and the file systems use the heap.

  \<^bold>\<open>Conventions.\<close> A C integer is a word of its width, so arithmetic wraps as in C. An operation is a
  function from the state before to \<open>fault + result \<times> state\<close>: a dereference of NULL or of an address where no
  object lives, an access outside an array, a division by zero, a panic, and a loop that has used up its fuel are
  the faults of theory \<^verbatim>\<open>Prelude\<close>. The static variables of a file are the fields of a record; a component that uses
  another one extends its record, so a state of the file system contains a state of the heap, of the areas, of
  the page tables and of the frames. Structures in memory are records in a heap that maps their address to
  them; the list of free blocks, page tables and raw buffers are words or bytes of a memory. Drivers behind
  function pointers, device registers, the time-stamp counter and the firmware are parameters. Log output of
  the components other than the start-up sequence is left out.

  \<^bold>\<open>Theories.\<close>
  \<^item> \<^verbatim>\<open>Prelude\<close>: integer types, error numbers of \<^verbatim>\<open>errno.h\<close>, faults, sequencing, arrays, facts on words.
  \<^item> \<^verbatim>\<open>Stdstr\<close> (\<^verbatim>\<open>common/stdstr.c\<close>): number conversion, string comparison and copy, \<^verbatim>\<open>memset\<close> and \<^verbatim>\<open>memcpy\<close> with
    their 64-bit inner loops. The conversions are inverse to parsing, the word loops equal the byte loops.
  \<^item> \<^verbatim>\<open>Pmm\<close> (\<^verbatim>\<open>memory/pmm.c\<close>): the bitmap allocator. The search returns the lowest aligned free run, granted
    runs never overlap, freeing gives back what was allocated and panics on a double free. The locale of
    frame allocators is interpreted on the two operations.
  \<^item> \<^verbatim>\<open>Vmm\<close> (\<^verbatim>\<open>memory/vmm.c\<close>), \<^verbatim>\<open>Vmm_Tables\<close>, \<^verbatim>\<open>Vmm_Map\<close>, \<^verbatim>\<open>Vmm_Props\<close>, \<^verbatim>\<open>Vmm_Huge\<close>: page tables in physical memory.
    The tables form a tree without sharing (\<^verbatim>\<open>pt_wf\<close>); on such tables mapping and unmapping implement the
    change of a partial function from pages to entries, the one that the processor's own walk
    (\<^verbatim>\<open>hw_translate\<close>) computes. Huge pages are treated separately because the code treats them wrongly.
  \<^item> \<^verbatim>\<open>Avl_Spec\<close>, \<^verbatim>\<open>Avl\<close> (\<^verbatim>\<open>common/ds/avl.c\<close>): the intrusive AVL tree on an explicit heap. Two locales state what
    a client's update callback and comparator promise; inside them insertion, removal of nodes with at most one
    child, traversal and lookup are shown to implement the functions of \<^verbatim>\<open>Avl_Spec\<close>.
  \<^item> \<^verbatim>\<open>Vma\<close> (\<^verbatim>\<open>memory/vma.c\<close>, and \<^verbatim>\<open>vmm_pin_pages\<close> and the page-fault handler of \<^verbatim>\<open>memory/vmm.c\<close>), \<^verbatim>\<open>Vma_Tree\<close>,
    \<^verbatim>\<open>Vma_Alloc\<close>: address ranges. The locales of \<^verbatim>\<open>Avl\<close> are interpreted on the callback and the comparator of this
    file; lookups are correct, and allocation refines an operation on the sequence of areas.
  \<^item> \<^verbatim>\<open>Kmalloc\<close> (\<^verbatim>\<open>memory/kmalloc.c\<close>), \<^verbatim>\<open>Kmalloc_Props\<close>: the heap with its seven buckets, device mappings and
    DMA buffers.
  \<^item> \<^verbatim>\<open>Interrupts\<close> (\<^verbatim>\<open>kernel/idt.c\<close>, \<^verbatim>\<open>kernel/gdt.c\<close>, \<^verbatim>\<open>kernel/isr.c\<close>): gates, segments, dispatch.
  \<^item> \<^verbatim>\<open>Console\<close> (\<^verbatim>\<open>drivers/serial.c\<close>, \<^verbatim>\<open>common/printf.c\<close>, \<^verbatim>\<open>common/logging.c\<close>, \<^verbatim>\<open>kernel/time.c\<close>, \<^verbatim>\<open>drivers/io.h\<close>).
  \<^item> \<^verbatim>\<open>Pci\<close> (\<^verbatim>\<open>buses/pci.c\<close>, \<^verbatim>\<open>kernel/drivers.c\<close>), \<^verbatim>\<open>Lbd\<close> (\<^verbatim>\<open>drivers/block/lbd.c\<close>).
  \<^item> \<^verbatim>\<open>Vfs\<close> (\<^verbatim>\<open>kernel/vfs.c\<close>), \<^verbatim>\<open>Ramfs\<close> (\<^verbatim>\<open>drivers/fs/ramfs.c\<close>).
  \<^item> \<^verbatim>\<open>Ahci\<close> (\<^verbatim>\<open>drivers/storage/ahci.c\<close>), \<^verbatim>\<open>Ahci_Props\<close>: the disk driver. The registers of the controller, and what
    it does to memory when one is accessed, are a parameter. The table of physical regions of a transfer lists the
    physical bytes of the buffer in order and stays in its page.
  \<^item> \<^verbatim>\<open>Bytes\<close>: integers in a memory of bytes. \<^verbatim>\<open>Boot\<close> (\<^verbatim>\<open>bootloader/efi.c\<close>, \<^verbatim>\<open>bootloader/efi.h\<close>, \<^verbatim>\<open>kernel/elf.h\<close>), \<^verbatim>\<open>Boot_Props\<close>,
    \<^verbatim>\<open>Boot_Map\<close>: the boot loader, with the firmware's services as a parameter. The bitmap marks the usable memory of
    the firmware's map (the contract of bit arrays of \<^verbatim>\<open>Pmm\<close> is interpreted a second time, on this copy), and the
    page tables translate as requested, read by the processor's walk of \<^verbatim>\<open>Vmm\<close>.
  \<^item> \<^verbatim>\<open>Handover\<close>: boot loader and physical memory manager together. Every frame that the kernel allocates from the boot
    loader's bitmap lies in a usable region of the firmware's map.
  \<^item> \<^verbatim>\<open>Console_Props\<close>, \<^verbatim>\<open>Panic\<close> (\<^verbatim>\<open>kernel/panic.c\<close>): formatted output sends the text that a format string stands for, sleeping
    ends, and a panic prints its whole screen. What the serial port and the counter do is stated as hypotheses
    (\<^verbatim>\<open>serial_line\<close>, \<^verbatim>\<open>clock_runs\<close>).
  \<^item> \<^verbatim>\<open>Pci_Props\<close>: the tables of devices and drivers stay in bounds and consistent during the enumeration of the bus.
  \<^item> \<^verbatim>\<open>Kernel_Core\<close> (\<^verbatim>\<open>kernel_core.c\<close>): the start-up sequence on the states of all components. It stops at the enumeration
    of the bus, whose functions nothing has set.

  \<^bold>\<open>Fuel.\<close> Counting loops are total functions with a measure. Loops along pointers of the AVL tree
  start with 2 to the power 64 steps, more than there are addresses, and the lemmas show that a well-formed tree
  never uses them up. Loops that poll a device take the number of polls as a parameter.
  The loops of the boot loader over 64-bit variables have 2 to the power 64 rounds, one for every value of the variable.

  \<^bold>\<open>Not modelled.\<close> The translation look-aside buffer, caches and memory ordering; the assembly files that
  load the descriptor tables, save registers and enter the kernel; the text of log messages of the components;
  user address spaces, which the code does not have yet.
\<close>

end
